(* ===== verification/Go_Prelude.thy ===== *)
theory Go_Prelude
  imports Main "HOL-Library.Word" "HOL-Library.AList" "HOL-Library.List_Lexorder" "HOL-Library.Char_ord"
begin

text \<open>
  The vocabulary the components share: the outcome of a Go call (a value, a returned
  error, a run-time panic, or a recursion that has not finished within the given fuel),
  machine integers, Go's checked slicing of strings, \<open>map[string]T\<close> as an association
  list, and the generic lemmas about them.
\<close>

named_theorems go_simps \<open>unfolding rules of the Go language primitives\<close>

section \<open>Outcomes of Go calls\<close>

text \<open>The run-time panics that the modelled code can raise.\<close>

datatype gopanic =
    SliceBounds \<comment> \<open>slice bounds out of range\<close>
  | IndexRange \<comment> \<open>index out of range\<close>
  | MakeSliceCap \<comment> \<open>makeslice: cap out of range\<close>
  | NilMapWrite \<comment> \<open>assignment to entry in nil map\<close>
  | NilDeref \<comment> \<open>nil pointer dereference\<close>

text \<open>
  A call returns a value (\<open>Ok\<close>), returns a non-nil error (\<open>Err\<close>), panics, or is cut off
  because the recursion is deeper than the fuel (\<open>Fuel\<close>): a call that is cut off for
  every fuel never returns.
\<close>

datatype ('e, 'a) outcome = Ok 'a | Err 'e | Panic gopanic | Fuel

fun map_ok :: "('a \<Rightarrow> 'b) \<Rightarrow> ('e, 'a) outcome \<Rightarrow> ('e, 'b) outcome" where
  "map_ok f (Ok a) = Ok (f a)"
| "map_ok f (Err e) = Err e"
| "map_ok f (Panic p) = Panic p"
| "map_ok f Fuel = Fuel"

fun bind_ok :: "('e, 'a) outcome \<Rightarrow> ('a \<Rightarrow> ('e, 'b) outcome) \<Rightarrow> ('e, 'b) outcome" where
  "bind_ok (Ok a) f = f a"
| "bind_ok (Err e) f = Err e"
| "bind_ok (Panic p) f = Panic p"
| "bind_ok Fuel f = Fuel"

lemma bind_ok_Ok_iff [simp]:
  "bind_ok m f = Ok b \<longleftrightarrow> (\<exists>a. m = Ok a \<and> f a = Ok b)"
  by (cases m) auto

lemma map_ok_Ok_iff [simp]: "map_ok f m = Ok b \<longleftrightarrow> (\<exists>a. m = Ok a \<and> f a = b)"
  by (cases m) auto

lemma map_ok_Fuel_iff [simp]: "map_ok f m = Fuel \<longleftrightarrow> m = Fuel"
  by (cases m) auto

section \<open>Machine integers\<close>

text \<open>Go's \<open>int\<close> and \<open>int64\<close> are 64-bit two's complement, \<open>uint64\<close> is 64-bit unsigned.\<close>

type_synonym int64 = "64 word"
type_synonym uint64 = "64 word"

abbreviation min_int64 :: int where "min_int64 \<equiv> - (2 ^ 63)"
abbreviation max_int64 :: int where "max_int64 \<equiv> 2 ^ 63 - 1"

text \<open>The value of an integer expression of type \<open>int\<close>: the mathematical result, wrapped.\<close>

definition wrap64 :: "int \<Rightarrow> int" where
  "wrap64 n = (n + 2 ^ 63) mod 2 ^ 64 - 2 ^ 63"

lemma wrap64_id [simp]: "min_int64 \<le> n \<Longrightarrow> n \<le> max_int64 \<Longrightarrow> wrap64 n = n"
  by (simp add: wrap64_def)

lemma wrap64_over: "2 ^ 63 \<le> n \<Longrightarrow> n < 2 ^ 64 \<Longrightarrow> wrap64 n = n - 2 ^ 64"
proof -
  assume a: "2 ^ 63 \<le> n" "n < 2 ^ 64"
  have "(n + 2 ^ 63) mod 2 ^ 64 = (n + 2 ^ 63 - 2 ^ 64) mod 2 ^ 64"
    by (metis minus_mod_self2)
  also have "\<dots> = n + 2 ^ 63 - 2 ^ 64"
    using a by (intro mod_pos_pos_trivial) auto
  finally show ?thesis by (simp add: wrap64_def)
qed

lemma sint_word_of_int_64 [simp]:
  "min_int64 \<le> n \<Longrightarrow> n \<le> max_int64 \<Longrightarrow> sint (word_of_int n :: int64) = n"
  by (simp add: signed_of_int signed_take_bit_int_eq_self)

lemma sint_bounds_64: "min_int64 \<le> sint (w :: int64)" "sint (w :: int64) \<le> max_int64"
  using sint_greater_eq [of w] sint_less [of w] by auto

lemma nat_le_max_int64: "n < 2 ^ 63 \<Longrightarrow> int n \<le> max_int64"
  by simp

section \<open>Strings as byte sequences\<close>

text \<open>Go's \<open>s[lo:hi]\<close>: a panic (\<open>None\<close>) unless \<open>0 \<le> lo \<le> hi \<le> len(s)\<close>.\<close>

definition go_slice :: "string \<Rightarrow> int \<Rightarrow> int \<Rightarrow> string option" where
  "go_slice s lo hi =
     (if 0 \<le> lo \<and> lo \<le> hi \<and> hi \<le> int (length s)
      then Some (take (nat (hi - lo)) (drop (nat lo) s)) else None)"

lemma go_slice_append [simp]:
  "go_slice (pre @ s @ rest) (int (length pre)) (int (length pre) + int (length s)) = Some s"
  by (simp add: go_slice_def)

text \<open>\<open>strings.IndexByte\<close> and \<open>strings.LastIndex\<close> with a one-byte separator; \<open>None\<close> is -1.\<close>

fun index_byte :: "char \<Rightarrow> string \<Rightarrow> nat option" where
  "index_byte c [] = None"
| "index_byte c (x # xs) = (if x = c then Some 0 else map_option Suc (index_byte c xs))"

fun last_index :: "char \<Rightarrow> string \<Rightarrow> nat option" where
  "last_index c [] = None"
| "last_index c (x # xs) =
     (case last_index c xs of Some i \<Rightarrow> Some (Suc i)
      | None \<Rightarrow> if x = c then Some 0 else None)"

lemma index_byte_None [simp]: "index_byte c s = None \<longleftrightarrow> c \<notin> set s"
  by (induction s) auto

lemma index_byte_Some:
  "index_byte c s = Some i \<Longrightarrow> i < length s \<and> s ! i = c \<and> c \<notin> set (take i s)"
  by (induction s arbitrary: i) (auto split: if_splits)

lemma index_byte_append: "c \<notin> set a \<Longrightarrow> index_byte c (a @ c # b) = Some (length a)"
  by (induction a) auto

lemma last_index_None [simp]: "last_index c s = None \<longleftrightarrow> c \<notin> set s"
  by (induction s) (auto split: option.splits)

lemma last_index_append: "c \<notin> set b \<Longrightarrow> last_index c (a @ c # b) = Some (length a)"
proof (induction a)
  case Nil
  then have "last_index c b = None" by simp
  then show ?case by (simp del: last_index_None)
qed simp

lemma last_index_Some:
  "last_index c s = Some i \<Longrightarrow> i < length s \<and> s ! i = c \<and> c \<notin> set (drop (Suc i) s)"
  by (induction s arbitrary: i) (auto split: option.splits if_splits simp del: last_index_None
       simp: last_index_None [THEN iffD1])

text \<open>\<open>strings.ToUpper\<close> on the ASCII letters, which is all a comparison with ASCII words sees.\<close>

definition to_upper_byte :: "char \<Rightarrow> char" where
  "to_upper_byte c =
     (let n = of_char c :: nat in if 97 \<le> n \<and> n \<le> 122 then char_of (n - 32) else c)"

section \<open>Go maps with string keys\<close>

text \<open>
  A \<open>map[string]T\<close> is an association list with distinct keys: \<open>AList.update\<close> is
  \<open>m[k] = v\<close>, \<open>map_of\<close> the comma-ok lookup, \<open>length\<close> is \<open>len\<close>. Go's iteration
  order is not specified; the code sorts the keys wherever the order shows.
\<close>

type_synonym 'v gomap = "(string \<times> 'v) list"

definition wf_map :: "'v gomap \<Rightarrow> bool" where
  "wf_map m \<longleftrightarrow> distinct (map fst m)"

lemma wf_map_Nil [simp]: "wf_map []"
  by (simp add: wf_map_def)

lemma wf_map_update [simp]: "wf_map m \<Longrightarrow> wf_map (AList.update k v m)"
  by (simp add: wf_map_def distinct_update)

lemma map_of_update [simp]: "map_of (AList.update k v m) = (map_of m)(k \<mapsto> v)"
  by (rule update_conv')

lemma update_fresh: "k \<notin> fst ` set m \<Longrightarrow> AList.update k v m = m @ [(k, v)]"
  by (induction m) auto

lemma map_of_map_snd:
  "map_of (map (\<lambda>(k, v). (k, f v)) m) k = map_option f (map_of m k)"
  by (induction m) auto

end
