(* ===== verification/Go_Strconv.thy ===== *)
theory Go_Strconv
  imports Go_Prelude
begin

text \<open>
  The integer half of Go's package \<open>strconv\<close>, as far as the sources use it:
  \<open>FormatInt\<close>, \<open>FormatUint\<close> and \<open>Itoa\<close> in base 10, \<open>ParseInt(s, 10, 64)\<close> and \<open>Atoi\<close>
  (on a 64-bit platform the latter two accept the same strings with the same results).
\<close>

section \<open>Decimal digits\<close>

datatype num_error = ErrSyntax | ErrRange

definition is_digit :: "char \<Rightarrow> bool" where
  "is_digit c \<longleftrightarrow> 48 \<le> (of_char c :: nat) \<and> (of_char c :: nat) \<le> 57"

definition digit_val :: "char \<Rightarrow> nat" where
  "digit_val c = of_char c - 48"

definition digit_char :: "nat \<Rightarrow> char" where
  "digit_char d = char_of (48 + d)"

fun FormatUint :: "nat \<Rightarrow> string" where
  "FormatUint n =
     (if n < 10 then [digit_char n] else FormatUint (n div 10) @ [digit_char (n mod 10)])"

declare FormatUint.simps [simp del]

definition FormatInt :: "int \<Rightarrow> string" where
  "FormatInt n = (if n < 0 then CHR ''-'' # FormatUint (nat (- n)) else FormatUint (nat n))"

abbreviation Itoa :: "int \<Rightarrow> string" where "Itoa \<equiv> FormatInt"

text \<open>
  The loop of \<open>ParseUint\<close>: the range error is raised as soon as the prefix read so far
  leaves 64 bits, a bad byte is a syntax error.
\<close>

fun parse_digits :: "nat \<Rightarrow> string \<Rightarrow> num_error + nat" where
  "parse_digits n [] = Inr n"
| "parse_digits n (c # cs) =
     (if \<not> is_digit c then Inl ErrSyntax
      else if 2 ^ 64 \<le> n * 10 + digit_val c then Inl ErrRange
      else parse_digits (n * 10 + digit_val c) cs)"

definition ParseUint :: "string \<Rightarrow> num_error + nat" where
  "ParseUint s = (if s = [] then Inl ErrSyntax else parse_digits 0 s)"

definition ParseInt :: "string \<Rightarrow> num_error + int" where
  "ParseInt s =
     (if s = [] then Inl ErrSyntax
      else
        let neg = (hd s = CHR ''-'');
            body = (if hd s = CHR ''+'' \<or> hd s = CHR ''-'' then tl s else s)
        in case ParseUint body of
             Inl e \<Rightarrow> Inl e
           | Inr un \<Rightarrow>
               if \<not> neg \<and> 2 ^ 63 \<le> un then Inl ErrRange
               else if neg \<and> 2 ^ 63 < un then Inl ErrRange
               else Inr (if neg then - int un else int un))"

abbreviation Atoi :: "string \<Rightarrow> num_error + int" where "Atoi \<equiv> ParseInt"

section \<open>Properties\<close>

lemma digit_char_simps [simp]:
  "d < 10 \<Longrightarrow> is_digit (digit_char d)"
  "d < 10 \<Longrightarrow> digit_val (digit_char d) = d"
  by (auto simp: is_digit_def digit_char_def digit_val_def of_char_mod_256)

lemma is_digit_neq [simp]:
  "is_digit c \<Longrightarrow> c \<noteq> CHR '':''" "is_digit c \<Longrightarrow> c \<noteq> CHR '';''"
  "is_digit c \<Longrightarrow> c \<noteq> CHR ''-''" "is_digit c \<Longrightarrow> c \<noteq> CHR ''+''"
  "is_digit c \<Longrightarrow> c \<noteq> CHR ''.''" "is_digit c \<Longrightarrow> c \<noteq> CHR ''_''"
  by (auto simp: is_digit_def)

lemma digit_val_bound [simp]: "is_digit c \<Longrightarrow> digit_val c < 10"
  by (auto simp: is_digit_def digit_val_def)

lemma FormatUint_digits: "c \<in> set (FormatUint n) \<Longrightarrow> is_digit c"
proof (induction n rule: FormatUint.induct)
  case (1 n)
  then show ?case
    by (cases "n < 10") (auto simp: FormatUint.simps [of n])
qed

lemma FormatUint_Nil [simp]: "FormatUint n \<noteq> []"
  by (subst FormatUint.simps) simp

lemma parse_digits_snoc:
  "parse_digits m cs = Inr n \<Longrightarrow> is_digit c \<Longrightarrow> n * 10 + digit_val c < 2 ^ 64 \<Longrightarrow>
   parse_digits m (cs @ [c]) = Inr (n * 10 + digit_val c)"
  by (induction cs arbitrary: m) (auto split: if_splits)

lemma parse_digits_FormatUint: "n < 2 ^ 64 \<Longrightarrow> parse_digits 0 (FormatUint n) = Inr n"
proof (induction n rule: FormatUint.induct)
  case (1 n)
  show ?case
  proof (cases "n < 10")
    case True
    then show ?thesis by (simp add: FormatUint.simps [of n])
  next
    case False
    with 1 have "parse_digits 0 (FormatUint (n div 10)) = Inr (n div 10)" by simp
    then have "parse_digits 0 (FormatUint (n div 10) @ [digit_char (n mod 10)]) =
        Inr (n div 10 * 10 + digit_val (digit_char (n mod 10)))"
      using "1.prems" by (intro parse_digits_snoc) auto
    with False show ?thesis by (simp add: FormatUint.simps [of n])
  qed
qed

lemma hd_FormatUint: "is_digit (hd (FormatUint n))"
  by (rule FormatUint_digits [of _ n]) simp

lemma FormatUint_length: "n < 10 ^ k \<Longrightarrow> 0 < k \<Longrightarrow> length (FormatUint n) \<le> k"
proof (induction n arbitrary: k rule: FormatUint.induct)
  case (1 n)
  show ?case
  proof (cases "n < 10")
    case True
    with 1 show ?thesis by (simp add: FormatUint.simps [of n])
  next
    case False
    with "1.prems" obtain j where j: "k = Suc j" "0 < j" by (cases k) (auto, cases "k = 1", auto)
    with False "1.prems" "1.IH" [of j] show ?thesis by (simp add: FormatUint.simps [of n])
  qed
qed

text \<open>Printing and reading an \<open>int64\<close> are inverse.\<close>

lemma ParseInt_FormatInt:
  assumes "min_int64 \<le> n" "n \<le> max_int64"
  shows "ParseInt (FormatInt n) = Inr n"
proof (cases "n < 0")
  case True
  with assms have "parse_digits 0 (FormatUint (nat (- n))) = Inr (nat (- n))"
    by (intro parse_digits_FormatUint) auto
  with True assms show ?thesis
    by (auto simp: ParseInt_def FormatInt_def ParseUint_def Let_def)
next
  case False
  with assms have "parse_digits 0 (FormatUint (nat n)) = Inr (nat n)"
    by (intro parse_digits_FormatUint) auto
  moreover have "hd (FormatUint (nat n)) \<noteq> CHR ''-''" "hd (FormatUint (nat n)) \<noteq> CHR ''+''"
    using hd_FormatUint is_digit_neq by blast+
  ultimately show ?thesis
    using False assms by (auto simp: ParseInt_def FormatInt_def ParseUint_def Let_def)
qed

text \<open>An \<open>int\<close> that is read is always in range: the 64-bit arithmetic starts from there.\<close>

lemma ParseInt_range: "ParseInt s = Inr n \<Longrightarrow> min_int64 \<le> n \<and> n \<le> max_int64"
  by (auto simp: ParseInt_def Let_def split: if_splits sum.splits)

lemma ParseInt_nonneg: "ParseInt s = Inr n \<Longrightarrow> CHR ''-'' \<notin> set s \<Longrightarrow> 0 \<le> n"
  by (cases s) (auto simp: ParseInt_def Let_def split: if_splits sum.splits)

lemma FormatUint_no_sep: "\<not> is_digit c \<Longrightarrow> c \<notin> set (FormatUint n)"
  using FormatUint_digits by blast

lemma not_is_digit [simp]:
  "\<not> is_digit (CHR '':'')" "\<not> is_digit (CHR '';'')" "\<not> is_digit (CHR ''-'')"
  "\<not> is_digit (CHR ''+'')" "\<not> is_digit (CHR ''.'')" "\<not> is_digit (CHR ''_'')"
  by (simp_all add: is_digit_def)

lemma FormatInt_no_sep [simp]:
  "CHR '':'' \<notin> set (FormatInt n)" "CHR '';'' \<notin> set (FormatInt n)"
  by (auto simp: FormatInt_def FormatUint_no_sep)

lemma FormatInt_Nil [simp]: "FormatInt n \<noteq> []"
  by (simp add: FormatInt_def)

text \<open>\<open>FormatUint\<close> of a value beyond \<open>int64\<close> is refused by \<open>ParseInt\<close> with a range error.\<close>

lemma ParseInt_FormatUint_range:
  assumes "2 ^ 63 \<le> n" "n < 2 ^ 64"
  shows "ParseInt (FormatUint n) = Inl ErrRange"
proof -
  have "hd (FormatUint n) \<noteq> CHR ''-''" "hd (FormatUint n) \<noteq> CHR ''+''"
    using hd_FormatUint is_digit_neq by blast+
  then show ?thesis
    using assms parse_digits_FormatUint [of n] by (auto simp: ParseInt_def ParseUint_def Let_def)
qed

lemma FormatUint_inj: "m < 2 ^ 64 \<Longrightarrow> n < 2 ^ 64 \<Longrightarrow> FormatUint m = FormatUint n \<Longrightarrow> m = n"
  by (metis parse_digits_FormatUint sum.inject(2))

lemma FormatInt_inj:
  "FormatInt (sint (v :: int64)) = FormatInt (sint w) \<Longrightarrow> v = w"
proof -
  assume eq: "FormatInt (sint v) = FormatInt (sint w)"
  have "ParseInt (FormatInt (sint v)) = Inr (sint v)" "ParseInt (FormatInt (sint w)) = Inr (sint w)"
    by (intro ParseInt_FormatInt sint_bounds_64)+
  with eq have "sint v = sint w" by (metis sum.inject(2))
  then show "v = w" by (rule signed_word_eqI)
qed

end
