(* ===== verification/Go_Float.thy ===== *)
theory Go_Float
  imports Go_Strconv
begin

text \<open>
  Go's \<open>float64\<close> (IEEE 754 binary64) as far as the sources use it: the special values,
  \<open>strconv.FormatFloat(v, 'f', -1, 64)\<close>, \<open>strconv.ParseFloat(s, 64)\<close> and the conversions
  between \<open>float64\<close> and \<open>int64\<close>. A float is its three bit fields; a finite float is a
  whole number of units of 2 to the power -1074, which keeps all arithmetic in \<open>nat\<close>.
\<close>

section \<open>Bit fields and special values\<close>

datatype float64 = F64 (fsign: bool) (fexp: nat) (ffrac: nat)

definition wf_float :: "float64 \<Rightarrow> bool" where
  "wf_float f \<longleftrightarrow> fexp f < 2048 \<and> ffrac f < 2 ^ 52"

definition IsNaN :: "float64 \<Rightarrow> bool" where
  "IsNaN f \<longleftrightarrow> fexp f = 2047 \<and> ffrac f \<noteq> 0"

definition IsInf :: "float64 \<Rightarrow> int \<Rightarrow> bool" where
  "IsInf f sign \<longleftrightarrow> fexp f = 2047 \<and> ffrac f = 0 \<and> (0 \<le> sign \<and> \<not> fsign f \<or> sign \<le> 0 \<and> fsign f)"

definition Inf :: "int \<Rightarrow> float64" where
  "Inf sign = F64 (sign < 0) 2047 0"

text \<open>\<open>math.NaN()\<close> is the bit pattern 0x7FF8000000000001.\<close>

definition NaN :: float64 where
  "NaN = F64 False 2047 (2 ^ 51 + 1)"

definition is_finite :: "float64 \<Rightarrow> bool" where
  "is_finite f \<longleftrightarrow> fexp f < 2047"

text \<open>The smallest positive float is \<open>2 ^ -unit_exp\<close>; it is the unit of all magnitudes.\<close>

definition unit_exp :: nat where
  "unit_exp = 1074"

text \<open>The magnitude of a finite float, in units of \<open>2 ^ -1074\<close>.\<close>

definition funits :: "float64 \<Rightarrow> nat" where
  "funits f = (if fexp f = 0 then ffrac f else (2 ^ 52 + ffrac f) * 2 ^ (fexp f - 1))"

section \<open>Rounding to the nearest float\<close>

text \<open>\<open>bitlen n\<close> is the position of the highest one bit of \<open>n > 0\<close>; 32 bits are skipped at a time.\<close>

fun bitlen :: "nat \<Rightarrow> nat" where
  "bitlen n = (if n < 2 then 0 else if n < 2 ^ 32 then 1 + bitlen (n div 2) else 32 + bitlen (n div 2 ^ 32))"

declare bitlen.simps [simp del]

definition round_div :: "nat \<Rightarrow> nat \<Rightarrow> nat" where
  "round_div n d =
     (let q = n div d; r = n mod d
      in if 2 * r < d \<or> 2 * r = d \<and> even q then q else Suc q)"

text \<open>
  The float nearest to \<open>n / d\<close>, ties to even; \<open>None\<close> when it overflows. \<open>j\<close> is the
  binary exponent above the smallest one at which the significand fits in 53 bits.
\<close>

definition round_f64 :: "bool \<Rightarrow> nat \<Rightarrow> nat \<Rightarrow> float64 option" where
  "round_f64 s n d =
     (let u = n * 2 ^ unit_exp;
          j = bitlen (u div d) - 52;
          q = round_div u (d * 2 ^ j);
          e = (if q < 2 ^ 52 then 0 else if q < 2 ^ 53 then j + 1 else j + 2);
          m = (if q < 2 ^ 52 then q else if q < 2 ^ 53 then q - 2 ^ 52 else 0)
      in if 2047 \<le> e then None else Some (F64 s e m))"

section \<open>Reading: strconv.ParseFloat\<close>

definition to_lower_byte :: "char \<Rightarrow> char" where
  "to_lower_byte c =
     (let n = of_char c :: nat in if 65 \<le> n \<and> n \<le> 90 then char_of (n + 32) else c)"

definition is_hex_letter :: "char \<Rightarrow> bool" where
  "is_hex_letter c \<longleftrightarrow> (let n = of_char (to_lower_byte c) :: nat in 97 \<le> n \<and> n \<le> 102)"

text \<open>
  The digits of the mantissa: whether a point and whether a digit has been seen, the
  number read so far and how many of its digits stand after the point; the unread rest.
\<close>

fun scan_mant :: "bool \<Rightarrow> bool \<Rightarrow> bool \<Rightarrow> nat \<Rightarrow> nat \<Rightarrow> string \<Rightarrow> bool \<times> nat \<times> nat \<times> string" where
  "scan_mant hex sawdot sawdigits m k [] = (sawdigits, m, k, [])"
| "scan_mant hex sawdot sawdigits m k (c # cs) =
     (if c = CHR ''_'' then scan_mant hex sawdot sawdigits m k cs
      else if c = CHR ''.'' then
        (if sawdot then (sawdigits, m, k, c # cs) else scan_mant hex True sawdigits m k cs)
      else if is_digit c then
        scan_mant hex sawdot True (m * (if hex then 16 else 10) + digit_val c) (if sawdot then Suc k else k) cs
      else if hex \<and> is_hex_letter c then
        scan_mant hex sawdot True (m * 16 + (of_char (to_lower_byte c) - 87)) (if sawdot then Suc k else k) cs
      else (sawdigits, m, k, c # cs))"

fun scan_exp :: "nat \<Rightarrow> string \<Rightarrow> nat \<times> string" where
  "scan_exp e [] = (e, [])"
| "scan_exp e (c # cs) =
     (if c = CHR ''_'' then scan_exp e cs
      else if is_digit c then scan_exp (if e < 10000 then e * 10 + digit_val c else e) cs
      else (e, c # cs))"

text \<open>\<open>underscoreOK\<close>: an underscore stands between digits or after a base prefix.\<close>

fun underscores_ok :: "bool \<Rightarrow> char \<Rightarrow> string \<Rightarrow> bool" where
  "underscores_ok hex saw [] = (saw \<noteq> CHR ''_'')"
| "underscores_ok hex saw (c # cs) =
     (if is_digit c \<or> hex \<and> is_hex_letter c then underscores_ok hex (CHR ''0'') cs
      else if c = CHR ''_'' then saw = CHR ''0'' \<and> underscores_ok hex (CHR ''_'') cs
      else saw \<noteq> CHR ''_'' \<and> underscores_ok hex (CHR ''!'') cs)"

text \<open>The exponent part after the mantissa: \<open>None\<close> is a syntax error.\<close>

definition read_exponent :: "bool \<Rightarrow> string \<Rightarrow> int option" where
  "read_exponent hex rest =
     (case rest of
        [] \<Rightarrow> if hex then None else Some 0
      | c # cs \<Rightarrow>
          if to_lower_byte c \<noteq> (if hex then CHR ''p'' else CHR ''e'') then None
          else
            let neg = (cs \<noteq> [] \<and> hd cs = CHR ''-'');
                ds = (if cs \<noteq> [] \<and> (hd cs = CHR ''+'' \<or> hd cs = CHR ''-'') then tl cs else cs)
            in if ds = [] \<or> \<not> is_digit (hd ds) then None
               else case scan_exp 0 ds of (e, left) \<Rightarrow>
                 if left \<noteq> [] then None else Some (if neg then - int e else int e))"

definition mk_float :: "bool \<Rightarrow> bool \<Rightarrow> nat \<Rightarrow> nat \<Rightarrow> int \<Rightarrow> num_error + float64" where
  "mk_float hex neg m k e =
     (case (if hex
            then round_f64 neg (m * 2 ^ nat e) (16 ^ k * 2 ^ nat (- e))
            else round_f64 neg (m * 10 ^ nat e) (10 ^ k * 10 ^ nat (- e))) of
        Some f \<Rightarrow> Inr f
      | None \<Rightarrow> Inl ErrRange)"

definition ParseFloat :: "string \<Rightarrow> num_error + float64" where
  "ParseFloat s =
     (let neg = (s \<noteq> [] \<and> hd s = CHR ''-'');
          signed = (s \<noteq> [] \<and> (hd s = CHR ''+'' \<or> hd s = CHR ''-''));
          body = (if signed then tl s else s);
          low = map to_lower_byte body
      in if low = ''inf'' \<or> low = ''infinity'' then Inr (Inf (if neg then -1 else 1))
         else if low = ''nan'' \<and> \<not> signed then Inr NaN
         else
           let hex = (2 < length body \<and> take 2 low = ''0x'') in
           case scan_mant hex False False 0 0 (if hex then drop 2 body else body) of
             (sawdigits, m, k, rest) \<Rightarrow>
               if \<not> sawdigits then Inl ErrSyntax
               else case read_exponent hex rest of
                 None \<Rightarrow> Inl ErrSyntax
               | Some e \<Rightarrow>
                   if CHR ''_'' \<in> set s
                      \<and> \<not> (if hex then underscores_ok True (CHR ''0'') (drop 2 body)
                           else underscores_ok False (CHR ''^'') body)
                   then Inl ErrSyntax
                   else mk_float hex neg m k e)"

section \<open>Printing: strconv.FormatFloat(v, 'f', -1, 64)\<close>

text \<open>The decimal \<open>c * 10 ^ t\<close> in positional notation.\<close>

definition fmt_decimal :: "nat \<Rightarrow> int \<Rightarrow> string" where
  "fmt_decimal c t =
     (let ds = FormatUint c; k = nat (- t)
      in if 0 \<le> t then ds @ replicate (nat t) (CHR ''0'')
         else if k < length ds then take (length ds - k) ds @ CHR ''.'' # drop (length ds - k) ds
         else CHR ''0'' # CHR ''.'' # replicate (k - length ds) (CHR ''0'') @ ds)"

definition rounds_to :: "float64 \<Rightarrow> nat \<times> int \<Rightarrow> bool" where
  "rounds_to f ct =
     (case ct of (c, t) \<Rightarrow>
        round_f64 (fsign f) (c * 10 ^ nat t) (10 ^ nat (- t)) = Some f)"

text \<open>
  The two decimals with \<open>n\<close> significant digits around the value, the nearer one first;
  \<open>p\<close> is the value's decimal exponent; rounding up to a power of ten leaves one digit. The shortest decimal that reads back as the
  float is the first hit; 17 digits always suffice, and the exact expansion, which every
  float has, closes the definition.
\<close>

definition dec_exp :: "nat \<Rightarrow> int" where
  "dec_exp u = int (length (FormatUint (u * 10 ^ 345 div 2 ^ unit_exp))) - 346"

definition decimal :: "nat \<Rightarrow> nat \<Rightarrow> int \<Rightarrow> nat \<times> int" where
  "decimal n c t = (if c = 10 ^ n then (1, t + int n) else (c, t))"

definition candidates :: "nat \<Rightarrow> int \<Rightarrow> nat \<Rightarrow> (nat \<times> int) list" where
  "candidates u p n =
     (let t = p - int n + 1;
          num = u * 10 ^ nat (- t);
          den = 2 ^ unit_exp * 10 ^ nat t;
          lo = num div den;
          r = num mod den
      in if r = 0 then [(lo, t)]
         else if 2 * r < den \<or> 2 * r = den \<and> even lo then [(lo, t), decimal n (Suc lo) t]
         else [decimal n (Suc lo) t, (lo, t)])"

definition shortest :: "float64 \<Rightarrow> nat \<times> int" where
  "shortest f =
     (let u = funits f; p = dec_exp u
      in case List.find (rounds_to f) (concat (map (candidates u p) [1..<18])) of
           Some ct \<Rightarrow> ct
         | None \<Rightarrow> (u * 5 ^ unit_exp, - int unit_exp))"

definition FormatFloat :: "float64 \<Rightarrow> string" where
  "FormatFloat f =
     (if IsNaN f then ''NaN''
      else if IsInf f 1 then ''+Inf'' else if IsInf f (- 1) then ''-Inf''
      else (if fsign f then ''-'' else []) @
           (if funits f = 0 then ''0'' else case shortest f of (c, t) \<Rightarrow> fmt_decimal c t))"

section \<open>Conversions\<close>

text \<open>
  \<open>int64(f)\<close>: towards zero; a value outside \<open>int64\<close> gives the amd64 result, the
  smallest \<open>int64\<close>.
\<close>

definition int64_of_float :: "float64 \<Rightarrow> int" where
  "int64_of_float f =
     (let m = int (funits f div 2 ^ unit_exp); n = (if fsign f then - m else m)
      in if is_finite f \<and> min_int64 \<le> n \<and> n \<le> max_int64 then n else min_int64)"

text \<open>\<open>float64(n)\<close>: the nearest float; an \<open>int64\<close> never overflows.\<close>

definition float_of_int64 :: "int \<Rightarrow> float64" where
  "float_of_int64 n =
     (case round_f64 (n < 0) (nat \<bar>n\<bar>) 1 of Some f \<Rightarrow> f | None \<Rightarrow> NaN)"

section \<open>Rounding is exact on representable values\<close>

lemma bitlen_bounds: "0 < n \<Longrightarrow> 2 ^ bitlen n \<le> n \<and> n < 2 ^ Suc (bitlen n)"
proof (induction n rule: bitlen.induct)
  case (1 n)
  consider "n = 1" | "2 \<le> n" "n < 2 ^ 32" | "2 ^ 32 \<le> n"
    using "1.prems" by linarith
  then show ?case
  proof cases
    case 1
    then show ?thesis by (simp add: bitlen.simps)
  next
    case 2
    then have "2 ^ bitlen (n div 2) \<le> n div 2 \<and> n div 2 < 2 ^ Suc (bitlen (n div 2))"
      using "1.IH"(1) by simp
    with 2 show ?thesis by (auto simp: bitlen.simps [of n])
  next
    case 3
    then have *: "2 ^ bitlen (n div 2 ^ 32) \<le> n div 2 ^ 32"
        "n div 2 ^ 32 < 2 ^ Suc (bitlen (n div 2 ^ 32))"
      using "1.IH"(2) by simp_all
    have "2 ^ bitlen (n div 2 ^ 32) * 2 ^ 32 \<le> n"
      using *(1) by (meson div_times_less_eq_dividend dual_order.trans mult_le_mono1)
    moreover have "n < 2 ^ Suc (bitlen (n div 2 ^ 32)) * 2 ^ 32"
      using *(2) by (subst div_less_iff_less_mult [symmetric]) auto
    moreover have "bitlen n = 32 + bitlen (n div 2 ^ 32)"
      using 3 by (simp add: bitlen.simps [of n])
    ultimately show ?thesis by (simp add: power_add mult.commute)
  qed
qed

lemma bitlen_eqI: "2 ^ k \<le> n \<Longrightarrow> n < 2 ^ Suc k \<Longrightarrow> bitlen n = k"
proof -
  assume a: "2 ^ k \<le> n" "n < 2 ^ Suc k"
  then have "0 < n" using less_le_trans [of 0 "2 ^ k" n] by simp
  from bitlen_bounds [OF this] a have "2 ^ k < (2::nat) ^ Suc (bitlen n)" "2 ^ bitlen n < (2::nat) ^ Suc k"
    by linarith+
  then show "bitlen n = k"
    by (metis le_antisym less_Suc_eq_le nat_power_less_imp_less zero_less_numeral)
qed

lemma bitlen_less: "n < 2 ^ k \<Longrightarrow> 0 < k \<Longrightarrow> bitlen n < k"
proof (cases "n = 0")
  case False
  assume "n < 2 ^ k"
  with bitlen_bounds [of n] False have "2 ^ bitlen n < (2::nat) ^ k" by linarith
  then show ?thesis by simp
qed (simp add: bitlen.simps)

lemma round_div_exact: "0 < d \<Longrightarrow> round_div (d * q) d = q"
  by (simp add: round_div_def Let_def)

text \<open>Rounding a fraction whose value is a finite float gives that float back.\<close>

lemma round_f64_exact:
  assumes "wf_float f" "is_finite f" "0 < d" and eq: "n * 2 ^ unit_exp = d * funits f"
  shows "round_f64 (fsign f) n d = Some f"
proof (cases "fexp f = 0")
  case True
  then have u: "funits f = ffrac f" "ffrac f < 2 ^ 52"
    using assms by (auto simp: funits_def wf_float_def)
  then have "n * 2 ^ unit_exp div d = ffrac f" "bitlen (ffrac f) - 52 = 0"
    using eq \<open>0 < d\<close> bitlen_less [of "ffrac f" 52] by simp_all
  moreover have "round_div (d * ffrac f) d = ffrac f"
    using \<open>0 < d\<close> by (rule round_div_exact)
  ultimately show ?thesis
    using True u eq \<open>0 < d\<close> by (cases f) (simp add: round_f64_def Let_def)
next
  case False
  define m j where "m = 2 ^ 52 + ffrac f" and "j = fexp f - 1"
  have m: "2 ^ 52 \<le> m" "m < 2 ^ 53" using assms by (auto simp: m_def wf_float_def)
  have u: "funits f = m * 2 ^ j" using False by (simp add: funits_def m_def j_def)
  have "bitlen (m * 2 ^ j) = 52 + j"
    using m by (intro bitlen_eqI) (auto simp: power_add)
  then have b: "bitlen (n * 2 ^ unit_exp div d) - 52 = j"
    using eq u \<open>0 < d\<close> by simp
  have "round_div (d * 2 ^ j * m) (d * 2 ^ j) = m"
    using \<open>0 < d\<close> by (intro round_div_exact) simp
  then have q: "round_div (n * 2 ^ unit_exp) (d * 2 ^ j) = m"
    using eq u by (simp add: mult.commute mult.left_commute)
  have "j + 1 = fexp f" "j + 1 < 2047"
    using False assms(2) by (auto simp: j_def is_finite_def)
  then show ?thesis
    using m by (cases f) (simp add: round_f64_def Let_def b q, simp add: m_def)
qed

lemma shortest_rounds:
  assumes "wf_float f" "is_finite f"
  shows "rounds_to f (shortest f)"
proof (cases "List.find (rounds_to f) (concat (map (candidates (funits f) (dec_exp (funits f))) [1..<18]))")
  case None
  have "round_f64 (fsign f) (funits f * 5 ^ unit_exp) (10 ^ unit_exp) = Some f"
  proof (rule round_f64_exact [OF assms])
    have "(10::nat) ^ unit_exp = 5 ^ unit_exp * 2 ^ unit_exp"
      by (simp flip: power_mult_distrib)
    then show "funits f * 5 ^ unit_exp * 2 ^ unit_exp = 10 ^ unit_exp * funits f"
      by simp
  qed simp
  with None show ?thesis
    by (simp add: shortest_def rounds_to_def Let_def)
next
  case (Some ct)
  then have "rounds_to f ct" by (auto simp: find_Some_iff)
  with Some show ?thesis by (simp add: shortest_def Let_def)
qed

section \<open>Reading back what was printed\<close>

text \<open>The number a digit string denotes, starting from a prefix read before.\<close>

fun dec_val :: "nat \<Rightarrow> string \<Rightarrow> nat" where
  "dec_val m [] = m"
| "dec_val m (c # cs) = dec_val (m * 10 + digit_val c) cs"

lemma dec_val_append [simp]: "dec_val m (a @ b) = dec_val (dec_val m a) b"
  by (induction a arbitrary: m) auto

lemma dec_val_zeros [simp]: "dec_val m (replicate n (CHR ''0'')) = m * 10 ^ n"
  by (induction n arbitrary: m) (auto simp: digit_val_def)

lemma dec_val_FormatUint [simp]: "dec_val 0 (FormatUint n) = n"
proof (induction n rule: FormatUint.induct)
  case (1 n)
  then show ?case
    by (cases "n < 10") (auto simp: FormatUint.simps [of n])
qed

definition all_digits :: "string \<Rightarrow> bool" where
  "all_digits s \<longleftrightarrow> (\<forall>c \<in> set s. is_digit c)"

lemma all_digits_simps [simp]:
  "all_digits []" "all_digits (c # s) \<longleftrightarrow> is_digit c \<and> all_digits s"
  "all_digits (a @ b) \<longleftrightarrow> all_digits a \<and> all_digits b"
  "all_digits (replicate n (CHR ''0''))" "all_digits (FormatUint n)"
  by (auto simp: all_digits_def is_digit_def [of "CHR ''0''"] dest: FormatUint_digits)

lemma all_digits_take_drop: "all_digits s \<Longrightarrow> all_digits (take k s) \<and> all_digits (drop k s)"
  by (meson all_digits_def in_set_dropD in_set_takeD)

lemma scan_mant_digits:
  "all_digits ds \<Longrightarrow>
   scan_mant False dot sd m k (ds @ rest) =
     scan_mant False dot (sd \<or> ds \<noteq> []) (dec_val m ds) (if dot then k + length ds else k) rest"
  by (induction ds arbitrary: sd m k) auto

lemma scan_mant_int:
  "all_digits ds \<Longrightarrow> ds \<noteq> [] \<Longrightarrow> scan_mant False False False 0 0 ds = (True, dec_val 0 ds, 0, [])"
  using scan_mant_digits [of ds False False 0 0 "[]"] by simp

lemma scan_mant_point:
  assumes "all_digits a" "a \<noteq> []" "all_digits b"
  shows "scan_mant False False False 0 0 (a @ CHR ''.'' # b) = (True, dec_val (dec_val 0 a) b, length b, [])"
  using assms scan_mant_digits [of a False False 0 0 "CHR ''.'' # b"]
    scan_mant_digits [of b True True "dec_val 0 a" 0 "[]"] by simp

lemma dec_val_zeros_left: "dec_val 0 (replicate n (CHR ''0'') @ ds) = dec_val 0 ds"
  by simp

text \<open>The shape of the output: digits, or digits with one point inside.\<close>

definition plain_decimal :: "string \<Rightarrow> nat \<Rightarrow> nat \<Rightarrow> bool" where
  "plain_decimal s m k \<longleftrightarrow>
     (\<exists>a b. all_digits a \<and> a \<noteq> [] \<and> all_digits b \<and> m = dec_val (dec_val 0 a) b \<and> k = length b \<and>
        (s = a \<and> b = [] \<or> s = a @ CHR ''.'' # b))"

lemma fmt_decimal_plain:
  "plain_decimal (fmt_decimal c t) (if 0 \<le> t then c * 10 ^ nat t else c) (nat (- t))"
proof (cases "0 \<le> t")
  case True
  then show ?thesis
    unfolding plain_decimal_def fmt_decimal_def Let_def
    by (intro exI [of _ "FormatUint c @ replicate (nat t) (CHR ''0'')"] exI [of _ "[]"]) simp
next
  case False
  define ds k where "ds = FormatUint c" and "k = nat (- t)"
  have k: "0 < k" using False by (simp add: k_def)
  have ds: "all_digits ds" "dec_val 0 ds = c" by (simp_all add: ds_def)
  show ?thesis
  proof (cases "k < length ds")
    case less: True
    have "dec_val (dec_val 0 (take (length ds - k) ds)) (drop (length ds - k) ds) = c"
      by (simp flip: dec_val_append add: ds)
    with less False k ds(1) show ?thesis
      unfolding plain_decimal_def fmt_decimal_def Let_def ds_def [symmetric] k_def [symmetric]
      by (intro exI [of _ "take (length ds - k) ds"] exI [of _ "drop (length ds - k) ds"])
        (auto simp: all_digits_take_drop)
  next
    case ge: False
    with False k ds show ?thesis
      unfolding plain_decimal_def fmt_decimal_def Let_def ds_def [symmetric] k_def [symmetric]
      by (intro exI [of _ "''0''"] exI [of _ "replicate (k - length ds) (CHR ''0'') @ ds"])
        (auto simp: digit_val_def is_digit_def)
  qed
qed

lemma plain_decimal_head:
  assumes "plain_decimal s m k"
  shows "s \<noteq> []" "is_digit (hd s)" "CHR ''_'' \<notin> set s" "CHR '';'' \<notin> set s"
    "2 < length s \<Longrightarrow> is_digit (s ! 1) \<or> s ! 1 = CHR ''.''"
proof -
  from assms obtain a b where ab: "all_digits a" "a \<noteq> []" "all_digits b"
    "s = a \<and> b = [] \<or> s = a @ CHR ''.'' # b"
    by (auto simp: plain_decimal_def)
  have mem: "is_digit c \<or> c = CHR ''.''" if "c \<in> set s" for c
    using that ab by (auto simp: all_digits_def)
  show "s \<noteq> []" using ab by auto
  show "is_digit (hd s)" using ab by (auto simp: all_digits_def)
  show "CHR ''_'' \<notin> set s" "CHR '';'' \<notin> set s" using mem not_is_digit by blast+
  show "is_digit (s ! 1) \<or> s ! 1 = CHR ''.''" if "2 < length s"
    using that by (intro mem) simp
qed

lemma to_lower_digit [simp]: "is_digit c \<Longrightarrow> to_lower_byte c = c" "to_lower_byte (CHR ''.'') = CHR ''.''"
  by (auto simp: is_digit_def to_lower_byte_def Let_def)

lemma scan_plain_decimal:
  "plain_decimal s m k \<Longrightarrow> scan_mant False False False 0 0 s = (True, m, k, [])"
  by (auto simp: plain_decimal_def scan_mant_int scan_mant_point)

lemma plain_decimal_zero: "plain_decimal ''0'' 0 0"
  unfolding plain_decimal_def
  by (intro exI [of _ "''0''"] exI [of _ "[]"]) (simp add: digit_val_def is_digit_def)

lemma finite_not_special:
  "is_finite f \<Longrightarrow> \<not> IsNaN f" "is_finite f \<Longrightarrow> \<not> IsInf f sg"
  by (auto simp: IsNaN_def IsInf_def is_finite_def)

lemma low_first_digit:
  assumes "s \<noteq> []" "is_digit (hd s)"
  shows "map to_lower_byte s \<noteq> ''inf''" "map to_lower_byte s \<noteq> ''infinity''" "map to_lower_byte s \<noteq> ''nan''"
proof -
  have "hd (map to_lower_byte s) = hd s" using assms by (simp add: hd_map)
  moreover have "\<not> is_digit (CHR ''i'')" "\<not> is_digit (CHR ''n'')" by (simp_all add: is_digit_def)
  ultimately show "map to_lower_byte s \<noteq> ''inf''" "map to_lower_byte s \<noteq> ''infinity''"
    "map to_lower_byte s \<noteq> ''nan''"
    using assms(2) by (metis list.sel(1))+
qed

lemma plain_decimal_not_hex:
  assumes "plain_decimal s m k" "2 < length s"
  shows "take 2 (map to_lower_byte s) \<noteq> ''0x''"
proof
  assume eq: "take 2 (map to_lower_byte s) = ''0x''"
  have "to_lower_byte (s ! 1) = take 2 (map to_lower_byte s) ! 1"
    using assms(2) by simp
  then have "to_lower_byte (s ! 1) = CHR ''x''"
    by (simp add: eq)
  moreover from plain_decimal_head(5) [OF assms] have "to_lower_byte (s ! 1) = s ! 1"
    by auto
  ultimately have "s ! 1 = CHR ''x''" by simp
  with plain_decimal_head(5) [OF assms] show False by (simp add: is_digit_def)
qed

lemma ParseFloat_plain:
  assumes "plain_decimal s m k"
  shows "ParseFloat ((if neg then ''-'' else []) @ s) = mk_float False neg m k 0"
proof -
  note h = plain_decimal_head [OF assms]
  have hd: "hd s \<noteq> CHR ''-''" "hd s \<noteq> CHR ''+''" using h(2) is_digit_neq by blast+
  have hex: "\<not> (2 < length s \<and> take 2 (map to_lower_byte s) = ''0x'')"
    using plain_decimal_not_hex [OF assms] by blast
  have us: "CHR ''_'' \<notin> set ((if neg then ''-'' else []) @ s)" using h(3) by auto
  have sc: "scan_mant False False False 0 0 s = (True, m, k, [])"
    using assms by (rule scan_plain_decimal)
  have body: "(let u = (if neg then ''-'' else []) @ s
      in if u \<noteq> [] \<and> (hd u = CHR ''+'' \<or> hd u = CHR ''-'') then tl u else u) = s"
    using h(1) hd by (simp add: Let_def)
  have sign: "(let u = (if neg then ''-'' else []) @ s in u \<noteq> [] \<and> hd u = CHR ''-'') = neg"
    using h(1) hd by (simp add: Let_def)
  show ?thesis
    unfolding ParseFloat_def Let_def body [unfolded Let_def] sign [unfolded Let_def]
    using low_first_digit [OF h(1,2)] hex us sc
    by (simp only: if_False if_True simp_thms prod.case) (simp add: read_exponent_def)
qed

text \<open>
  \<open>ParseFloat\<close> reads back every finite float that \<open>FormatFloat\<close> printed, bit for bit,
  the sign of zero included.
\<close>

lemma ParseFloat_FormatFloat:
  assumes wf: "wf_float f" and fin: "is_finite f"
  shows "ParseFloat (FormatFloat f) = Inr f"
proof -
  note sp = finite_not_special [OF fin]
  show ?thesis
  proof (cases "funits f = 0")
    case True
    have "round_f64 (fsign f) 0 1 = Some f"
      using True by (intro round_f64_exact [OF wf fin]) simp_all
    then show ?thesis
      using sp True ParseFloat_plain [OF plain_decimal_zero, of "fsign f"]
      by (simp add: FormatFloat_def mk_float_def)
  next
    case False
    obtain c t where ct: "shortest f = (c, t)" by fastforce
    have "rounds_to f (c, t)" using shortest_rounds [OF wf fin] by (simp add: ct)
    then have "mk_float False (fsign f) (if 0 \<le> t then c * 10 ^ nat t else c) (nat (- t)) 0 = Inr f"
      by (auto simp: rounds_to_def mk_float_def)
    then show ?thesis
      using sp False ct ParseFloat_plain [OF fmt_decimal_plain, of "fsign f" c t]
      by (simp add: FormatFloat_def)
  qed
qed

lemma FormatFloat_chars:
  assumes "is_finite f"
  obtains s m k where "FormatFloat f = (if fsign f then ''-'' else []) @ s" "plain_decimal s m k"
proof -
  note sp = finite_not_special [OF assms]
  show thesis
  proof (cases "funits f = 0")
    case True
    with sp plain_decimal_zero show thesis by (intro that [of "''0''"]) (auto simp: FormatFloat_def)
  next
    case False
    obtain c t where "shortest f = (c, t)" by fastforce
    with sp False show thesis
      by (intro that [OF _ fmt_decimal_plain, of c t]) (auto simp: FormatFloat_def)
  qed
qed

end
