(* ===== verification/Php_Types.thy ===== *)
theory Php_Types
  imports Go_Float
begin

text \<open>
  The data of package \<open>phpserialize\<close> (\<open>types.go\<close>): what an \<open>any\<close> can hold, the structs
  \<open>Object\<close>, \<open>Array\<close> and \<open>Enum\<close>, and the methods of \<open>Array\<close>. \<open>*Object\<close> and \<open>*Array\<close>
  are addresses in an explicit heap, because the decoder hands out pointers to containers
  it is still filling (PHP back-references), so decoded values can share and even contain
  themselves.
\<close>

section \<open>Go values of type any\<close>

record enumT =
  EnumClassName :: string
  CaseName :: string

type_synonym addr = nat

text \<open>
  One constructor per dynamic type the code distinguishes. A pointer may be nil (\<open>None\<close>).
  \<open>VFloat32\<close> carries its value widened to \<open>float64\<close>, which is exact. \<open>VRefSlice\<close> and
  \<open>VRefMap\<close> are the other slice, array and map types the encoder reaches by reflection
  (the map with its keys printed by \<open>%v\<close>, in iteration order); \<open>VOther\<close> is a value
  of any remaining type, with the type's name.
\<close>

datatype any =
    VNil
  | VBool bool
  | VInt int64 | VInt8 "8 word" | VInt16 "16 word" | VInt32 "32 word" | VInt64 int64
  | VUint uint64 | VUint8 "8 word" | VUint16 "16 word" | VUint32 "32 word" | VUint64 uint64
  | VFloat32 float64 | VFloat64 float64
  | VString string
  | VNumber string
  | VSlice "any list" | VStrings "string list" | VInts "int64 list"
  | VMap "(string \<times> any) list"
  | VObject "addr option" | VArray "addr option" | VEnum "enumT option"
  | VRefSlice "any list" | VRefMap "(string \<times> any) list"
  | VOther string

record objectT =
  ObjClassName :: string
  Properties :: "any gomap"

record arrayT =
  Keys :: "any list"
  Values :: "any list"

datatype cell = CObj objectT | CArr arrayT

type_synonym heap = "cell list"

definition get_obj :: "heap \<Rightarrow> addr \<Rightarrow> objectT option" where
  "get_obj h a = (if a < length h then (case h ! a of CObj ob \<Rightarrow> Some ob | CArr _ \<Rightarrow> None) else None)"

definition get_arr :: "heap \<Rightarrow> addr \<Rightarrow> arrayT option" where
  "get_arr h a = (if a < length h then (case h ! a of CArr ar \<Rightarrow> Some ar | CObj _ \<Rightarrow> None) else None)"

definition alloc :: "cell \<Rightarrow> heap \<Rightarrow> addr \<times> heap" where
  "alloc c h = (length h, h @ [c])"

section \<open>Methods of Array\<close>

definition Len :: "arrayT \<Rightarrow> nat" where
  "Len a = length (Keys a)"

fun is_seq_from :: "nat \<Rightarrow> any list \<Rightarrow> bool" where
  "is_seq_from i [] = True"
| "is_seq_from i (k # ks) =
     (case k of VInt64 idx \<Rightarrow> idx = of_nat i \<and> is_seq_from (Suc i) ks | _ \<Rightarrow> False)"

definition IsSequential :: "arrayT \<Rightarrow> bool" where
  "IsSequential a = is_seq_from 0 (Keys a)"

text \<open>A nil slice is \<open>None\<close>.\<close>

definition ToSlice :: "arrayT \<Rightarrow> any list option" where
  "ToSlice a = (if \<not> IsSequential a then None else Some (Values a))"

fun to_map_loop :: "nat \<Rightarrow> any list \<Rightarrow> any list \<Rightarrow> any gomap \<Rightarrow> ('e, any gomap) outcome" where
  "to_map_loop i [] vs m = Ok m"
| "to_map_loop i (k # ks) vs m =
     (case k of
        VString key \<Rightarrow>
          if i < length vs then to_map_loop (Suc i) ks vs (AList.update key (vs ! i) m) else Panic IndexRange
      | VInt64 key \<Rightarrow>
          if i < length vs
          then to_map_loop (Suc i) ks vs (AList.update (FormatInt (sint key)) (vs ! i) m) else Panic IndexRange
      | _ \<Rightarrow> to_map_loop (Suc i) ks vs m)"

definition ToMap :: "arrayT \<Rightarrow> ('e, any gomap) outcome" where
  "ToMap a = to_map_loop 0 (Keys a) (Values a) []"

section \<open>Property names\<close>

datatype Visibility = Public | Protected | Private

record PropertyInfo =
  PropName :: string
  PropVisibility :: Visibility
  PropClassName :: string

section \<open>Lemmas\<close>

lemma get_obj_append [simp]: "a < length h \<Longrightarrow> get_obj (h @ h') a = get_obj h a"
  by (simp add: get_obj_def nth_append)

lemma get_arr_append [simp]: "a < length h \<Longrightarrow> get_arr (h @ h') a = get_arr h a"
  by (simp add: get_arr_def nth_append)

lemma is_seq_from_iff:
  "is_seq_from i ks \<longleftrightarrow> ks = map (\<lambda>j. VInt64 (of_nat j)) [i..<i + length ks]"
proof (induction ks arbitrary: i)
  case (Cons k ks)
  have "[i..<i + length (k # ks)] = i # [Suc i..<Suc i + length ks]"
    by (simp add: upt_rec)
  with Cons show ?case by (auto split: any.splits)
qed simp

lemma IsSequential_iff:
  "IsSequential a \<longleftrightarrow> Keys a = map (\<lambda>j. VInt64 (of_nat j)) [0..<Len a]"
  using is_seq_from_iff [of 0 "Keys a"] by (simp add: IsSequential_def Len_def)

text \<open>The map key under which \<open>ToMap\<close> stores an entry.\<close>

fun map_key :: "any \<Rightarrow> string option" where
  "map_key (VString s) = Some s"
| "map_key (VInt64 n) = Some (FormatInt (sint n))"
| "map_key _ = None"

definition key_entries :: "any list \<Rightarrow> any list \<Rightarrow> any gomap" where
  "key_entries ks vs = List.map_filter (\<lambda>(k, v). map_option (\<lambda>s. (s, v)) (map_key k)) (zip ks vs)"

lemma to_map_loop_ok:
  "length ks + i \<le> length vs \<Longrightarrow>
   to_map_loop i ks vs m =
     Ok (fold (\<lambda>(k, v). AList.update k v) (key_entries ks (drop i vs)) m)"
proof (induction ks arbitrary: i m)
  case (Cons k ks)
  then have d: "drop i vs = vs ! i # drop (Suc i) vs"
    by (simp add: Cons_nth_drop_Suc)
  show ?case
    using Cons by (cases k) (auto simp: d key_entries_def map_filter_simps)
qed (simp add: key_entries_def map_filter_simps)

lemma ToMap_ok:
  assumes "length (Keys a) \<le> length (Values a)"
  shows "ToMap a = Ok (fold (\<lambda>(k, v). AList.update k v) (key_entries (Keys a) (Values a)) [])"
  using assms by (simp add: ToMap_def to_map_loop_ok)

lemma wf_map_fold_update:
  "wf_map m \<Longrightarrow> wf_map (fold (\<lambda>(k, v). AList.update k v) es m)"
  by (induction es arbitrary: m) auto

lemma map_of_fold_update:
  "map_of (fold (\<lambda>(k, v). AList.update k v) es m) = map_of m ++ map_of (rev es)"
  by (induction es arbitrary: m) (auto simp: map_add_def fun_eq_iff split: option.splits)

end
