(* ===== verification/Php_Spec.thy ===== *)
theory Php_Spec
  imports Php_Types
begin

text \<open>
  The abstract specification of package \<open>phpserialize\<close>: PHP values as finite trees, the
  text of PHP's \<open>serialize()\<close> for a tree, and the tree that a Go value with its heap
  stands for. Encoder and decoder are related to these three definitions.
\<close>

section \<open>PHP values and their serialized text\<close>

datatype pkey = KInt int64 | KStr string

datatype php =
    PNull
  | PBool bool
  | PInt int
  | PFloat float64
  | PString string
  | PArr "(pkey \<times> php) list"
  | PObj string "(string \<times> php) list"
  | PEnum string string

abbreviation dq :: char where "dq \<equiv> CHR 0x22"

definition ser_str :: "string \<Rightarrow> string" where
  "ser_str s = ''s:'' @ FormatInt (int (length s)) @ '':'' @ [dq] @ s @ [dq] @ '';''"

definition ser_float :: "float64 \<Rightarrow> string" where
  "ser_float f =
     ''d:'' @ (if IsInf f 1 then ''INF'' else if IsInf f (- 1) then ''-INF''
               else if IsNaN f then ''NAN'' else FormatFloat f) @ '';''"

fun ser_key :: "pkey \<Rightarrow> string" where
  "ser_key (KInt n) = ''i:'' @ FormatInt (sint n) @ '';''"
| "ser_key (KStr s) = ser_str s"

fun ser :: "php \<Rightarrow> string" where
  "ser PNull = ''N;''"
| "ser (PBool b) = ''b:'' @ (if b then ''1'' else ''0'') @ '';''"
| "ser (PInt n) = ''i:'' @ FormatInt n @ '';''"
| "ser (PFloat f) = ser_float f"
| "ser (PString s) = ser_str s"
| "ser (PArr es) =
     ''a:'' @ FormatInt (int (length es)) @ '':{'' @ concat (map (\<lambda>(k, v). ser_key k @ ser v) es) @ ''}''"
| "ser (PObj c ps) =
     ''O:'' @ FormatInt (int (length c)) @ '':'' @ [dq] @ c @ [dq] @ '':'' @
     FormatInt (int (length ps)) @ '':{'' @ concat (map (\<lambda>(k, v). ser_str k @ ser v) ps) @ ''}''"
| "ser (PEnum c e) =
     ''E:'' @ FormatInt (int (length c + 1 + length e)) @ '':'' @ [dq] @ c @ '':'' @ e @ [dq] @ '';''"

section \<open>The tree a Go value stands for\<close>

text \<open>A \<open>map[string]any\<close> is listed in the order of its sorted keys.\<close>

definition sorted_entries :: "'v gomap \<Rightarrow> 'v gomap" where
  "sorted_entries m = map (\<lambda>k. (k, the (map_of m k))) (sort (map fst m))"

fun abs_key :: "any \<Rightarrow> pkey option" where
  "abs_key (VInt64 n) = Some (KInt n)"
| "abs_key (VString s) = Some (KStr s)"
| "abs_key _ = None"

definition index_keys :: "'v list \<Rightarrow> (pkey \<times> 'v) list" where
  "index_keys vs = zip (map (\<lambda>i. KInt (of_nat i)) [0..<length vs]) vs"

definition abs_list :: "(any \<Rightarrow> php option) \<Rightarrow> any list \<Rightarrow> php option" where
  "abs_list ab vs = map_option (\<lambda>ts. PArr (index_keys ts)) (those (map ab vs))"

definition abs_entries :: "(any \<Rightarrow> php option) \<Rightarrow> any gomap \<Rightarrow> (string \<times> php) list option" where
  "abs_entries ab m = those (map (\<lambda>(k, v). map_option (Pair k) (ab v)) (sorted_entries m))"

definition abs_map :: "(any \<Rightarrow> php option) \<Rightarrow> any gomap \<Rightarrow> php option" where
  "abs_map ab m = map_option (\<lambda>es. PArr (map (\<lambda>(k, t). (KStr k, t)) es)) (abs_entries ab m)"

definition abs_pair :: "(any \<Rightarrow> php option) \<Rightarrow> any \<times> any \<Rightarrow> (pkey \<times> php) option" where
  "abs_pair ab kv =
     (case abs_key (fst kv) of None \<Rightarrow> None | Some k \<Rightarrow> map_option (Pair k) (ab (snd kv)))"

definition abs_arr :: "(any \<Rightarrow> php option) \<Rightarrow> arrayT \<Rightarrow> php option" where
  "abs_arr ab ar =
     (if length (Keys ar) \<le> length (Values ar)
      then map_option PArr (those (map (abs_pair ab) (zip (Keys ar) (Values ar)))) else None)"

definition abs_obj :: "(any \<Rightarrow> php option) \<Rightarrow> objectT \<Rightarrow> php option" where
  "abs_obj ab ob = map_option (PObj (ObjClassName ob)) (abs_entries ab (Properties ob))"

text \<open>
  \<open>absv h n v\<close>: the tree of depth less than \<open>n\<close> that \<open>v\<close> stands for in heap \<open>h\<close>;
  \<open>None\<close> if there is none (a type PHP has no text for, or a deeper or cyclic value).
\<close>

primrec absv :: "heap \<Rightarrow> nat \<Rightarrow> any \<Rightarrow> php option" where
  "absv h 0 v = None"
| "absv h (Suc n) v =
     (case v of
        VNil \<Rightarrow> Some PNull
      | VBool b \<Rightarrow> Some (PBool b)
      | VInt w \<Rightarrow> Some (PInt (sint w)) | VInt8 w \<Rightarrow> Some (PInt (sint w))
      | VInt16 w \<Rightarrow> Some (PInt (sint w)) | VInt32 w \<Rightarrow> Some (PInt (sint w))
      | VInt64 w \<Rightarrow> Some (PInt (sint w))
      | VUint w \<Rightarrow> Some (PInt (uint w)) | VUint8 w \<Rightarrow> Some (PInt (uint w))
      | VUint16 w \<Rightarrow> Some (PInt (uint w)) | VUint32 w \<Rightarrow> Some (PInt (uint w))
      | VUint64 w \<Rightarrow> Some (PInt (uint w))
      | VFloat32 f \<Rightarrow> Some (PFloat f) | VFloat64 f \<Rightarrow> Some (PFloat f)
      | VString s \<Rightarrow> Some (PString s)
      | VNumber _ \<Rightarrow> None
      | VSlice vs \<Rightarrow> abs_list (absv h n) vs
      | VStrings ss \<Rightarrow> abs_list (absv h n) (map VString ss)
      | VInts is \<Rightarrow> abs_list (absv h n) (map VInt is)
      | VMap m \<Rightarrow> abs_map (absv h n) m
      | VObject p \<Rightarrow> (case Option.bind p (get_obj h) of None \<Rightarrow> None | Some ob \<Rightarrow> abs_obj (absv h n) ob)
      | VArray p \<Rightarrow> (case Option.bind p (get_arr h) of None \<Rightarrow> None | Some ar \<Rightarrow> abs_arr (absv h n) ar)
      | VEnum e \<Rightarrow> map_option (\<lambda>e. PEnum (EnumClassName e) (CaseName e)) e
      | VRefSlice vs \<Rightarrow> abs_list (absv h n) vs
      | VRefMap es \<Rightarrow> abs_map (absv h n) (fold (\<lambda>(k, v). AList.update k v) es [])
      | VOther _ \<Rightarrow> None)"

section \<open>Lemmas\<close>

lemma those_map_Some_iff:
  "those (map f xs) = Some ys \<longleftrightarrow> list_all2 (\<lambda>x y. f x = Some y) xs ys"
  by (induction xs arbitrary: ys) (auto simp: list_all2_Cons1 split: option.splits)

lemma those_map_mono:
  assumes "those (map f xs) = Some ys" and "\<And>x y. x \<in> set xs \<Longrightarrow> f x = Some y \<Longrightarrow> g x = Some y"
  shows "those (map g xs) = Some ys"
  using assms by (auto simp: those_map_Some_iff intro: list.rel_mono_strong)

lemma length_those: "those xs = Some ys \<Longrightarrow> length ys = length xs"
  by (induction xs arbitrary: ys) (auto split: option.splits)

lemma those_Some_idem: "those (map Some xs) = Some xs"
  by (induction xs) auto

lemma sorted_entries_keys [simp]: "map fst (sorted_entries m) = sort (map fst m)"
  by (simp add: sorted_entries_def comp_def)

lemma length_sorted_entries [simp]: "length (sorted_entries m) = length m"
  by (simp add: sorted_entries_def)

lemma sorted_entries_sorted:
  assumes "sorted (map fst m)" "distinct (map fst m)"
  shows "sorted_entries m = m"
proof -
  have "sort (map fst m) = map fst m" using assms(1) by (rule sorted_sort_id)
  then show ?thesis
    unfolding sorted_entries_def
    using assms(2) by (auto simp: comp_def intro!: map_idI)
qed

text \<open>More depth never changes a tree: the tree of a value is unique.\<close>

lemma abs_list_mono:
  assumes "abs_list f vs = Some t" "\<And>x y. x \<in> set vs \<Longrightarrow> f x = Some y \<Longrightarrow> g x = Some y"
  shows "abs_list g vs = Some t"
  using assms those_map_mono [of f vs _ g] by (auto simp: abs_list_def)

lemma abs_entries_mono:
  assumes "abs_entries f m = Some es" "\<And>x y. f x = Some y \<Longrightarrow> g x = Some y"
  shows "abs_entries g m = Some es"
  using assms unfolding abs_entries_def by (elim those_map_mono) auto

lemma abs_map_mono:
  assumes "abs_map f m = Some t" "\<And>x y. f x = Some y \<Longrightarrow> g x = Some y"
  shows "abs_map g m = Some t"
  using assms abs_entries_mono [of f m _ g] by (auto simp: abs_map_def)

lemma abs_obj_mono:
  assumes "abs_obj f ob = Some t" "\<And>x y. f x = Some y \<Longrightarrow> g x = Some y"
  shows "abs_obj g ob = Some t"
  using assms abs_entries_mono [of f _ _ g] by (auto simp: abs_obj_def)

lemma abs_arr_mono:
  assumes "abs_arr f ar = Some t" and fg: "\<And>x y. f x = Some y \<Longrightarrow> g x = Some y"
  shows "abs_arr g ar = Some t"
proof -
  have "abs_pair g kv = Some e" if "abs_pair f kv = Some e" for kv e
    using that fg by (auto simp: abs_pair_def split: option.splits)
  with assms(1) show ?thesis
    using those_map_mono [of "abs_pair f" _ _ "abs_pair g"]
    by (auto simp: abs_arr_def split: if_splits)
qed

lemmas abs_monos = abs_list_mono abs_map_mono abs_obj_mono abs_arr_mono

lemma absv_mono: "absv h n v = Some t \<Longrightarrow> n \<le> n' \<Longrightarrow> absv h n' v = Some t"
proof (induction n arbitrary: n' v t)
  case (Suc n)
  then obtain m where m: "n' = Suc m" "n \<le> m" by (cases n') auto
  have IH: "absv h m x = Some y" if "absv h n x = Some y" for x y
    using Suc.IH [OF that m(2)] .
  from Suc.prems(1) show ?case
    unfolding m(1) by (cases v) (auto split: option.splits elim!: abs_monos intro: IH)
qed simp

end
