(* ===== verification/Php_Decoder.thy ===== *)
theory Php_Decoder
  imports Php_Spec
begin

text \<open>
  \<open>decoder.go\<close>: one definition per method of \<open>decoder\<close>, over a record of its fields and
  the heap it allocates in. A method maps the decoder state to its outcome and the state
  after it, also when it fails (\<open>Decode\<close> reports the position). Positions and lengths
  are Go \<open>int\<close>s with their wrap-around, slicing and \<open>make\<close> can panic. The methods that
  call \<open>readValue\<close> back take it as the argument \<open>rv\<close>; \<open>readValue\<close> ties the knot with
  fuel for the nesting depth.
\<close>

section \<open>State and errors\<close>

record decoder =
  data :: string
  pos :: int
  refs :: "any list"
  hp :: heap

datatype decode_error =
    EUnexpectedEnd | EUnknownType char | EExpected string | EEndBool
  | EInvalidInt num_error | EInvalidFloat num_error | EStringLength int
  | EArrayKey nat decode_error | EArrayValue nat decode_error | EEndKey | EKeyType char
  | EClassNameLength | EPropKey nat decode_error | EPropValue string decode_error
  | EInvalidRef num_error | ERefRange int | ECustomClassLength | ECustomData
  | EEnumLength int | EEnumColon string | EEmptyLength | EInvalidLength num_error
  | EAt int decode_error

type_synonym 'a dm = "decoder \<Rightarrow> (decode_error, 'a) outcome \<times> decoder"

definition dret :: "'a \<Rightarrow> 'a dm" where
  "dret a d = (Ok a, d)"

definition dfail :: "decode_error \<Rightarrow> 'a dm" where
  "dfail e d = (Err e, d)"

definition dbind :: "'a dm \<Rightarrow> ('a \<Rightarrow> 'b dm) \<Rightarrow> 'b dm" where
  "dbind m f d =
     (case m d of (Ok a, d') \<Rightarrow> f a d' | (Err e, d') \<Rightarrow> (Err e, d')
      | (Panic p, d') \<Rightarrow> (Panic p, d') | (Fuel, d') \<Rightarrow> (Fuel, d'))"

text \<open>\<open>fmt.Errorf("...: %w", err)\<close>: the error wrapped, everything else unchanged.\<close>

definition dwrap :: "(decode_error \<Rightarrow> decode_error) \<Rightarrow> 'a dm \<Rightarrow> 'a dm" where
  "dwrap w m d = (case m d of (Err e, d') \<Rightarrow> (Err (w e), d') | r \<Rightarrow> r)"

definition push_ref :: "any \<Rightarrow> unit dm" where
  "push_ref v d = (Ok (), d\<lparr>refs := refs d @ [v]\<rparr>)"

definition skip :: "int \<Rightarrow> unit dm" where
  "skip n d = (Ok (), d\<lparr>pos := wrap64 (pos d + n)\<rparr>)"

text \<open>\<open>d.pos+n > len(d.data)\<close>, in 64-bit arithmetic.\<close>

definition beyond :: "int \<Rightarrow> decoder \<Rightarrow> bool" where
  "beyond n d \<longleftrightarrow> int (length (data d)) < wrap64 (pos d + n)"

section \<open>Lexical helpers\<close>

definition expect :: "string \<Rightarrow> bool dm" where
  "expect s d =
     (if beyond (int (length s)) d then (Ok False, d)
      else case go_slice (data d) (pos d) (wrap64 (pos d + int (length s))) of
             None \<Rightarrow> (Panic SliceBounds, d)
           | Some t \<Rightarrow>
               if t = s then (Ok True, d\<lparr>pos := wrap64 (pos d + int (length s))\<rparr>) else (Ok False, d))"

text \<open>\<open>if !d.expect(s) { return ..., fmt.Errorf(msg) }\<close>\<close>

definition require :: "string \<Rightarrow> string \<Rightarrow> unit dm" where
  "require msg s = dbind (expect s) (\<lambda>ok. if ok then dret () else dfail (EExpected msg))"

definition readUntil :: "char \<Rightarrow> string dm" where
  "readUntil ch d =
     (if pos d < 0 then (Panic IndexRange, d)
      else
        let stop = pos d + int (length (takeWhile (\<lambda>c. c \<noteq> ch) (drop (nat (pos d)) (data d))))
        in case go_slice (data d) (pos d) stop of
             None \<Rightarrow> (Panic SliceBounds, d\<lparr>pos := stop\<rparr>)
           | Some s \<Rightarrow> (Ok s, d\<lparr>pos := stop\<rparr>))"

definition readLength :: "int dm" where
  "readLength =
     dbind (readUntil (CHR '':'')) (\<lambda>numStr.
       if numStr = [] then dfail EEmptyLength
       else case Atoi numStr of Inl e \<Rightarrow> dfail (EInvalidLength e) | Inr val \<Rightarrow> dret val)"

text \<open>\<open>val := d.data[d.pos : d.pos+length]; d.pos += length\<close>, after the bounds check that returns \<open>err\<close>.\<close>

definition readBytes :: "decode_error \<Rightarrow> int \<Rightarrow> string dm" where
  "readBytes err n d =
     (if beyond n d then (Err err, d)
      else case go_slice (data d) (pos d) (wrap64 (pos d + n)) of
             None \<Rightarrow> (Panic SliceBounds, d)
           | Some s \<Rightarrow> (Ok s, d\<lparr>pos := wrap64 (pos d + n)\<rparr>))"

text \<open>\<open>stripVisibility\<close> and \<open>ParsePropertyName\<close>.\<close>

definition NUL :: char where "NUL = CHR 0x00"

definition stripVisibility :: "string \<Rightarrow> string" where
  "stripVisibility name =
     (if name = [] \<or> hd name \<noteq> NUL then name
      else case index_byte NUL (tl name) of None \<Rightarrow> name | Some idx \<Rightarrow> drop (idx + 2) name)"

definition ParsePropertyName :: "string \<Rightarrow> PropertyInfo" where
  "ParsePropertyName raw =
     (if raw = [] \<or> hd raw \<noteq> NUL
      then \<lparr>PropName = raw, PropVisibility = Public, PropClassName = []\<rparr>
      else if 3 \<le> length raw \<and> raw ! 1 = CHR ''*'' \<and> raw ! 2 = NUL
      then \<lparr>PropName = drop 3 raw, PropVisibility = Protected, PropClassName = []\<rparr>
      else case index_byte NUL (tl raw) of
             None \<Rightarrow> \<lparr>PropName = raw, PropVisibility = Public, PropClassName = []\<rparr>
           | Some idx \<Rightarrow>
               \<lparr>PropName = drop (idx + 2) raw, PropVisibility = Private,
                PropClassName = take idx (tl raw)\<rparr>)"

section \<open>Scalars\<close>

definition readNull :: "any dm" where
  "readNull = dbind (require ''N;'' ''N;'') (\<lambda>_. dbind (push_ref VNil) (\<lambda>_. dret VNil))"

definition readBool :: "any dm" where
  "readBool =
     dbind (require ''b: prefix'' ''b:'') (\<lambda>_ d.
       if int (length (data d)) \<le> pos d then (Err EEndBool, d)
       else if pos d < 0 then (Panic IndexRange, d)
       else
         let val = (data d ! nat (pos d) = CHR ''1'')
         in dbind (skip 1) (\<lambda>_. dbind (require ''; after bool'' '';'') (\<lambda>_.
            dbind (push_ref (VBool val)) (\<lambda>_. dret (VBool val)))) d)"

definition readInt :: "any dm" where
  "readInt =
     dbind (require ''i: prefix'' ''i:'') (\<lambda>_.
     dbind (readUntil (CHR '';'')) (\<lambda>numStr.
     dbind (skip 1) (\<lambda>_.
       case ParseInt numStr of
         Inl e \<Rightarrow> dfail (EInvalidInt e)
       | Inr val \<Rightarrow>
           dbind (push_ref (VInt64 (word_of_int val))) (\<lambda>_. dret (VInt64 (word_of_int val))))))"

definition parse_php_float :: "string \<Rightarrow> num_error + float64" where
  "parse_php_float numStr =
     (let up = map to_upper_byte numStr
      in if up = ''INF'' then Inr (Inf 1)
         else if up = ''-INF'' then Inr (Inf (- 1))
         else if up = ''NAN'' then Inr NaN
         else ParseFloat numStr)"

definition readFloat :: "any dm" where
  "readFloat =
     dbind (require ''d: prefix'' ''d:'') (\<lambda>_.
     dbind (readUntil (CHR '';'')) (\<lambda>numStr.
     dbind (skip 1) (\<lambda>_.
       case parse_php_float numStr of
         Inl e \<Rightarrow> dfail (EInvalidFloat e)
       | Inr val \<Rightarrow> dbind (push_ref (VFloat64 val)) (\<lambda>_. dret (VFloat64 val)))))"

definition readString :: "string dm" where
  "readString =
     dbind (require ''s: prefix'' ''s:'') (\<lambda>_.
     dbind readLength (\<lambda>len.
     dbind (require ''quote after string length'' ('':'' @ [dq])) (\<lambda>_.
     dbind (readBytes (EStringLength len) len) (\<lambda>val.
     dbind (require ''quote after string content'' (dq # '';'')) (\<lambda>_.
     dbind (push_ref (VString val)) (\<lambda>_. dret val))))))"

definition readEnum :: "any dm" where
  "readEnum =
     dbind (require ''E: prefix'' ''E:'') (\<lambda>_.
     dbind readLength (\<lambda>len.
     dbind (require ''quote after enum length'' ('':'' @ [dq])) (\<lambda>_.
     dbind (readBytes (EEnumLength len) len) (\<lambda>val.
     dbind (require ''quote after enum value'' (dq # '';'')) (\<lambda>_.
       case last_index (CHR '':'') val of
         None \<Rightarrow> dfail (EEnumColon val)
       | Some idx \<Rightarrow>
           let enum = VEnum (Some \<lparr>EnumClassName = take idx val, CaseName = drop (idx + 1) val\<rparr>)
           in dbind (push_ref enum) (\<lambda>_. dret enum))))))"

text \<open>\<open>idx--\<close> makes the 1-based PHP index 0-based.\<close>

definition readReference :: "any dm" where
  "readReference =
     dbind (skip 1) (\<lambda>_.
     dbind (require '': after reference type'' '':'') (\<lambda>_.
     dbind (readUntil (CHR '';'')) (\<lambda>numStr.
     dbind (skip 1) (\<lambda>_.
       case Atoi numStr of
         Inl e \<Rightarrow> dfail (EInvalidRef e)
       | Inr n \<Rightarrow>
           (let idx = wrap64 (n - 1)
            in (\<lambda>d. if idx < 0 \<or> int (length (refs d)) \<le> idx then (Err (ERefRange (wrap64 (idx + 1))), d)
                    else (Ok (refs d ! nat idx), d)))))))"

section \<open>Containers\<close>

text \<open>\<open>make([]any, 0, count)\<close>: 16 bytes per element, at most \<open>maxAlloc\<close> bytes (linux/amd64).\<close>

definition maxAlloc :: int where "maxAlloc = 2 ^ 48"

definition make_slice_cap :: "int \<Rightarrow> unit dm" where
  "make_slice_cap count d =
     (if count < 0 \<or> maxAlloc < 16 * count then (Panic MakeSliceCap, d) else (Ok (), d))"

definition new_cell :: "cell \<Rightarrow> addr dm" where
  "new_cell c d = (case alloc c (hp d) of (a, h) \<Rightarrow> (Ok a, d\<lparr>hp := h\<rparr>))"

definition readArrayKey :: "any dm" where
  "readArrayKey d =
     (if int (length (data d)) \<le> pos d then (Err EEndKey, d)
      else if pos d < 0 then (Panic IndexRange, d)
      else if data d ! nat (pos d) = CHR ''i'' then readInt d
      else if data d ! nat (pos d) = CHR ''s'' then dbind readString (\<lambda>s. dret (VString s)) d
      else (Err (EKeyType (data d ! nat (pos d))), d))"

text \<open>\<open>arr.Keys = append(arr.Keys, key); arr.Values = append(arr.Values, val)\<close>\<close>

definition append_entry :: "addr \<Rightarrow> any \<Rightarrow> any \<Rightarrow> unit dm" where
  "append_entry a key val d =
     (case get_arr (hp d) a of
        None \<Rightarrow> (Panic NilDeref, d)
      | Some ar \<Rightarrow>
          (Ok (), d\<lparr>hp := (hp d)[a := CArr \<lparr>Keys = Keys ar @ [key], Values = Values ar @ [val]\<rparr>]\<rparr>))"

primrec array_loop :: "any dm \<Rightarrow> addr \<Rightarrow> nat \<Rightarrow> nat \<Rightarrow> unit dm" where
  "array_loop rv a 0 i = dret ()"
| "array_loop rv a (Suc n) i =
     dbind (dwrap (EArrayKey i) readArrayKey) (\<lambda>key.
     dbind (dwrap (EArrayValue i) rv) (\<lambda>val.
     dbind (append_entry a key val) (\<lambda>_. array_loop rv a n (Suc i))))"

definition readArray :: "any dm \<Rightarrow> any dm" where
  "readArray rv =
     dbind (require ''a: prefix'' ''a:'') (\<lambda>_.
     dbind readLength (\<lambda>count.
     dbind (require '':{ after array count'' '':{'') (\<lambda>_.
     dbind (make_slice_cap count) (\<lambda>_.
     dbind (new_cell (CArr \<lparr>Keys = [], Values = []\<rparr>)) (\<lambda>a.
     dbind (push_ref (VArray (Some a))) (\<lambda>_.
     dbind (array_loop rv a (nat count) 0) (\<lambda>_.
     dbind (require ''} after array'' ''}'') (\<lambda>_. dret (VArray (Some a))))))))))"

text \<open>\<open>obj.Properties[cleanKey] = val\<close>\<close>

definition set_prop :: "addr \<Rightarrow> string \<Rightarrow> any \<Rightarrow> unit dm" where
  "set_prop a key val d =
     (case get_obj (hp d) a of
        None \<Rightarrow> (Panic NilDeref, d)
      | Some ob \<Rightarrow>
          (Ok (), d\<lparr>hp := (hp d)[a := CObj (ob\<lparr>Properties := AList.update key val (Properties ob)\<rparr>)]\<rparr>))"

primrec object_loop :: "any dm \<Rightarrow> addr \<Rightarrow> nat \<Rightarrow> nat \<Rightarrow> unit dm" where
  "object_loop rv a 0 i = dret ()"
| "object_loop rv a (Suc n) i =
     dbind (dwrap (EPropKey i) readString) (\<lambda>rawKey.
       let cleanKey = stripVisibility rawKey in
       dbind (dwrap (EPropValue cleanKey) rv) (\<lambda>val.
       dbind (set_prop a cleanKey val) (\<lambda>_. object_loop rv a n (Suc i))))"

text \<open>The class name header that objects and custom objects share in form.\<close>

definition readObject :: "any dm \<Rightarrow> any dm" where
  "readObject rv =
     dbind (require ''O: prefix'' ''O:'') (\<lambda>_.
     dbind readLength (\<lambda>classNameLen.
     dbind (require ''quote after class name length'' ('':'' @ [dq])) (\<lambda>_.
     dbind (readBytes EClassNameLength classNameLen) (\<lambda>className.
     dbind (require ''quote after class name'' (dq # '':'')) (\<lambda>_.
     dbind readLength (\<lambda>propCount.
     dbind (require '':{ after property count'' '':{'') (\<lambda>_.
     dbind (new_cell (CObj \<lparr>ObjClassName = className, Properties = []\<rparr>)) (\<lambda>a.
     dbind (push_ref (VObject (Some a))) (\<lambda>_.
     dbind (object_loop rv a (nat propCount) 0) (\<lambda>_.
     dbind (require ''} after object'' ''}'') (\<lambda>_. dret (VObject (Some a)))))))))))))"

definition readCustomObject :: "any dm" where
  "readCustomObject =
     dbind (require ''C: prefix'' ''C:'') (\<lambda>_.
     dbind readLength (\<lambda>classNameLen.
     dbind (require ''quote after class name length'' ('':'' @ [dq])) (\<lambda>_.
     dbind (readBytes ECustomClassLength classNameLen) (\<lambda>className.
     dbind (require ''quote after class name'' (dq # '':'')) (\<lambda>_.
     dbind readLength (\<lambda>dataLen.
     dbind (require '':{ after data length'' '':{'') (\<lambda>_.
     dbind (\<lambda>d. if beyond dataLen d then dfail ECustomData d else skip dataLen d) (\<lambda>_.
     dbind (require ''} after custom object'' ''}'') (\<lambda>_.
     dbind (new_cell (CObj \<lparr>ObjClassName = className, Properties = []\<rparr>)) (\<lambda>a.
     dbind (push_ref (VObject (Some a))) (\<lambda>_. dret (VObject (Some a)))))))))))))"

section \<open>Values\<close>

primrec readValue :: "nat \<Rightarrow> any dm" where
  "readValue 0 = (\<lambda>d. (Fuel, d))"
| "readValue (Suc n) = (\<lambda>d.
     if int (length (data d)) \<le> pos d then (Err EUnexpectedEnd, d)
     else if pos d < 0 then (Panic IndexRange, d)
     else
       let c = data d ! nat (pos d) in
       if c = CHR ''N'' then readNull d
       else if c = CHR ''b'' then readBool d
       else if c = CHR ''i'' then readInt d
       else if c = CHR ''d'' then readFloat d
       else if c = CHR ''s'' then dbind readString (\<lambda>s. dret (VString s)) d
       else if c = CHR ''a'' then readArray (readValue n) d
       else if c = CHR ''O'' then readObject (readValue n) d
       else if c = CHR ''r'' \<or> c = CHR ''R'' then readReference d
       else if c = CHR ''C'' then readCustomObject d
       else if c = CHR ''E'' then readEnum d
       else (Err (EUnknownType c), d))"

definition init_decoder :: "string \<Rightarrow> decoder" where
  "init_decoder s = \<lparr>data = s, pos = 0, refs = [], hp = []\<rparr>"

definition Decode :: "nat \<Rightarrow> string \<Rightarrow> (decode_error, any \<times> heap) outcome" where
  "Decode fuel s =
     (case readValue fuel (init_decoder s) of
        (Ok val, d) \<Rightarrow> Ok (val, hp d)
      | (Err e, d) \<Rightarrow> Err (EAt (pos d) e)
      | (Panic p, d) \<Rightarrow> Panic p
      | (Fuel, d) \<Rightarrow> Fuel)"

definition DecodeBytes :: "nat \<Rightarrow> string \<Rightarrow> (decode_error, any \<times> heap) outcome" where
  "DecodeBytes fuel b = Decode fuel b"

end
