(* ===== verification/Php_Cursor.thy ===== *)
theory Php_Cursor
  imports Php_Decoder
begin

text \<open>
  The decoder at a cursor: \<open>at pre rest r h\<close> has read \<open>pre\<close> and has \<open>rest\<close> before it.
  Each reading method gets one equation that moves the cursor over the text it reads, so
  the simplifier runs the decoder over a serialized text.
\<close>

section \<open>Cursors\<close>

definition at :: "string \<Rightarrow> string \<Rightarrow> any list \<Rightarrow> heap \<Rightarrow> decoder" where
  "at pre rest r h = \<lparr>data = pre @ rest, pos = int (length pre), refs = r, hp = h\<rparr>"

text \<open>A Go string is at most \<open>maxAlloc\<close> bytes long: no larger block can be allocated.\<close>

definition go_len :: "string \<Rightarrow> bool" where
  "go_len s \<longleftrightarrow> int (length s) \<le> maxAlloc"

named_theorems cursor \<open>cursor equations of the reading methods\<close>

lemma at_sel [simp]:
  "data (at pre rest r h) = pre @ rest" "pos (at pre rest r h) = int (length pre)"
  "refs (at pre rest r h) = r" "hp (at pre rest r h) = h"
  by (simp_all add: at_def)

lemma at_upd [simp]:
  "refs_update f (at pre rest r h) = at pre rest (f r) h"
  "hp_update g (at pre rest r h) = at pre rest r (g h)"
  by (simp_all add: at_def)

lemma at_inject [simp]: "at pre rest r h = at pre rest r' h' \<longleftrightarrow> r = r' \<and> h = h'"
  by (simp add: at_def)

lemma at_pos_upd: "pos_update (\<lambda>_. int (length pre + length s)) (at pre (s @ rest) r h) = at (pre @ s) rest r h"
  by (simp add: at_def)

lemma init_decoder_at: "init_decoder s = at [] s [] []"
  by (simp add: init_decoder_def at_def)

lemma go_len_wrap: "go_len s \<Longrightarrow> 0 \<le> n \<Longrightarrow> n \<le> int (length s) + maxAlloc \<Longrightarrow> wrap64 n = n"
  by (rule wrap64_id) (auto simp: go_len_def maxAlloc_def)

section \<open>The monad and the primitives\<close>

lemma dbind_simps [simp]:
  "m d = (Ok a, d') \<Longrightarrow> dbind m f d = f a d'"
  "m d = (Err e, d') \<Longrightarrow> dbind m f d = (Err e, d')"
  "m d = (Panic p, d') \<Longrightarrow> dbind m f d = (Panic p, d')"
  "m d = (Fuel, d') \<Longrightarrow> dbind m f d = (Fuel, d')"
  by (simp_all add: dbind_def)

lemma dwrap_simps [simp]:
  "m d = (Ok a, d') \<Longrightarrow> dwrap w m d = (Ok a, d')"
  "m d = (Err e, d') \<Longrightarrow> dwrap w m d = (Err (w e), d')"
  "m d = (Panic p, d') \<Longrightarrow> dwrap w m d = (Panic p, d')"
  "m d = (Fuel, d') \<Longrightarrow> dwrap w m d = (Fuel, d')"
  by (simp_all add: dwrap_def)

lemma dret_simp [simp]: "dret a d = (Ok a, d)"
  by (simp add: dret_def)

lemma dfail_simp [simp]: "dfail e d = (Err e, d)"
  by (simp add: dfail_def)

lemma push_ref_at [cursor]: "push_ref v (at pre rest r h) = (Ok (), at pre rest (r @ [v]) h)"
  by (simp add: push_ref_def)

lemma new_cell_at [cursor]: "new_cell c (at pre rest r h) = (Ok (length h), at pre rest r (h @ [c]))"
  by (simp add: new_cell_def alloc_def)

lemma expect_at:
  assumes "go_len (pre @ s @ rest)"
  shows "expect s (at pre (s @ rest) r h) = (Ok True, at (pre @ s) rest r h)"
proof -
  have w: "wrap64 (int (length pre) + int (length s)) = int (length pre) + int (length s)"
    using assms by (intro go_len_wrap [OF assms]) (auto simp: maxAlloc_def)
  show ?thesis
    using at_pos_upd [of pre s rest r h] by (simp add: expect_def beyond_def w)
qed

lemma require_at [cursor]:
  assumes "take (length s) rest = s" "go_len (pre @ rest)"
  shows "require msg s (at pre rest r h) = (Ok (), at (pre @ s) (drop (length s) rest) r h)"
proof -
  have eq: "rest = s @ drop (length s) rest"
    by (metis append_take_drop_id assms(1))
  with assms(2) have "go_len (pre @ s @ drop (length s) rest)" by simp
  from expect_at [OF this] eq
  have "expect s (at pre rest r h) = (Ok True, at (pre @ s) (drop (length s) rest) r h)" by simp
  then show ?thesis by (simp add: require_def)
qed

lemma skip_at [cursor]:
  assumes "go_len (pre @ c # rest)"
  shows "skip 1 (at pre (c # rest) r h) = (Ok (), at (pre @ [c]) rest r h)"
proof -
  have "wrap64 (int (length pre) + 1) = int (length pre) + 1"
    using assms by (intro go_len_wrap [OF assms]) (auto simp: maxAlloc_def)
  then show ?thesis by (simp add: skip_def at_def)
qed

lemma takeWhile_sep: "c \<notin> set a \<Longrightarrow> takeWhile (\<lambda>x. x \<noteq> c) (a @ c # b) = a"
  by (induction a) auto

lemma readUntil_at [cursor]:
  assumes "c \<notin> set a"
  shows "readUntil c (at pre (a @ c # rest) r h) = (Ok a, at (pre @ a) (c # rest) r h)"
proof -
  have "go_slice (pre @ a @ c # rest) (int (length pre)) (int (length pre) + int (length a)) = Some a"
    by (rule go_slice_append)
  with at_pos_upd [of pre a "c # rest" r h] show ?thesis
    using assms by (simp add: readUntil_def takeWhile_sep)
qed

lemma readBytes_at [cursor]:
  assumes "go_len (pre @ s @ rest)"
  shows "readBytes err (int (length s)) (at pre (s @ rest) r h) = (Ok s, at (pre @ s) rest r h)"
proof -
  have w: "wrap64 (int (length pre) + int (length s)) = int (length pre) + int (length s)"
    using assms by (intro go_len_wrap [OF assms]) (auto simp: maxAlloc_def)
  show ?thesis
    using at_pos_upd [of pre s rest r h] by (simp add: readBytes_def beyond_def w)
qed

lemma readLength_at [cursor]:
  assumes "0 \<le> n" "n \<le> max_int64"
  shows "readLength (at pre (FormatInt n @ CHR '':'' # rest) r h) =
    (Ok n, at (pre @ FormatInt n) (CHR '':'' # rest) r h)"
  using assms by (simp add: readLength_def readUntil_at ParseInt_FormatInt)

section \<open>Scalars\<close>

lemma readNull_at [cursor]:
  "go_len (pre @ ser PNull @ rest) \<Longrightarrow>
   readNull (at pre (ser PNull @ rest) r h) = (Ok VNil, at (pre @ ser PNull) rest (r @ [VNil]) h)"
  by (simp add: readNull_def cursor)

lemma readBool_at [cursor]:
  "go_len (pre @ ser (PBool b) @ rest) \<Longrightarrow>
   readBool (at pre (ser (PBool b) @ rest) r h) =
     (Ok (VBool b), at (pre @ ser (PBool b)) rest (r @ [VBool b]) h)"
  by (cases b) (simp_all add: readBool_def cursor nth_append nat_add_distrib)

lemma readInt_at [cursor]:
  assumes "min_int64 \<le> n" "n \<le> max_int64" "go_len (pre @ ''i:'' @ FormatInt n @ '';'' @ rest)"
  shows "readInt (at pre (''i:'' @ FormatInt n @ '';'' @ rest) r h) =
    (Ok (VInt64 (word_of_int n)),
     at (pre @ ''i:'' @ FormatInt n @ '';'') rest (r @ [VInt64 (word_of_int n)]) h)"
  using assms by (simp add: readInt_def cursor ParseInt_FormatInt)

lemma readString_at [cursor]:
  assumes "go_len (pre @ ser_str s @ rest)"
  shows "readString (at pre (ser_str s @ rest) r h) =
    (Ok s, at (pre @ ser_str s) rest (r @ [VString s]) h)"
proof -
  have "int (length s) \<le> max_int64"
    using assms by (simp add: go_len_def ser_str_def maxAlloc_def)
  with assms show ?thesis
    by (simp add: readString_def ser_str_def cursor)
qed

lemma readEnum_at [cursor]:
  assumes "go_len (pre @ ser (PEnum c e) @ rest)" "CHR '':'' \<notin> set e"
  shows "readEnum (at pre (ser (PEnum c e) @ rest) r h) =
    (let v = VEnum (Some \<lparr>EnumClassName = c, CaseName = e\<rparr>)
     in (Ok v, at (pre @ ser (PEnum c e)) rest (r @ [v]) h))"
proof -
  have n: "int (length c + 1 + length e) = int (length (c @ CHR '':'' # e))" by simp
  have "int (length (c @ CHR '':'' # e)) \<le> max_int64"
    using assms by (simp add: go_len_def maxAlloc_def)
  then show ?thesis
    using assms readBytes_at [of "pre @ ''E:'' @ FormatInt (int (length (c @ CHR '':'' # e))) @ '':'' @ [dq]"
        "c @ CHR '':'' # e" "dq # CHR '';'' # rest"]
    by (simp add: readEnum_def cursor n last_index_append Let_def del: of_nat_add of_nat_Suc)
qed

text \<open>
  The text of a float is read back as the same bits; \<open>NAN\<close> is read as \<open>math.NaN()\<close>, so of
  the NaNs only that one survives.
\<close>

definition float_stable :: "float64 \<Rightarrow> bool" where
  "float_stable f \<longleftrightarrow> wf_float f \<and> (IsNaN f \<longrightarrow> f = NaN)"

lemma to_upper_digit: "is_digit c \<Longrightarrow> to_upper_byte c = c"
  by (auto simp: is_digit_def to_upper_byte_def Let_def)

lemma upper_not_special:
  assumes "is_finite f"
  shows "map to_upper_byte (FormatFloat f) \<noteq> ''INF''" "map to_upper_byte (FormatFloat f) \<noteq> ''-INF''"
    "map to_upper_byte (FormatFloat f) \<noteq> ''NAN''"
proof -
  obtain s m k where s: "FormatFloat f = (if fsign f then ''-'' else []) @ s" "plain_decimal s m k"
    using FormatFloat_chars [OF assms] .
  note h = plain_decimal_head [OF s(2)]
  obtain c cs where c: "s = c # cs" "is_digit c" using h(1,2) by (cases s) auto
  have "\<not> is_digit (CHR ''I'')" "\<not> is_digit (CHR ''N'')" by (simp_all add: is_digit_def)
  moreover have "to_upper_byte (CHR ''-'') = CHR ''-''" by (simp add: to_upper_byte_def)
  ultimately show "map to_upper_byte (FormatFloat f) \<noteq> ''INF''"
    "map to_upper_byte (FormatFloat f) \<noteq> ''-INF''" "map to_upper_byte (FormatFloat f) \<noteq> ''NAN''"
    using c s(1) to_upper_digit [OF c(2)] by auto
qed

definition float_body :: "float64 \<Rightarrow> string" where
  "float_body f = (if IsInf f 1 then ''INF'' else if IsInf f (- 1) then ''-INF''
     else if IsNaN f then ''NAN'' else FormatFloat f)"

lemma float_cases:
  assumes "float_stable f"
  shows "f = Inf 1 \<or> f = Inf (- 1) \<or> f = NaN \<or> is_finite f"
proof (cases "fexp f < 2047")
  case True
  then show ?thesis by (simp add: is_finite_def)
next
  case False
  with assms have e: "fexp f = 2047" by (simp add: float_stable_def wf_float_def)
  show ?thesis
    using assms e by (cases "ffrac f = 0") (cases f, auto simp: float_stable_def IsNaN_def Inf_def)+
qed

lemma parse_float_body: "float_stable f \<Longrightarrow> parse_php_float (float_body f) = Inr f"
proof -
  assume a: "float_stable f"
  show ?thesis
  proof (cases "is_finite f")
    case True
    with a show ?thesis
      by (simp add: parse_php_float_def float_body_def finite_not_special upper_not_special
          ParseFloat_FormatFloat float_stable_def)
  next
    case False
    with float_cases [OF a] show ?thesis
      by (auto simp: parse_php_float_def float_body_def IsInf_def IsNaN_def Inf_def NaN_def to_upper_byte_def)
  qed
qed

lemma float_body_no_semicolon: "float_stable f \<Longrightarrow> CHR '';'' \<notin> set (float_body f)"
proof -
  assume a: "float_stable f"
  show ?thesis
  proof (cases "is_finite f")
    case True
    from FormatFloat_chars [OF this] obtain s m k
      where "FormatFloat f = (if fsign f then ''-'' else []) @ s" "plain_decimal s m k" .
    with plain_decimal_head(4) True show ?thesis by (auto simp: float_body_def finite_not_special)
  next
    case False
    with float_cases [OF a] show ?thesis
      by (auto simp: float_body_def IsInf_def IsNaN_def Inf_def NaN_def)
  qed
qed

lemma readFloat_at [cursor]:
  assumes "float_stable f" "go_len (pre @ ser (PFloat f) @ rest)"
  shows "readFloat (at pre (ser (PFloat f) @ rest) r h) =
    (Ok (VFloat64 f), at (pre @ ser (PFloat f)) rest (r @ [VFloat64 f]) h)"
proof -
  have b: "ser (PFloat f) = ''d:'' @ float_body f @ '';''"
    by (simp add: ser_float_def float_body_def)
  show ?thesis
    using assms by (simp add: b readFloat_def cursor parse_float_body float_body_no_semicolon del: ser.simps)
qed

end
