(* ===== verification/Php_Encoder.thy ===== *)
theory Php_Encoder
  imports Php_Spec
begin

text \<open>
  \<open>encoder.go\<close>: one definition per function. Each returns the text it writes to the
  builder; on an error \<open>Encode\<close> drops the builder, so nothing else of it can be seen.
  The functions that call \<open>encodeValue\<close> back take it as the argument \<open>enc\<close>;
  \<open>encodeValue\<close> ties the knot with fuel for the nesting depth. A value that contains
  itself runs out of any fuel, as the Go recursion runs out of stack.
\<close>

datatype encode_error =
    UnsupportedType any \<comment> \<open>phpserialize: unsupported type\<close>
  | UnsupportedArrayKey any \<comment> \<open>phpserialize: unsupported array key type\<close>

type_synonym 'a enc_res = "(encode_error, 'a) outcome"

section \<open>Scalars\<close>

definition writeInt :: "int \<Rightarrow> string" where
  "writeInt val = ''i:'' @ FormatInt val @ '';''"

definition writeUint :: "nat \<Rightarrow> string" where
  "writeUint val = ''i:'' @ FormatUint val @ '';''"

definition encodeFloat :: "float64 \<Rightarrow> string" where
  "encodeFloat val =
     ''d:'' @ (if IsInf val 1 then ''INF''
               else if IsInf val (- 1) then ''-INF''
               else if IsNaN val then ''NAN''
               else FormatFloat val) @ '';''"

definition encodeString :: "string \<Rightarrow> string" where
  "encodeString val = ''s:'' @ Itoa (int (length val)) @ '':'' @ [dq] @ val @ [dq] @ '';''"

definition encodeEnum :: "enumT \<Rightarrow> string" where
  "encodeEnum e =
     (let val = EnumClassName e @ '':'' @ CaseName e
      in ''E:'' @ Itoa (int (length val)) @ '':'' @ [dq] @ val @ [dq] @ '';'')"

section \<open>Containers\<close>

fun encode_items :: "(any \<Rightarrow> string enc_res) \<Rightarrow> nat \<Rightarrow> any list \<Rightarrow> string enc_res" where
  "encode_items enc i [] = Ok []"
| "encode_items enc i (item # items) =
     bind_ok (enc item) (\<lambda>t.
       map_ok (\<lambda>r. writeInt (sint (of_nat i :: int64)) @ t @ r) (encode_items enc (Suc i) items))"

definition encodeSlice :: "(any \<Rightarrow> string enc_res) \<Rightarrow> any list \<Rightarrow> string enc_res" where
  "encodeSlice enc val =
     map_ok (\<lambda>r. ''a:'' @ Itoa (int (length val)) @ '':{'' @ r @ ''}'') (encode_items enc 0 val)"

fun encode_props :: "(any \<Rightarrow> string enc_res) \<Rightarrow> any gomap \<Rightarrow> string list \<Rightarrow> string enc_res" where
  "encode_props enc properties [] = Ok []"
| "encode_props enc properties (k # keys) =
     bind_ok (enc (case map_of properties k of None \<Rightarrow> VNil | Some v \<Rightarrow> v)) (\<lambda>t.
       map_ok (\<lambda>r. encodeString k @ t @ r) (encode_props enc properties keys))"

definition encodeSortedProperties :: "(any \<Rightarrow> string enc_res) \<Rightarrow> any gomap \<Rightarrow> string enc_res" where
  "encodeSortedProperties enc properties = encode_props enc properties (sort (map fst properties))"

definition encodeMap :: "(any \<Rightarrow> string enc_res) \<Rightarrow> any gomap \<Rightarrow> string enc_res" where
  "encodeMap enc val =
     map_ok (\<lambda>r. ''a:'' @ Itoa (int (length val)) @ '':{'' @ r @ ''}'') (encodeSortedProperties enc val)"

definition encodeObject :: "(any \<Rightarrow> string enc_res) \<Rightarrow> objectT \<Rightarrow> string enc_res" where
  "encodeObject enc obj =
     map_ok (\<lambda>r.
       ''O:'' @ Itoa (int (length (ObjClassName obj))) @ '':'' @ [dq] @ ObjClassName obj @ [dq] @ '':'' @
       Itoa (int (length (Properties obj))) @ '':{'' @ r @ ''}'')
       (encodeSortedProperties enc (Properties obj))"

fun encode_array_items :: "(any \<Rightarrow> string enc_res) \<Rightarrow> any list \<Rightarrow> nat \<Rightarrow> any list \<Rightarrow> string enc_res" where
  "encode_array_items enc vals i [] = Ok []"
| "encode_array_items enc vals i (k # ks) =
     bind_ok (case k of
                VInt64 key \<Rightarrow> Ok (writeInt (sint key))
              | VString key \<Rightarrow> Ok (encodeString key)
              | _ \<Rightarrow> Err (UnsupportedArrayKey k)) (\<lambda>kt.
     bind_ok (if i < length vals then enc (vals ! i) else Panic IndexRange) (\<lambda>t.
       map_ok (\<lambda>r. kt @ t @ r) (encode_array_items enc vals (Suc i) ks)))"

definition encodeArray :: "(any \<Rightarrow> string enc_res) \<Rightarrow> arrayT \<Rightarrow> string enc_res" where
  "encodeArray enc arr =
     map_ok (\<lambda>r. ''a:'' @ Itoa (int (length (Keys arr))) @ '':{'' @ r @ ''}'')
       (encode_array_items enc (Values arr) 0 (Keys arr))"

section \<open>Values\<close>

text \<open>A nil \<open>*Object\<close>, \<open>*Array\<close> or \<open>*Enum\<close> in the \<open>any\<close> is dereferenced.\<close>

primrec encodeValue :: "heap \<Rightarrow> nat \<Rightarrow> any \<Rightarrow> string enc_res" where
  "encodeValue h 0 v = Fuel"
| "encodeValue h (Suc n) v =
     (case v of
        VNil \<Rightarrow> Ok ''N;''
      | VBool val \<Rightarrow> Ok (if val then ''b:1;'' else ''b:0;'')
      | VInt val \<Rightarrow> Ok (writeInt (sint val))
      | VInt8 val \<Rightarrow> Ok (writeInt (sint val))
      | VInt16 val \<Rightarrow> Ok (writeInt (sint val))
      | VInt32 val \<Rightarrow> Ok (writeInt (sint val))
      | VInt64 val \<Rightarrow> Ok (writeInt (sint val))
      | VUint val \<Rightarrow> Ok (writeUint (unat val))
      | VUint8 val \<Rightarrow> Ok (writeUint (unat val))
      | VUint16 val \<Rightarrow> Ok (writeUint (unat val))
      | VUint32 val \<Rightarrow> Ok (writeUint (unat val))
      | VUint64 val \<Rightarrow> Ok (writeUint (unat val))
      | VFloat32 val \<Rightarrow> Ok (encodeFloat val)
      | VFloat64 val \<Rightarrow> Ok (encodeFloat val)
      | VString val \<Rightarrow> Ok (encodeString val)
      | VSlice val \<Rightarrow> encodeSlice (encodeValue h n) val
      | VStrings val \<Rightarrow> encodeSlice (encodeValue h n) (map VString val)
      | VInts val \<Rightarrow> encodeSlice (encodeValue h n) (map VInt val)
      | VMap val \<Rightarrow> encodeMap (encodeValue h n) val
      | VObject p \<Rightarrow>
          (case Option.bind p (get_obj h) of
             None \<Rightarrow> Panic NilDeref | Some obj \<Rightarrow> encodeObject (encodeValue h n) obj)
      | VArray p \<Rightarrow>
          (case Option.bind p (get_arr h) of
             None \<Rightarrow> Panic NilDeref | Some arr \<Rightarrow> encodeArray (encodeValue h n) arr)
      | VEnum p \<Rightarrow> (case p of None \<Rightarrow> Panic NilDeref | Some e \<Rightarrow> Ok (encodeEnum e))
      | VRefSlice items \<Rightarrow> encodeSlice (encodeValue h n) items
      | VRefMap entries \<Rightarrow> encodeMap (encodeValue h n) (fold (\<lambda>(k, x). AList.update k x) entries [])
      | VNumber _ \<Rightarrow> Err (UnsupportedType v)
      | VOther _ \<Rightarrow> Err (UnsupportedType v))"

definition Encode :: "nat \<Rightarrow> heap \<Rightarrow> any \<Rightarrow> string enc_res" where
  "Encode fuel h v = encodeValue h fuel v"

definition MarshalObject :: "nat \<Rightarrow> heap \<Rightarrow> string \<Rightarrow> any gomap \<Rightarrow> string enc_res" where
  "MarshalObject fuel h className properties =
     (case alloc (CObj \<lparr>ObjClassName = className, Properties = properties\<rparr>) h of
        (a, h') \<Rightarrow> Encode fuel h' (VObject (Some a)))"

section \<open>The encoder writes the text of the tree\<close>

text \<open>\<open>enc\<close> implements \<open>ab\<close> on a value: it writes exactly the text of the tree, if there is one.\<close>

definition impl :: "(any \<Rightarrow> string enc_res) \<Rightarrow> (any \<Rightarrow> php option) \<Rightarrow> any \<Rightarrow> bool" where
  "impl enc ab v \<longleftrightarrow> (\<forall>s. enc v = Ok s \<longleftrightarrow> map_option ser (ab v) = Some s)"

lemma implD: "impl enc ab v \<Longrightarrow> enc v = Ok s \<longleftrightarrow> (\<exists>t. ab v = Some t \<and> s = ser t)"
  by (auto simp: impl_def)

lemma encodeString_ser [simp]: "encodeString = ser_str"
  by (rule ext) (simp add: encodeString_def ser_str_def)

lemma encodeFloat_ser [simp]: "encodeFloat = ser_float"
  by (rule ext) (simp add: encodeFloat_def ser_float_def)

lemma encode_items_iff:
  assumes "\<And>v. impl enc ab v"
  shows "encode_items enc i vs = Ok s \<longleftrightarrow>
    (\<exists>ts. those (map ab vs) = Some ts \<and>
       s = concat (map (\<lambda>(k, t). ser_key k @ ser t)
             (zip (map (\<lambda>i. KInt (of_nat i)) [i..<i + length ts]) ts)))"
proof (induction vs arbitrary: i s)
  case (Cons v vs)
  have IH: "encode_items enc (Suc i) vs = Ok s \<longleftrightarrow>
    (\<exists>ts. those (map ab vs) = Some ts \<and>
       s = concat (map (\<lambda>(k, t). ser_key k @ ser t)
             (zip (map (\<lambda>i. KInt (of_nat i)) [Suc i..<Suc i + length ts]) ts)))" for s
    using Cons by simp
  have upt: "[i..<Suc (i + n)] = i # [Suc i..<Suc (i + n)]" for n
    by (simp add: upt_conv_Cons)
  show ?case
    using implD [OF assms]
    by (auto simp: IH writeInt_def upt simp del: upt.simps split: option.splits)
qed auto

lemma encode_props_iff:
  assumes "\<And>v. impl enc ab v"
  shows "encode_props enc m ks = Ok s \<longleftrightarrow>
    (\<exists>es. those (map (\<lambda>k. map_option (Pair k) (ab (case map_of m k of None \<Rightarrow> VNil | Some v \<Rightarrow> v))) ks) = Some es \<and>
       s = concat (map (\<lambda>(k, t). ser_str k @ ser t) es))"
proof (induction ks arbitrary: s)
  case (Cons k ks)
  show ?case
    using implD [OF assms] by (auto simp: Cons.IH split: option.splits)
qed auto

lemma abs_entries_alt:
  "abs_entries ab m =
     those (map (\<lambda>k. map_option (Pair k) (ab (case map_of m k of None \<Rightarrow> VNil | Some v \<Rightarrow> v)))
       (sort (map fst m)))"
proof -
  have "(case map_of m k of None \<Rightarrow> VNil | Some v \<Rightarrow> v) = the (map_of m k)" if "k \<in> set (sort (map fst m))" for k
  proof -
    from that have "k \<in> dom (map_of m)" by (simp add: dom_map_of_conv_image_fst)
    then show ?thesis by auto
  qed
  then show ?thesis
    unfolding abs_entries_def sorted_entries_def
    by (auto intro!: arg_cong [of _ _ those] simp: comp_def)
qed

lemma encodeSortedProperties_iff:
  assumes "\<And>v. impl enc ab v"
  shows "encodeSortedProperties enc m = Ok s \<longleftrightarrow>
    (\<exists>es. abs_entries ab m = Some es \<and> s = concat (map (\<lambda>(k, t). ser_str k @ ser t) es))"
  using encode_props_iff [OF assms] by (simp add: encodeSortedProperties_def abs_entries_alt)

lemma abs_entries_length: "abs_entries ab m = Some es \<Longrightarrow> length es = length m"
  by (auto simp: abs_entries_def dest: length_those)

lemma encode_array_items_iff:
  assumes "\<And>v. impl enc ab v"
  shows "encode_array_items enc vals i ks = Ok s \<longleftrightarrow>
    (ks \<noteq> [] \<longrightarrow> i + length ks \<le> length vals) \<and>
    (\<exists>es. those (map (abs_pair ab) (zip ks (drop i vals))) = Some es \<and>
       s = concat (map (\<lambda>(k, t). ser_key k @ ser t) es))"
proof (induction ks arbitrary: i s)
  case (Cons k ks)
  show ?case
  proof (cases "i < length vals")
    case True
    then have d: "drop i vals = vals ! i # drop (Suc i) vals" by (simp add: Cons_nth_drop_Suc)
    have e: "i + length (k # ks) \<le> length vals \<longleftrightarrow> (ks \<noteq> [] \<longrightarrow> Suc i + length ks \<le> length vals)"
      using True by (cases ks) auto
    show ?thesis
      using implD [OF assms] True
      by (cases k) (auto simp: Cons.IH d e abs_pair_def writeInt_def simp del: add_Suc split: option.splits)
  next
    case False
    then show ?thesis by (cases k) auto
  qed
qed auto

lemma encodeSlice_impl:
  assumes "\<And>v. impl enc ab v"
  shows "encodeSlice enc vs = Ok s \<longleftrightarrow> map_option ser (abs_list ab vs) = Some s"
  using encode_items_iff [OF assms, of 0 vs] length_those [of "map ab vs"]
  by (cases "those (map ab vs)") (auto simp: encodeSlice_def abs_list_def index_keys_def)

lemma encodeMap_impl:
  assumes "\<And>v. impl enc ab v"
  shows "encodeMap enc m = Ok s \<longleftrightarrow> map_option ser (abs_map ab m) = Some s"
proof -
  have "concat (map (\<lambda>(k, t). ser_key k @ ser t) (map (\<lambda>(k, t). (KStr k, t)) es)) =
      concat (map (\<lambda>(k, t). ser_str k @ ser t) es)" for es
    by (induction es) auto
  then show ?thesis
    using encodeSortedProperties_iff [OF assms, of m] abs_entries_length [of ab m]
    by (cases "abs_entries ab m") (auto simp: encodeMap_def abs_map_def)
qed

lemma encodeObject_impl:
  assumes "\<And>v. impl enc ab v"
  shows "encodeObject enc ob = Ok s \<longleftrightarrow> map_option ser (abs_obj ab ob) = Some s"
  using encodeSortedProperties_iff [OF assms, of "Properties ob"] abs_entries_length [of ab "Properties ob"]
  by (cases "abs_entries ab (Properties ob)") (auto simp: encodeObject_def abs_obj_def)

lemma encodeArray_impl:
  assumes "\<And>v. impl enc ab v"
  shows "encodeArray enc ar = Ok s \<longleftrightarrow> map_option ser (abs_arr ab ar) = Some s"
proof (cases "length (Keys ar) \<le> length (Values ar)")
  case True
  define es where "es = those (map (abs_pair ab) (zip (Keys ar) (Values ar)))"
  have len: "length e = length (Keys ar)" if "es = Some e" for e
    using that True length_those [of "map (abs_pair ab) (zip (Keys ar) (Values ar))" e]
    by (simp add: es_def)
  have "encode_array_items enc (Values ar) 0 (Keys ar) = Ok r \<longleftrightarrow>
      (\<exists>e. es = Some e \<and> r = concat (map (\<lambda>(k, t). ser_key k @ ser t) e))" for r
    using True by (simp add: encode_array_items_iff [OF assms] es_def)
  with True len show ?thesis
    by (cases es) (auto simp: encodeArray_def abs_arr_def simp flip: es_def)
next
  case False
  then show ?thesis
    by (auto simp: encodeArray_def abs_arr_def encode_array_items_iff [OF assms])
qed

lemma impl_encodeValue: "impl (encodeValue h n) (absv h n) v"
proof (induction n arbitrary: v)
  case (Suc n)
  note conts = encodeSlice_impl encodeMap_impl encodeObject_impl encodeArray_impl
  show ?case
    unfolding impl_def
    by (cases v)
      (auto simp: conts [OF Suc.IH] writeInt_def writeUint_def FormatInt_def encodeEnum_def Let_def
        nat_add_distrib split: option.splits)
qed (simp add: impl_def)

end
