(* ===== verification/Php_Roundtrip.thy ===== *)
theory Php_Roundtrip
  imports Php_Cursor Php_Encoder
begin

text \<open>
  Decoding the serialized text of a PHP tree: the decoder consumes exactly the text, grows
  the heap by fresh cells only, and its value stands for the tree's normal form, in which
  object properties have lost their visibility prefix and are listed by sorted name, the
  last of equal names winning. With the encoder's refinement this gives the round trip.
\<close>

section \<open>Normal forms and what the decoder accepts\<close>

definition strip_entries :: "(string \<times> 'v) list \<Rightarrow> 'v gomap" where
  "strip_entries ps = fold (\<lambda>(k, v). AList.update (stripVisibility k) v) ps []"

fun norm :: "php \<Rightarrow> php" where
  "norm (PArr es) = PArr (map (\<lambda>(k, t). (k, norm t)) es)"
| "norm (PObj c ps) = PObj c (sorted_entries (strip_entries (map (\<lambda>(k, t). (k, norm t)) ps)))"
| "norm t = t"

text \<open>
  The trees whose text the decoder accepts: integers of 64 bits, no NaN payload, arrays
  whose two slices can be allocated, and no colon in the case name of an enum.
\<close>

fun wf_php :: "php \<Rightarrow> bool" where
  "wf_php (PInt n) \<longleftrightarrow> min_int64 \<le> n \<and> n \<le> max_int64"
| "wf_php (PFloat f) \<longleftrightarrow> float_stable f"
| "wf_php (PArr es) \<longleftrightarrow> 16 * int (length es) \<le> maxAlloc \<and> (\<forall>(k, t) \<in> set es. wf_php t)"
| "wf_php (PObj c ps) \<longleftrightarrow> (\<forall>(k, t) \<in> set ps. wf_php t)"
| "wf_php (PEnum c e) \<longleftrightarrow> CHR '':'' \<notin> set e"
| "wf_php t \<longleftrightarrow> True"

fun depth :: "php \<Rightarrow> nat" where
  "depth (PArr es) = foldr max (map (\<lambda>(k, t). Suc (depth t)) es) 0"
| "depth (PObj c ps) = foldr max (map (\<lambda>(k, t). Suc (depth t)) ps) 0"
| "depth t = 0"

lemma foldr_max_less: "foldr max (map f xs) 0 < (n::nat) \<longleftrightarrow> 0 < n \<and> (\<forall>x \<in> set xs. f x < n)"
  by (induction xs) auto

section \<open>Values in a region of the heap\<close>

text \<open>
  \<open>reps b h n v t\<close>: the value stands for the tree in every heap that agrees with \<open>h\<close> on
  the cells from \<open>b\<close> on; later updates below \<open>b\<close> and later allocations cannot matter.
\<close>

definition agree :: "nat \<Rightarrow> heap \<Rightarrow> heap \<Rightarrow> bool" where
  "agree b h h2 \<longleftrightarrow> length h \<le> length h2 \<and> (\<forall>a. b \<le> a \<and> a < length h \<longrightarrow> h2 ! a = h ! a)"

definition reps :: "nat \<Rightarrow> heap \<Rightarrow> nat \<Rightarrow> any \<Rightarrow> php \<Rightarrow> bool" where
  "reps b h n v t \<longleftrightarrow> (\<forall>h2. agree b h h2 \<longrightarrow> absv h2 n v = Some t)"

lemma agree_refl [simp]: "agree b h h"
  by (simp add: agree_def)

lemma agree_weaken:
  "agree b (h @ h1 @ h2) h3 \<Longrightarrow> length h = length h0 \<Longrightarrow> b \<le> length h \<Longrightarrow> agree (length h) (h0 @ h1) h3"
  by (auto simp: agree_def nth_append)

lemma agree_get_arr:
  "agree b h h2 \<Longrightarrow> b \<le> a \<Longrightarrow> a < length h \<Longrightarrow> get_arr h2 a = get_arr h a"
  by (simp add: agree_def get_arr_def)

lemma agree_get_obj:
  "agree b h h2 \<Longrightarrow> b \<le> a \<Longrightarrow> a < length h \<Longrightarrow> get_obj h2 a = get_obj h a"
  by (simp add: agree_def get_obj_def)

lemma reps_mono: "reps b h n v t \<Longrightarrow> n \<le> n' \<Longrightarrow> reps b h n' v t"
  by (auto simp: reps_def intro: absv_mono)

section \<open>What one call of readValue promises on a serialized tree\<close>

definition reads :: "nat \<Rightarrow> php \<Rightarrow> bool" where
  "reads n t \<longleftrightarrow>
     (\<forall>pre rest r h. go_len (pre @ ser t @ rest) \<longrightarrow>
        (\<exists>v r' h'. readValue n (at pre (ser t @ rest) r h) = (Ok v, at (pre @ ser t) rest r' (h @ h')) \<and>
           reps (length h) (h @ h') n v (norm t)))"

lemma readsI:
  assumes "\<And>pre rest r h. go_len (pre @ ser t @ rest) \<Longrightarrow>
    \<exists>v r' h'. readValue n (at pre (ser t @ rest) r h) = (Ok v, at (pre @ ser t) rest r' (h @ h')) \<and>
      reps (length h) (h @ h') n v (norm t)"
  shows "reads n t"
  using assms unfolding reads_def by blast

lemma readsE:
  assumes "reads n t" "go_len (pre @ ser t @ rest)"
  obtains v r' h' where "readValue n (at pre (ser t @ rest) r h) = (Ok v, at (pre @ ser t) rest r' (h @ h'))"
    "reps (length h) (h @ h') n v (norm t)"
  using assms unfolding reads_def by blast

text \<open>The text of an array key.\<close>

lemma readArrayKey_at:
  assumes "go_len (pre @ ser_key k @ rest)"
  obtains v r' where "readArrayKey (at pre (ser_key k @ rest) r h) = (Ok v, at (pre @ ser_key k) rest r' h)"
    "abs_key v = Some k"
proof (cases k)
  case (KInt n)
  with assms that [of "VInt64 n"] show ?thesis
    using readInt_at [of "sint n" pre rest r h] sint_bounds_64 [of n]
    by (simp add: readArrayKey_def)
next
  case (KStr s)
  with assms that [of "VString s"] show ?thesis
    using readString_at [of pre s rest r h] by (simp add: readArrayKey_def ser_str_def)
qed

subsection \<open>Arrays\<close>

abbreviation entries_text :: "(pkey \<times> php) list \<Rightarrow> string" where
  "entries_text es \<equiv> concat (map (\<lambda>(k, t). ser_key k @ ser t) es)"

text \<open>The heap after entries were appended to the array at \<open>a\<close>.\<close>

definition arr_ext :: "heap \<Rightarrow> addr \<Rightarrow> arrayT \<Rightarrow> any list \<Rightarrow> any list \<Rightarrow> heap" where
  "arr_ext h a ar ks vs = h[a := CArr \<lparr>Keys = Keys ar @ ks, Values = Values ar @ vs\<rparr>]"

lemma length_arr_ext [simp]: "length (arr_ext h a ar ks vs) = length h"
  by (simp add: arr_ext_def)

lemma arr_ext_Nil: "a < length h \<Longrightarrow> h ! a = CArr ar \<Longrightarrow> arr_ext h a ar [] [] = h"
  by (simp add: arr_ext_def list_update_same_conv)

lemma arr_ext_twice:
  "a < length h \<Longrightarrow>
   arr_ext (arr_ext h a ar [k] [v] @ h1) a \<lparr>Keys = Keys ar @ [k], Values = Values ar @ [v]\<rparr> ks vs =
     arr_ext h a ar (k # ks) (v # vs) @ h1"
  by (simp add: arr_ext_def list_update_append1)

lemma append_entry_at:
  assumes "a < length h" "h ! a = CArr ar"
  shows "append_entry a k v (at pre rest r (h @ h')) = (Ok (), at pre rest r (arr_ext h a ar [k] [v] @ h'))"
  using assms by (simp add: append_entry_def get_arr_def nth_append list_update_append1 arr_ext_def)

text \<open>One round of the loop: the key, the value, and the entry appended.\<close>

lemma array_entry_at:
  assumes "reads n t" "go_len (pre @ ser_key k @ ser t @ rest)" "a < length h" "h ! a = CArr ar"
  obtains kv v r' h' where
    "array_loop (readValue n) a (Suc m) i (at pre (ser_key k @ ser t @ rest) r h) =
       array_loop (readValue n) a m (Suc i) (at (pre @ ser_key k @ ser t) rest r' (arr_ext h a ar [kv] [v] @ h'))"
    "abs_key kv = Some k" "reps (length h) (h @ h') n v (norm t)"
proof -
  obtain kv r1 where key: "readArrayKey (at pre (ser_key k @ ser t @ rest) r h) =
      (Ok kv, at (pre @ ser_key k) (ser t @ rest) r1 h)" "abs_key kv = Some k"
    using readArrayKey_at [OF assms(2)] .
  obtain v r2 h' where val: "readValue n (at (pre @ ser_key k) (ser t @ rest) r1 h) =
      (Ok v, at ((pre @ ser_key k) @ ser t) rest r2 (h @ h'))" "reps (length h) (h @ h') n v (norm t)"
    using readsE [OF assms(1), of "pre @ ser_key k" rest r1 h] assms(2) by auto
  show thesis
    using key val assms(3,4) by (intro that [where kv = kv and v = v]) (simp_all add: append_entry_at)
qed

lemma array_loop_at:
  assumes "\<forall>(k, t) \<in> set es. reads n t" "go_len (pre @ entries_text es @ rest)"
    "a < length h" "h ! a = CArr ar"
  shows "\<exists>ks vs r' h'.
    array_loop (readValue n) a (length es) i (at pre (entries_text es @ rest) r h) =
      (Ok (), at (pre @ entries_text es) rest r' (arr_ext h a ar ks vs @ h')) \<and>
    length ks = length es \<and> length vs = length es \<and>
    (\<forall>h2. agree (length h) (arr_ext h a ar ks vs @ h') h2 \<longrightarrow>
       those (map (abs_pair (absv h2 n)) (zip ks vs)) = Some (map (\<lambda>(k, t). (k, norm t)) es))"
  using assms
proof (induction es arbitrary: i pre r h ar)
  case Nil
  then show ?case
    by (intro exI [of _ "[]"] exI [of _ r]) (simp add: arr_ext_Nil)
next
  case (Cons e es)
  obtain k t where e: "e = (k, t)" by fastforce
  let ?rest = "entries_text es @ rest"
  have len: "go_len (pre @ ser_key k @ ser t @ ?rest)" and t: "reads n t"
    using Cons.prems(1,2) by (auto simp: e)
  obtain kv v r1 h1 where step:
    "array_loop (readValue n) a (Suc (length es)) i (at pre (ser_key k @ ser t @ ?rest) r h) =
       array_loop (readValue n) a (length es) (Suc i)
         (at (pre @ ser_key k @ ser t) ?rest r1 (arr_ext h a ar [kv] [v] @ h1))"
    "abs_key kv = Some k" "reps (length h) (h @ h1) n v (norm t)"
    using array_entry_at [OF t len Cons.prems(3,4)] by metis
  let ?h = "arr_ext h a ar [kv] [v] @ h1"
  let ?ar = "\<lparr>Keys = Keys ar @ [kv], Values = Values ar @ [v]\<rparr>"
  have "a < length ?h" "?h ! a = CArr ?ar"
    using Cons.prems(3) by (simp_all add: arr_ext_def nth_append)
  then obtain ks vs r' h2 where IH:
    "array_loop (readValue n) a (length es) (Suc i) (at (pre @ ser_key k @ ser t) ?rest r1 ?h) =
       (Ok (), at ((pre @ ser_key k @ ser t) @ entries_text es) rest r' (arr_ext ?h a ?ar ks vs @ h2))"
    "length ks = length es" "length vs = length es"
    "\<And>h3. agree (length ?h) (arr_ext ?h a ?ar ks vs @ h2) h3 \<Longrightarrow>
       those (map (abs_pair (absv h3 n)) (zip ks vs)) = Some (map (\<lambda>(k, t). (k, norm t)) es)"
    using Cons.IH [of "pre @ ser_key k @ ser t" ?h ?ar "Suc i" r1] Cons.prems(1) len by auto
  note H = arr_ext_twice [OF Cons.prems(3)]
  let ?H = "arr_ext h a ar (kv # ks) (v # vs) @ h1 @ h2"
  have "those (map (abs_pair (absv h3 n)) (zip (kv # ks) (v # vs))) = Some (map (\<lambda>(k, t). (k, norm t)) (e # es))"
    if ag: "agree (length h) ?H h3" for h3
  proof -
    have "absv h3 n v = Some (norm t)"
      using step(3) agree_weaken [of "length h" _ h1 h2 h3 h, OF ag] by (simp add: reps_def)
    moreover have "agree (length ?h) (arr_ext ?h a ?ar ks vs @ h2) h3"
      using ag by (simp add: agree_def H)
    ultimately show ?thesis using IH(4) step(2) by (simp add: abs_pair_def e)
  qed
  then show ?case
    using step(1) IH(1-3)
    by (intro exI [of _ "kv # ks"] exI [of _ "v # vs"] exI [of _ r'] exI [of _ "h1 @ h2"]) (simp add: e H)
qed

lemma readArray_at:
  assumes "\<forall>(k, t) \<in> set es. reads n t" "16 * int (length es) \<le> maxAlloc"
    "go_len (pre @ ser (PArr es) @ rest)"
  shows "\<exists>v r' h'. readArray (readValue n) (at pre (ser (PArr es) @ rest) r h) =
      (Ok v, at (pre @ ser (PArr es)) rest r' (h @ h')) \<and>
    reps (length h) (h @ h') (Suc n) v (norm (PArr es))"
proof -
  let ?c = "int (length es)" and ?e = "\<lparr>Keys = [], Values = []\<rparr>" and ?a = "length h"
  let ?p = "pre @ ''a:'' @ FormatInt ?c @ '':{''"
  let ?h = "h @ [CArr ?e]"
  have len: "go_len (?p @ entries_text es @ ''}'' @ rest)" using assms(3) by simp
  obtain ks vs r' h' where loop:
    "array_loop (readValue n) ?a (length es) 0 (at ?p (entries_text es @ ''}'' @ rest) (r @ [VArray (Some ?a)]) ?h) =
      (Ok (), at (?p @ entries_text es) (''}'' @ rest) r' (arr_ext ?h ?a ?e ks vs @ h'))"
    "length ks = length es" "length vs = length es"
    "\<And>h2. agree (length ?h) (arr_ext ?h ?a ?e ks vs @ h') h2 \<Longrightarrow>
       those (map (abs_pair (absv h2 n)) (zip ks vs)) = Some (map (\<lambda>(k, t). (k, norm t)) es)"
    using array_loop_at [OF assms(1) len, of ?a ?h ?e 0 "r @ [VArray (Some ?a)]"] by (auto simp del: at_sel)
  have H: "arr_ext ?h ?a ?e ks vs @ h' = h @ CArr \<lparr>Keys = ks, Values = vs\<rparr> # h'"
    by (simp add: arr_ext_def)
  have "?c \<le> max_int64" "make_slice_cap ?c d = (Ok (), d)" for d
    using assms(2) by (simp_all add: make_slice_cap_def maxAlloc_def)
  then have "readArray (readValue n) (at pre (ser (PArr es) @ rest) r h) =
      (Ok (VArray (Some ?a)), at (pre @ ser (PArr es)) rest r' (h @ CArr \<lparr>Keys = ks, Values = vs\<rparr> # h'))"
    using loop(1) len by (simp add: readArray_def cursor H)
  moreover have "reps ?a (h @ CArr \<lparr>Keys = ks, Values = vs\<rparr> # h') (Suc n) (VArray (Some ?a)) (norm (PArr es))"
    unfolding reps_def
  proof (intro allI impI)
    fix h2 assume ag: "agree ?a (h @ CArr \<lparr>Keys = ks, Values = vs\<rparr> # h') h2"
    have "get_arr h2 ?a = Some \<lparr>Keys = ks, Values = vs\<rparr>"
      using agree_get_arr [OF ag, of ?a] by (simp add: get_arr_def)
    moreover have "agree (length ?h) (arr_ext ?h ?a ?e ks vs @ h') h2"
      using ag by (simp add: H agree_def)
    ultimately show "absv h2 (Suc n) (VArray (Some ?a)) = Some (norm (PArr es))"
      using loop(2-4) by (simp add: abs_arr_def)
  qed
  ultimately show ?thesis by blast
qed

subsection \<open>Objects\<close>

abbreviation props_text :: "(string \<times> php) list \<Rightarrow> string" where
  "props_text ps \<equiv> concat (map (\<lambda>(k, t). ser_str k @ ser t) ps)"

abbreviation norm_props :: "(string \<times> php) list \<Rightarrow> php gomap \<Rightarrow> php gomap" where
  "norm_props ps m \<equiv> fold (\<lambda>(k, t). AList.update (stripVisibility k) (norm t)) ps m"

text \<open>A property map and the map of its trees, entry by entry.\<close>

definition ents :: "(any \<Rightarrow> php option) \<Rightarrow> any gomap \<Rightarrow> php gomap \<Rightarrow> bool" where
  "ents ab m ts \<longleftrightarrow> list_all2 (\<lambda>(k, v) (k', t). k = k' \<and> ab v = Some t) m ts"

lemma ents_update: "ents ab m ts \<Longrightarrow> ab v = Some t \<Longrightarrow> ents ab (AList.update k v m) (AList.update k t ts)"
  unfolding ents_def by (induction rule: list_all2_induct) auto

lemma ents_map_of: "ents ab m ts \<Longrightarrow> rel_option (\<lambda>v t. ab v = Some t) (map_of m k) (map_of ts k)"
  unfolding ents_def by (induction rule: list_all2_induct) auto

lemma ents_keys: "ents ab m ts \<Longrightarrow> map fst m = map fst ts"
  unfolding ents_def by (induction rule: list_all2_induct) auto

lemma abs_entries_ents:
  assumes "ents ab m ts"
  shows "abs_entries ab m = Some (sorted_entries ts)"
proof -
  have "ab (the (map_of m k)) = Some (the (map_of ts k))" if "k \<in> set (map fst m)" for k
  proof -
    from that have "map_of m k \<noteq> None" by (simp add: map_of_eq_None_iff)
    with ents_map_of [OF assms, of k] show ?thesis by (auto elim!: option.rel_cases)
  qed
  then show ?thesis
    unfolding abs_entries_def those_map_Some_iff sorted_entries_def ents_keys [OF assms, symmetric]
    by (auto simp: list_all2_map1 list_all2_map2 intro: list.rel_refl_strong)
qed

definition obj_ext :: "heap \<Rightarrow> addr \<Rightarrow> objectT \<Rightarrow> any gomap \<Rightarrow> heap" where
  "obj_ext h a ob m = h[a := CObj (ob\<lparr>Properties := m\<rparr>)]"

lemma length_obj_ext [simp]: "length (obj_ext h a ob m) = length h"
  by (simp add: obj_ext_def)

lemma obj_ext_same: "a < length h \<Longrightarrow> h ! a = CObj ob \<Longrightarrow> obj_ext h a ob (Properties ob) = h"
  by (simp add: obj_ext_def list_update_same_conv)

lemma obj_ext_twice:
  "a < length h \<Longrightarrow> obj_ext (obj_ext h a ob m1 @ h1) a (ob\<lparr>Properties := m1\<rparr>) m = obj_ext h a ob m @ h1"
  by (simp add: obj_ext_def list_update_append1)

lemma set_prop_at:
  assumes "a < length h" "h ! a = CObj ob"
  shows "set_prop a k v (at pre rest r (h @ h')) =
    (Ok (), at pre rest r (obj_ext h a ob (AList.update k v (Properties ob)) @ h'))"
  using assms by (simp add: set_prop_def get_obj_def nth_append list_update_append1 obj_ext_def)

lemma object_entry_at:
  assumes "reads n t" "go_len (pre @ ser_str k @ ser t @ rest)" "a < length h" "h ! a = CObj ob"
  obtains v r' h' where
    "object_loop (readValue n) a (Suc m) i (at pre (ser_str k @ ser t @ rest) r h) =
       object_loop (readValue n) a m (Suc i) (at (pre @ ser_str k @ ser t) rest r'
         (obj_ext h a ob (AList.update (stripVisibility k) v (Properties ob)) @ h'))"
    "reps (length h) (h @ h') n v (norm t)"
proof -
  note key = readString_at [OF assms(2), of r h]
  obtain v r2 h' where val: "readValue n (at (pre @ ser_str k) (ser t @ rest) (r @ [VString k]) h) =
      (Ok v, at ((pre @ ser_str k) @ ser t) rest r2 (h @ h'))" "reps (length h) (h @ h') n v (norm t)"
    using readsE [OF assms(1), of "pre @ ser_str k" rest "r @ [VString k]" h] assms(2) by auto
  show thesis
    using key val assms(3,4) by (intro that [where v = v]) (simp_all add: set_prop_at Let_def)
qed

lemma object_loop_at:
  assumes "\<forall>(k, t) \<in> set ps. reads n t" "go_len (pre @ props_text ps @ rest)"
    "a < length h" "h ! a = CObj ob"
  shows "\<exists>m r' h'.
    object_loop (readValue n) a (length ps) i (at pre (props_text ps @ rest) r h) =
      (Ok (), at (pre @ props_text ps) rest r' (obj_ext h a ob m @ h')) \<and>
    (\<forall>h2 ts. agree (length h) (obj_ext h a ob m @ h') h2 \<longrightarrow> ents (absv h2 n) (Properties ob) ts \<longrightarrow>
       ents (absv h2 n) m (norm_props ps ts))"
  using assms
proof (induction ps arbitrary: i pre r h ob)
  case Nil
  then show ?case
    by (intro exI [of _ "Properties ob"] exI [of _ r] exI [of _ "[]"]) (simp add: obj_ext_same)
next
  case (Cons p ps)
  obtain k t where p: "p = (k, t)" by fastforce
  let ?rest = "props_text ps @ rest"
  have len: "go_len (pre @ ser_str k @ ser t @ ?rest)" and t: "reads n t"
    using Cons.prems(1,2) by (auto simp: p)
  obtain v r1 h1 where step:
    "object_loop (readValue n) a (Suc (length ps)) i (at pre (ser_str k @ ser t @ ?rest) r h) =
       object_loop (readValue n) a (length ps) (Suc i) (at (pre @ ser_str k @ ser t) ?rest r1
         (obj_ext h a ob (AList.update (stripVisibility k) v (Properties ob)) @ h1))"
    "reps (length h) (h @ h1) n v (norm t)"
    using object_entry_at [OF t len Cons.prems(3,4)] by metis
  let ?m = "AList.update (stripVisibility k) v (Properties ob)"
  let ?h = "obj_ext h a ob ?m @ h1" and ?ob = "ob\<lparr>Properties := ?m\<rparr>"
  have "a < length ?h" "?h ! a = CObj ?ob"
    using Cons.prems(3) by (simp_all add: obj_ext_def nth_append)
  then obtain m r' h2 where IH:
    "object_loop (readValue n) a (length ps) (Suc i) (at (pre @ ser_str k @ ser t) ?rest r1 ?h) =
       (Ok (), at ((pre @ ser_str k @ ser t) @ props_text ps) rest r' (obj_ext ?h a ?ob m @ h2))"
    "\<And>h3 ts. agree (length ?h) (obj_ext ?h a ?ob m @ h2) h3 \<Longrightarrow> ents (absv h3 n) ?m ts \<Longrightarrow>
       ents (absv h3 n) m (norm_props ps ts)"
    using Cons.IH [of "pre @ ser_str k @ ser t" ?h ?ob "Suc i" r1] Cons.prems(1) len by auto
  note H = obj_ext_twice [OF Cons.prems(3)]
  let ?H = "obj_ext h a ob m @ h1 @ h2"
  have "ents (absv h3 n) m (norm_props (p # ps) ts)"
    if ag: "agree (length h) ?H h3" and en: "ents (absv h3 n) (Properties ob) ts" for h3 ts
  proof -
    have "absv h3 n v = Some (norm t)"
      using step(2) agree_weaken [of "length h" _ h1 h2 h3 h, OF ag] by (simp add: reps_def)
    then have "ents (absv h3 n) ?m (AList.update (stripVisibility k) (norm t) ts)"
      using en by (simp add: ents_update)
    moreover have "agree (length ?h) (obj_ext ?h a ?ob m @ h2) h3"
      using ag by (simp add: agree_def H)
    ultimately show ?thesis using IH(2) by (simp add: p)
  qed
  then show ?case
    using step(1) IH(1)
    by (intro exI [of _ m] exI [of _ r'] exI [of _ "h1 @ h2"]) (simp add: p H)
qed

lemma norm_props_strip: "norm_props ps [] = strip_entries (map (\<lambda>(k, t). (k, norm t)) ps)"
  by (simp add: strip_entries_def fold_map comp_def case_prod_unfold)

lemma readObject_at:
  assumes "\<forall>(k, t) \<in> set ps. reads n t" "go_len (pre @ ser (PObj c ps) @ rest)"
  shows "\<exists>v r' h'. readObject (readValue n) (at pre (ser (PObj c ps) @ rest) r h) =
      (Ok v, at (pre @ ser (PObj c ps)) rest r' (h @ h')) \<and>
    reps (length h) (h @ h') (Suc n) v (norm (PObj c ps))"
proof -
  let ?e = "\<lparr>ObjClassName = c, Properties = []\<rparr>" and ?a = "length h"
  let ?p = "pre @ ''O:'' @ FormatInt (int (length c)) @ '':'' @ [dq] @ c @ [dq] @ '':'' @
    FormatInt (int (length ps)) @ '':{''"
  let ?h = "h @ [CObj ?e]"
  have len: "go_len (?p @ props_text ps @ ''}'' @ rest)" using assms(2) by simp
  obtain m r' h' where loop:
    "object_loop (readValue n) ?a (length ps) 0 (at ?p (props_text ps @ ''}'' @ rest) (r @ [VObject (Some ?a)]) ?h) =
      (Ok (), at (?p @ props_text ps) (''}'' @ rest) r' (obj_ext ?h ?a ?e m @ h'))"
    "\<And>h2. agree (length ?h) (obj_ext ?h ?a ?e m @ h') h2 \<Longrightarrow>
       ents (absv h2 n) m (strip_entries (map (\<lambda>(k, t). (k, norm t)) ps))"
    using object_loop_at [OF assms(1) len, of ?a ?h ?e 0 "r @ [VObject (Some ?a)]"]
    by (force simp: ents_def norm_props_strip simp del: at_sel)
  have H: "obj_ext ?h ?a ?e m @ h' = h @ CObj \<lparr>ObjClassName = c, Properties = m\<rparr> # h'"
    by (simp add: obj_ext_def)
  have "length ps \<le> length (props_text ps)"
    by (induction ps) (auto simp: ser_str_def)
  then have "int (length c) \<le> max_int64" "int (length ps) \<le> max_int64"
    using len by (simp_all add: go_len_def maxAlloc_def)
  then have "readObject (readValue n) (at pre (ser (PObj c ps) @ rest) r h) =
      (Ok (VObject (Some ?a)),
       at (pre @ ser (PObj c ps)) rest r' (h @ CObj \<lparr>ObjClassName = c, Properties = m\<rparr> # h'))"
    using loop(1) len by (simp add: readObject_def cursor H)
  moreover have "reps ?a (h @ CObj \<lparr>ObjClassName = c, Properties = m\<rparr> # h') (Suc n)
      (VObject (Some ?a)) (norm (PObj c ps))"
    unfolding reps_def
  proof (intro allI impI)
    fix h2 assume ag: "agree ?a (h @ CObj \<lparr>ObjClassName = c, Properties = m\<rparr> # h') h2"
    have "get_obj h2 ?a = Some \<lparr>ObjClassName = c, Properties = m\<rparr>"
      using agree_get_obj [OF ag, of ?a] by (simp add: get_obj_def)
    moreover have "agree (length ?h) (obj_ext ?h ?a ?e m @ h') h2"
      using ag by (simp add: H agree_def)
    ultimately show "absv h2 (Suc n) (VObject (Some ?a)) = Some (norm (PObj c ps))"
      using loop(2) by (simp add: abs_obj_def abs_entries_ents)
  qed
  ultimately show ?thesis by blast
qed

section \<open>Every well-formed tree is read\<close>

text \<open>Scalars allocate nothing and stand for the same tree in every heap.\<close>

lemma reads_scalar:
  assumes "\<And>pre rest r h. go_len (pre @ ser t @ rest) \<Longrightarrow>
      \<exists>r'. readValue (Suc n) (at pre (ser t @ rest) r h) = (Ok v, at (pre @ ser t) rest r' h)"
    and "\<And>h. absv h (Suc n) v = Some (norm t)"
  shows "reads (Suc n) t"
proof (rule readsI)
  fix pre rest r and h :: heap
  assume "go_len (pre @ ser t @ rest)"
  then obtain r' where "readValue (Suc n) (at pre (ser t @ rest) r h) = (Ok v, at (pre @ ser t) rest r' (h @ []))"
    using assms(1) by fastforce
  moreover have "reps (length h) (h @ []) (Suc n) v (norm t)"
    using assms(2) by (simp add: reps_def)
  ultimately show "\<exists>v r' h'. readValue (Suc n) (at pre (ser t @ rest) r h) =
      (Ok v, at (pre @ ser t) rest r' (h @ h')) \<and> reps (length h) (h @ h') (Suc n) v (norm t)"
    by blast
qed

text \<open>The first byte of the text selects the method.\<close>

lemma readValue_dispatch:
  "readValue (Suc n) (at pre (ser (PArr es) @ rest) r h) = readArray (readValue n) (at pre (ser (PArr es) @ rest) r h)"
  "readValue (Suc n) (at pre (ser (PObj c ps) @ rest) r h) = readObject (readValue n) (at pre (ser (PObj c ps) @ rest) r h)"
  "readValue (Suc n) (at pre (ser (PEnum c e) @ rest) r h) = readEnum (at pre (ser (PEnum c e) @ rest) r h)"
  "readValue (Suc n) (at pre (ser (PFloat f) @ rest) r h) = readFloat (at pre (ser (PFloat f) @ rest) r h)"
  "readValue (Suc n) (at pre (ser (PBool b) @ rest) r h) = readBool (at pre (ser (PBool b) @ rest) r h)"
  "readValue (Suc n) (at pre (ser PNull @ rest) r h) = readNull (at pre (ser PNull @ rest) r h)"
  "readValue (Suc n) (at pre (ser (PInt i) @ rest) r h) = readInt (at pre (ser (PInt i) @ rest) r h)"
  "readValue (Suc n) (at pre (ser (PString s) @ rest) r h) =
     dbind readString (\<lambda>s. dret (VString s)) (at pre (ser_str s @ rest) r h)"
  by (simp_all add: Let_def ser_str_def ser_float_def)

lemma reads_leaf:
  assumes "wf_php t" "\<And>es. t \<noteq> PArr es" "\<And>c ps. t \<noteq> PObj c ps"
  shows "reads (Suc n) t"
proof (cases t)
  case PNull
  then show ?thesis
    by (intro reads_scalar [where v = VNil]) (simp_all only: readValue_dispatch readNull_at, simp_all)
next
  case (PBool b)
  then show ?thesis
    by (intro reads_scalar [where v = "VBool b"]) (simp_all only: readValue_dispatch readBool_at, simp_all)
next
  case (PInt i)
  with assms(1) show ?thesis
    using readInt_at [of i]
    by (intro reads_scalar [where v = "VInt64 (word_of_int i)"]) (simp_all only: readValue_dispatch, simp_all del: readValue.simps)
next
  case (PFloat f)
  with assms(1) show ?thesis
    by (intro reads_scalar [where v = "VFloat64 f"])
      (simp_all only: readValue_dispatch readFloat_at wf_php.simps, simp_all)
next
  case (PString s)
  then show ?thesis
    by (intro reads_scalar [where v = "VString s"])
      (simp_all only: readValue_dispatch, simp_all add: readString_at del: readValue.simps)
next
  case (PEnum c e)
  with assms(1) show ?thesis
    by (intro reads_scalar [where v = "VEnum (Some \<lparr>EnumClassName = c, CaseName = e\<rparr>)"])
      (simp_all only: readValue_dispatch readEnum_at wf_php.simps Let_def not_False_eq_True, simp_all)
qed (use assms in auto)

lemma reads_wf: "wf_php t \<Longrightarrow> depth t < n \<Longrightarrow> reads n t"
proof (induction t arbitrary: n rule: ser.induct)
  case (6 es)
  then obtain m where m: "n = Suc m" by (cases n) auto
  with 6 have "\<forall>(k, t) \<in> set es. reads m t"
    by (fastforce simp: foldr_max_less)
  with 6 show ?case
    unfolding m by (intro readsI, subst readValue_dispatch, intro readArray_at) auto
next
  case (7 c ps)
  then obtain m where m: "n = Suc m" by (cases n) auto
  with 7 have "\<forall>(k, t) \<in> set ps. reads m t"
    by (fastforce simp: foldr_max_less)
  then show ?case
    unfolding m by (intro readsI, subst readValue_dispatch, intro readObject_at) auto
qed (use reads_leaf in \<open>(metis less_imp_Suc_add php.distinct)+\<close>)

section \<open>Decoding and the round trip\<close>

text \<open>Decoding the text of a tree, with whatever follows it, gives the tree's normal form.\<close>

lemma Decode_ser:
  assumes "wf_php t" "depth t < n" "go_len (ser t @ rest)"
  obtains v h where "Decode n (ser t @ rest) = Ok (v, h)" "absv h n v = Some (norm t)"
proof -
  obtain v r' h where "readValue n (at [] (ser t @ rest) [] []) = (Ok v, at ([] @ ser t) rest r' ([] @ h))"
    "reps 0 ([] @ h) n v (norm t)"
    using readsE [OF reads_wf [OF assms(1,2)], of "[]" rest "[]" "[]"] assms(3) by auto
  then show thesis
    by (intro that [of v h]) (auto simp: Decode_def init_decoder_at reps_def)
qed

text \<open>
  A tree is stable when the decoder gives it back unchanged: its objects list distinct
  names in sorted order, without visibility prefixes.
\<close>

fun stable :: "php \<Rightarrow> bool" where
  "stable (PArr es) \<longleftrightarrow> (\<forall>(k, t) \<in> set es. stable t)"
| "stable (PObj c ps) \<longleftrightarrow>
     sorted (map fst ps) \<and> distinct (map fst ps) \<and>
     (\<forall>(k, t) \<in> set ps. stripVisibility k = k \<and> stable t)"
| "stable t \<longleftrightarrow> True"

lemma strip_entries_id:
  assumes "distinct (map fst ps)" "\<forall>(k, v) \<in> set ps. stripVisibility k = k"
  shows "strip_entries ps = ps"
proof -
  have "fold (\<lambda>(k, v). AList.update (stripVisibility k) v) ps m = m @ ps"
    if "fst ` set m \<inter> fst ` set ps = {}" for m
    using that assms
  proof (induction ps arbitrary: m)
    case (Cons p ps)
    then have "AList.update (fst p) (snd p) m = m @ [p]" by (auto simp: update_fresh)
    moreover have "fold (\<lambda>(k, v). AList.update (stripVisibility k) v) ps (m @ [p]) = (m @ [p]) @ ps"
      using Cons.prems by (intro Cons.IH) auto
    ultimately show ?case using Cons.prems(3) by (auto simp: case_prod_unfold)
  qed simp
  from this [of "[]"] show ?thesis by (simp add: strip_entries_def)
qed

lemma norm_stable: "stable t \<Longrightarrow> norm t = t"
proof (induction t rule: ser.induct)
  case (6 es)
  then have "map (\<lambda>(k, t). (k, norm t)) es = es" by (intro map_idI) auto
  then show ?case by simp
next
  case (7 c ps)
  then have "map (\<lambda>(k, t). (k, norm t)) ps = ps" by (intro map_idI) auto
  with 7 show ?case
    by (auto simp: strip_entries_id sorted_entries_sorted split_beta)
qed auto

lemma abs_entries_keys: "abs_entries ab m = Some es \<Longrightarrow> map fst es = sort (map fst m)"
proof -
  assume a: "abs_entries ab m = Some es"
  have "map fst es = map fst (sorted_entries m)"
    using a unfolding abs_entries_def those_map_Some_iff
    by (induction rule: list_all2_induct) auto
  then show ?thesis by simp
qed

end
