(* ===== verification/Php_Limits.thy ===== *)
theory Php_Limits
  imports Php_Roundtrip
begin

text \<open>
  Where the decoder and the encoder leave the safe region: negative lengths and counts,
  a negative data length that moves the cursor backwards, arrays that contain themselves,
  and unsigned integers that PHP's integer type has no room for.
\<close>

section \<open>Negative lengths\<close>

lemma readLength_any_at:
  assumes "min_int64 \<le> n" "n \<le> max_int64"
  shows "readLength (at pre (FormatInt n @ CHR '':'' # rest) r h) =
    (Ok n, at (pre @ FormatInt n) (CHR '':'' # rest) r h)"
  using assms by (simp add: readLength_def readUntil_at ParseInt_FormatInt)

lemma readBytes_negative:
  assumes "go_len (pre @ rest)" "min_int64 \<le> k" "k < 0"
  shows "readBytes err k (at pre rest r h) = (Panic SliceBounds, at pre rest r h)"
proof -
  have "wrap64 (int (length pre) + k) = int (length pre) + k"
    using assms by (intro wrap64_id) (auto simp: go_len_def maxAlloc_def)
  with assms show ?thesis by (simp add: readBytes_def beyond_def go_slice_def)
qed

lemma Decode_at: "readValue n (at [] s [] []) = (Panic p, d) \<Longrightarrow> Decode n s = Panic p"
  by (simp add: Decode_def init_decoder_at)

lemma Decode_negative_string:
  assumes "min_int64 \<le> k" "k < 0" "go_len (''s:'' @ FormatInt k @ '':'' @ [dq] @ rest)"
  shows "Decode (Suc n) (''s:'' @ FormatInt k @ '':'' @ [dq] @ rest) = Panic SliceBounds"
proof (rule Decode_at)
  have "readBytes err k (at (''s:'' @ FormatInt k @ '':'' @ [dq]) rest r h) =
      (Panic SliceBounds, at (''s:'' @ FormatInt k @ '':'' @ [dq]) rest r h)" for err r h
    using assms by (intro readBytes_negative) auto
  with assms show "readValue (Suc n) (at [] (''s:'' @ FormatInt k @ '':'' @ [dq] @ rest) [] []) =
      (Panic SliceBounds, at (''s:'' @ FormatInt k @ '':'' @ [dq]) rest [] [])"
    by (simp add: readString_def cursor readLength_any_at)
qed

lemma Decode_negative_array:
  assumes "min_int64 \<le> k" "k < 0" "go_len (''a:'' @ FormatInt k @ '':{'' @ rest)"
  shows "Decode (Suc n) (''a:'' @ FormatInt k @ '':{'' @ rest) = Panic MakeSliceCap"
proof (rule Decode_at)
  show "readValue (Suc n) (at [] (''a:'' @ FormatInt k @ '':{'' @ rest) [] []) =
      (Panic MakeSliceCap, at (''a:'' @ FormatInt k @ '':{'') rest [] [])"
    using assms by (simp add: readArray_def cursor readLength_any_at make_slice_cap_def)
qed

section \<open>A data length that moves the cursor backwards\<close>

text \<open>
  Inside the inner array, the custom object with data length -27 puts the cursor back in
  front of the array it is in, so every round nests one level deeper.
\<close>

definition bomb :: string where
  "bomb = ''a:2:{i:0;a:0:{}i:1;a:2:{i:0;C:1:'' @ [dq] @ ''x'' @ [dq] @ '':-27:{''"

abbreviation in_bomb :: "int \<Rightarrow> any list \<Rightarrow> heap \<Rightarrow> decoder" where
  "in_bomb p r h \<equiv> \<lparr>data = bomb, pos = p, refs = r, hp = h\<rparr>"

lemma FormatInt_digits:
  "FormatInt 0 = ''0''" "FormatInt 1 = ''1''" "FormatInt 2 = ''2''" "FormatInt (- 27) = ''-27''"
  by code_simp+

lemma bomb_numbers:
  "ParseInt ''2'' = Inr 2" "ParseInt ''1'' = Inr 1" "ParseInt ''0'' = Inr 0" "ParseInt ''-27'' = Inr (- 27)"
  using ParseInt_FormatInt [of 0] ParseInt_FormatInt [of 1] ParseInt_FormatInt [of 2] ParseInt_FormatInt [of "- 27"]
  unfolding FormatInt_digits by simp_all

lemmas bomb_eval = bomb_numbers bomb_def expect_def require_def beyond_def go_slice_def readUntil_def readLength_def
  readBytes_def skip_def push_ref_def new_cell_def alloc_def wrap64_def dbind_def Let_def dfail_def dret_def

lemma bomb_custom:
  "readCustomObject (in_bomb 28 r h) =
     (Ok (VObject (Some (length h))),
      in_bomb 15 (r @ [VObject (Some (length h))]) (h @ [CObj \<lparr>ObjClassName = ''x'', Properties = []\<rparr>]))"
  by (simp add: readCustomObject_def bomb_eval)

lemma bomb_keys:
  "readArrayKey (in_bomb 24 r h) = (Ok (VInt64 0), in_bomb 28 (r @ [VInt64 0]) h)"
  "readArrayKey (in_bomb 15 r h) = (Ok (VInt64 1), in_bomb 19 (r @ [VInt64 1]) h)"
  "readArrayKey (in_bomb 5 r h) = (Ok (VInt64 0), in_bomb 9 (r @ [VInt64 0]) h)"
  by (simp_all add: readArrayKey_def readInt_def bomb_eval)

lemma bomb_byte:
  "length bomb = 41" "bomb ! 0 = CHR ''a''" "bomb ! 9 = CHR ''a''" "bomb ! 19 = CHR ''a''" "bomb ! 28 = CHR ''C''"
  by (simp_all add: bomb_def)

lemma bomb_empty_array:
  "readArray rv (in_bomb 9 r h) =
     (Ok (VArray (Some (length h))),
      in_bomb 15 (r @ [VArray (Some (length h))]) (h @ [CArr \<lparr>Keys = [], Values = []\<rparr>]))"
  by (simp add: readArray_def make_slice_cap_def maxAlloc_def bomb_eval)

text \<open>Both two-element arrays of the text: the elements, then the closing brace.\<close>

lemma bomb_array:
  assumes "p = 0 \<or> p = 19"
  shows "readArray rv (in_bomb p r h) =
    dbind (array_loop rv (length h) 2 0) (\<lambda>_.
    dbind (require ''} after array'' ''}'') (\<lambda>_. dret (VArray (Some (length h)))))
    (in_bomb (p + 5) (r @ [VArray (Some (length h))]) (h @ [CArr \<lparr>Keys = [], Values = []\<rparr>]))"
  using assms
  by (elim disjE) (simp_all add: readArray_def make_slice_cap_def maxAlloc_def bomb_numbers bomb_def expect_def
      require_def beyond_def go_slice_def readUntil_def readLength_def push_ref_def new_cell_def alloc_def wrap64_def Let_def)

text \<open>Reading the inner array never returns, whatever the fuel.\<close>

lemma bomb_inner: "fst (readValue n (in_bomb 19 r h)) = Fuel"
proof (induction n arbitrary: r h)
  case (Suc n)
  show ?case
  proof (cases n)
    case 0
    then show ?thesis
      by (simp add: Let_def bomb_byte bomb_array numeral_2_eq_2 bomb_keys)
  next
    case (Suc m)
    let ?a = "length h"
    let ?h = "h @ [CArr \<lparr>Keys = [], Values = []\<rparr>, CObj \<lparr>ObjClassName = ''x'', Properties = []\<rparr>]"
    let ?h' = "?h[?a := CArr \<lparr>Keys = [VInt64 0], Values = [VObject (Some (Suc ?a))]\<rparr>]"
    have "get_arr ?h ?a = Some \<lparr>Keys = [], Values = []\<rparr>"
      by (simp add: get_arr_def nth_append)
    moreover have "readValue n (in_bomb 28 r' h0) = readCustomObject (in_bomb 28 r' h0)" for r' h0
      by (simp add: Suc bomb_byte)
    moreover obtain d where "readValue n (in_bomb 19
        (r @ [VArray (Some ?a), VInt64 0, VObject (Some (Suc ?a)), VInt64 1]) ?h') = (Fuel, d)"
      using Suc.IH by (metis prod.collapse)
    ultimately show ?thesis
      by (simp add: Let_def bomb_byte bomb_array numeral_2_eq_2 bomb_keys bomb_custom append_entry_def)
  qed
qed simp

lemma bomb_diverges: "Decode n bomb = Fuel"
proof -
  have "fst (readValue n (in_bomb 0 [] [])) = Fuel"
  proof (cases n)
    case (Suc m)
    let ?h' = "[CArr \<lparr>Keys = [VInt64 0], Values = [VArray (Some 1)]\<rparr>, CArr \<lparr>Keys = [], Values = []\<rparr>]"
    obtain d where d: "readValue m (in_bomb 19 [VArray (Some 0), VInt64 0, VArray (Some 1), VInt64 1] ?h') = (Fuel, d)"
      using bomb_inner by (metis prod.collapse)
    show ?thesis
    proof (cases "m = 0")
      case True
      with Suc show ?thesis
        by (simp add: Let_def bomb_byte bomb_array numeral_2_eq_2 bomb_keys)
    next
      case False
      then have "readValue m (in_bomb 9 r h) = readArray (readValue (m - 1)) (in_bomb 9 r h)" for r h
        by (cases m) (simp_all add: bomb_byte)
      with d show ?thesis
        by (simp add: Suc Let_def bomb_byte bomb_array numeral_2_eq_2 bomb_keys bomb_empty_array append_entry_def get_arr_def)
    qed
  qed simp
  then show ?thesis
    by (auto simp: Decode_def init_decoder_def split: prod.splits)
qed

section \<open>An array that contains itself\<close>

abbreviation loop_text :: string where
  "loop_text \<equiv> ''a:1:{i:0;R:1;}''"

abbreviation loop_heap :: heap where
  "loop_heap \<equiv> [CArr \<lparr>Keys = [VInt64 0], Values = [VArray (Some 0)]\<rparr>]"

lemma loop_decodes: "Decode (n + 2) loop_text = Ok (VArray (Some 0), loop_heap)"
  by (simp add: Decode_def init_decoder_def readArray_def readReference_def make_slice_cap_def maxAlloc_def
      bomb_numbers expect_def require_def beyond_def go_slice_def readUntil_def readLength_def skip_def push_ref_def
      new_cell_def alloc_def wrap64_def dbind_def dwrap_def Let_def readArrayKey_def readInt_def append_entry_def get_arr_def)

lemma loop_encode: "Encode n loop_heap (VArray (Some 0)) = Fuel"
  unfolding Encode_def
  by (induction n) (simp_all add: get_arr_def encodeArray_def)

section \<open>Unsigned integers\<close>

lemma Decode_writeUint_range:
  assumes "2 ^ 63 \<le> n" "n < 2 ^ 64"
  shows "Decode (Suc m) (writeUint n) = Err (EAt (int (length (writeUint n))) (EInvalidInt ErrRange))"
proof -
  have len: "go_len (writeUint n)" if "length (FormatUint n) \<le> 20"
    using that by (simp add: go_len_def writeUint_def maxAlloc_def)
  have l: "length (FormatUint n) \<le> 20"
    using FormatUint_length [of n 20] assms by simp
  have "CHR '';'' \<notin> set (FormatUint n)" by (simp add: FormatUint_no_sep)
  with len [OF l] show ?thesis
    using ParseInt_FormatUint_range [OF assms]
    by (simp add: Decode_def init_decoder_at writeUint_def readInt_def cursor)
qed

end
