(* ===== verification/Php_Safety.thy ===== *)
theory Php_Safety
  imports Php_Cursor
begin

text \<open>
  When the decoder is safe: on a text without a minus sign and without numbers of more
  than 13 digits it neither panics nor recurses for ever, whatever else the text holds.
  The proof is a small Hoare calculus over the decoder's methods: from a position in the
  text they keep the text, move forward only, stay within one byte of its end, and grow
  the heap without changing the kind of a cell.
\<close>

section \<open>Tame texts\<close>

fun short_runs :: "nat \<Rightarrow> string \<Rightarrow> bool" where
  "short_runs k [] = True"
| "short_runs k (c # cs) =
     (if is_digit c then k < 13 \<and> short_runs (Suc k) cs else short_runs 0 cs)"

definition tame :: "string \<Rightarrow> bool" where
  "tame s \<longleftrightarrow> go_len s \<and> CHR ''-'' \<notin> set s \<and> short_runs 0 s"

lemma short_runs_mono: "short_runs k s \<Longrightarrow> j \<le> k \<Longrightarrow> short_runs j s"
  by (induction s arbitrary: j k) (auto split: if_splits)

lemma short_runs_drop: "short_runs k s \<Longrightarrow> short_runs 0 (drop n s)"
proof (induction s arbitrary: k n)
  case (Cons c cs)
  then show ?case
    by (cases n) (auto split: if_splits intro: short_runs_mono)
qed simp

lemma short_runs_digits: "short_runs k (ds @ s) \<Longrightarrow> all_digits ds \<Longrightarrow> ds \<noteq> [] \<Longrightarrow> k + length ds \<le> 13"
proof (induction ds arbitrary: k)
  case (Cons d ds)
  then have "k < 13" "short_runs (Suc k) (ds @ s)" by auto
  with Cons.IH [of "Suc k"] Cons.prems(2) show ?case by (cases "ds = []") auto
qed simp

lemma parse_digits_bound:
  "parse_digits m ds = Inr n \<Longrightarrow> all_digits ds \<and> n < (m + 1) * 10 ^ length ds"
proof (induction ds arbitrary: m)
  case (Cons d ds)
  then have "is_digit d" "parse_digits (m * 10 + digit_val d) ds = Inr n"
    by (auto split: if_splits)
  with Cons.IH have "all_digits ds" "n < (m * 10 + digit_val d + 1) * 10 ^ length ds" by auto
  moreover have "(m * 10 + digit_val d + 1) * 10 ^ length ds \<le> ((m + 1) * 10) * 10 ^ length ds"
    using digit_val_bound [OF \<open>is_digit d\<close>] by (intro mult_right_mono) auto
  moreover have "((m + 1) * 10) * 10 ^ length ds = (m + 1) * 10 ^ length (d # ds)"
    by (simp only: mult.assoc length_Cons power_Suc)
  ultimately show ?case using \<open>is_digit d\<close> by (auto simp del: length_Cons)
qed auto

text \<open>A number read from a tame text has a small value.\<close>

lemma ParseInt_tame:
  assumes "ParseInt s = Inr n" "CHR ''-'' \<notin> set s" "short_runs 0 (s @ rest)"
  shows "0 \<le> n" "n < 10 ^ 13"
proof -
  show "0 \<le> n" using assms(1,2) by (rule ParseInt_nonneg)
  obtain c cs where s: "s = c # cs" using assms(1) by (cases s) (auto simp: ParseInt_def)
  with assms(1,2) obtain body un where b: "body = s \<or> body = cs" "body \<noteq> []"
    "parse_digits 0 body = Inr un" "n = int un"
    by (auto simp: ParseInt_def ParseUint_def Let_def simp del: parse_digits.simps
        split: if_splits sum.splits)
  from parse_digits_bound [OF b(3)] have d: "all_digits body" "un < 10 ^ length body" by auto
  have "short_runs 0 (body @ rest)"
    using b(1) assms(3) short_runs_drop [of 0 "s @ rest" 1] s by auto
  with d(1) b(2) have "length body \<le> 13"
    using short_runs_digits [of 0 body rest] by simp
  then have "(10::nat) ^ length body \<le> 10 ^ 13" by (intro power_increasing) auto
  with d(2) b(4) show "n < 10 ^ 13" by simp
qed

section \<open>A calculus of safe methods\<close>

text \<open>The heap grows and its cells keep their kind.\<close>

definition same_kind :: "cell \<Rightarrow> cell \<Rightarrow> bool" where
  "same_kind c c' \<longleftrightarrow> (case c of CObj _ \<Rightarrow> (\<exists>ob. c' = CObj ob) | CArr _ \<Rightarrow> (\<exists>ar. c' = CArr ar))"

definition hext :: "heap \<Rightarrow> heap \<Rightarrow> bool" where
  "hext h h' \<longleftrightarrow> length h \<le> length h' \<and> (\<forall>a < length h. same_kind (h ! a) (h' ! a))"

lemma hext_refl [simp, intro]: "hext h h"
  by (auto simp: hext_def same_kind_def split: cell.splits)

lemma hext_trans: "hext h1 h2 \<Longrightarrow> hext h2 h3 \<Longrightarrow> hext h1 h3"
  unfolding hext_def same_kind_def
  by (auto split: cell.splits) (metis cell.distinct cell.exhaust order_less_le_trans)+

lemma hext_append [simp, intro]: "hext h (h @ x)"
  by (auto simp: hext_def nth_append same_kind_def split: cell.splits)

definition has_arr :: "addr \<Rightarrow> heap \<Rightarrow> bool" where "has_arr a h \<longleftrightarrow> get_arr h a \<noteq> None"
definition has_obj :: "addr \<Rightarrow> heap \<Rightarrow> bool" where "has_obj a h \<longleftrightarrow> get_obj h a \<noteq> None"

definition kept :: "(heap \<Rightarrow> bool) \<Rightarrow> bool" where
  "kept P \<longleftrightarrow> (\<forall>h h'. hext h h' \<longrightarrow> P h \<longrightarrow> P h')"

lemma kept_True [simp]: "kept (\<lambda>h. True)"
  by (simp add: kept_def)

lemma kept_has_arr [simp]: "kept (has_arr a)"
  by (fastforce simp: kept_def has_arr_def hext_def get_arr_def same_kind_def split: cell.splits if_splits)

lemma kept_has_obj [simp]: "kept (has_obj a)"
  by (fastforce simp: kept_def has_obj_def hext_def get_obj_def same_kind_def split: cell.splits if_splits)

text \<open>
  A position in the tame text \<open>s\<close>, from \<open>b\<close> on and at most \<open>u\<close> bytes behind the end. The
  judgement \<open>okm s P b u m u' Q\<close>: from such a position, in a heap with \<open>P\<close>, the method
  returns a value with \<open>Q\<close> or an error, and on a value it is at most \<open>u'\<close> bytes behind the
  end.
\<close>

definition within :: "string \<Rightarrow> int \<Rightarrow> int \<Rightarrow> decoder \<Rightarrow> bool" where
  "within s b u d \<longleftrightarrow> data d = s \<and> 0 \<le> pos d \<and> b \<le> pos d \<and> pos d \<le> int (length s) + u"

definition good :: "('e, 'a) outcome \<Rightarrow> bool" where
  "good r \<longleftrightarrow> (\<exists>a. r = Ok a) \<or> (\<exists>e. r = Err e)"

definition okm ::
  "string \<Rightarrow> (heap \<Rightarrow> bool) \<Rightarrow> int \<Rightarrow> int \<Rightarrow> 'a dm \<Rightarrow> int \<Rightarrow> ('a \<Rightarrow> bool) \<Rightarrow> bool" where
  "okm s P b u m u' Q \<longleftrightarrow>
     (\<forall>d. within s b u d \<longrightarrow> P (hp d) \<longrightarrow>
        (case m d of (r, d') \<Rightarrow>
           good r \<and> (\<forall>a. r = Ok a \<longrightarrow> Q a \<and> pos d' \<le> int (length s) + u') \<and>
           within s (pos d) 1 d' \<and> hext (hp d) (hp d')))"

lemma okmI:
  assumes "\<And>d. within s b u d \<Longrightarrow> P (hp d) \<Longrightarrow>
    \<exists>r d'. m d = (r, d') \<and> good r \<and> (\<forall>a. r = Ok a \<longrightarrow> Q a \<and> pos d' \<le> int (length s) + u') \<and>
      within s (pos d) 1 d' \<and> hext (hp d) (hp d')"
  shows "okm s P b u m u' Q"
  using assms unfolding okm_def by fastforce

lemma okmD:
  assumes "okm s P b u m u' Q" "within s b u d" "P (hp d)"
  obtains r d' where "m d = (r, d')" "good r" "\<And>a. r = Ok a \<Longrightarrow> Q a \<and> pos d' \<le> int (length s) + u'"
    "within s (pos d) 1 d'" "hext (hp d) (hp d')"
  using assms unfolding okm_def by fastforce

text \<open>The bind rule; the second step may start at a later position, \<open>b'\<close>, if the first one guarantees it.\<close>

lemma okm_bind_adv:
  assumes m: "okm s P b u m v Q" and P: "kept P"
    and adv: "\<And>d a d'. within s b u d \<Longrightarrow> P (hp d) \<Longrightarrow> m d = (Ok a, d') \<Longrightarrow> b' \<le> pos d'"
    and f: "\<And>a. Q a \<Longrightarrow> okm s P b' v (f a) w R"
  shows "okm s P b u (dbind m f) w R"
proof (rule okmI)
  fix d assume d: "within s b u d" "P (hp d)"
  obtain r d' where r: "m d = (r, d')" "good r" "\<And>a. r = Ok a \<Longrightarrow> Q a \<and> pos d' \<le> int (length s) + v"
    "within s (pos d) 1 d'" "hext (hp d) (hp d')"
    using okmD [OF m d] by metis
  show "\<exists>r d'. dbind m f d = (r, d') \<and> good r \<and> (\<forall>a. r = Ok a \<longrightarrow> R a \<and> pos d' \<le> int (length s) + w) \<and>
      within s (pos d) 1 d' \<and> hext (hp d) (hp d')"
  proof (cases r)
    case (Ok a)
    have d': "within s b' v d'" "P (hp d')"
      using d r Ok P adv [OF d] by (auto simp: within_def kept_def)
    have fa: "okm s P b' v (f a) w R" using f r(3) Ok by blast
    obtain r2 d2 where f2: "f a d' = (r2, d2)" "good r2"
      "\<And>a. r2 = Ok a \<Longrightarrow> R a \<and> pos d2 \<le> int (length s) + w" "within s (pos d') 1 d2" "hext (hp d') (hp d2)"
      using okmD [OF fa d'] by metis
    with r Ok show ?thesis by (auto simp: within_def intro: hext_trans)
  qed (use r in \<open>auto simp: good_def\<close>)
qed

lemma okm_bind:
  assumes "okm s P b u m v Q" "kept P" "\<And>a. Q a \<Longrightarrow> okm s P b v (f a) w R"
  shows "okm s P b u (dbind m f) w R"
proof (rule okm_bind_adv [OF assms(1,2) _ assms(3)])
  fix d a d' assume d: "within s b u d" "P (hp d)" "m d = (Ok a, d')"
  from okmD [OF assms(1) d(1,2)] d(3) have "within s (pos d) 1 d'" by (metis Pair_inject)
  with d(1) show "b \<le> pos d'" by (simp add: within_def)
qed

lemma okm_weaken:
  assumes "okm s P b u m v Q" "b \<le> b'" "u' \<le> u" "v \<le> w" "\<And>h. P' h \<Longrightarrow> P h" "\<And>a. Q a \<Longrightarrow> Q' a"
  shows "okm s P' b' u' m w Q'"
proof (rule okmI)
  fix d assume "within s b' u' d" "P' (hp d)"
  then have d: "within s b u d" "P (hp d)" using assms by (auto simp: within_def)
  obtain r d' where "m d = (r, d')" "good r" "\<And>a. r = Ok a \<Longrightarrow> Q a \<and> pos d' \<le> int (length s) + v"
    "within s (pos d) 1 d'" "hext (hp d) (hp d')"
    using okmD [OF assms(1) d] by metis
  then show "\<exists>r d'. m d = (r, d') \<and> good r \<and>
      (\<forall>a. r = Ok a \<longrightarrow> Q' a \<and> pos d' \<le> int (length s) + w) \<and> within s (pos d) 1 d' \<and> hext (hp d) (hp d')"
    using assms(4,6) by fastforce
qed

lemma okm_dret: "Q a \<Longrightarrow> u \<le> 1 \<Longrightarrow> u \<le> u' \<Longrightarrow> okm s P b u (dret a) u' Q"
  by (auto simp: okm_def good_def within_def)

lemma okm_dfail: "u \<le> 1 \<Longrightarrow> okm s P b u (dfail e) u' Q"
  by (auto simp: okm_def good_def within_def)

lemma okm_dwrap: "okm s P b u m u' Q \<Longrightarrow> okm s P b u (dwrap w m) u' Q"
  unfolding okm_def dwrap_def good_def by (fastforce split: outcome.splits prod.splits)

lemma okm_push_ref: "u \<le> 1 \<Longrightarrow> okm s P b u (push_ref v) u (\<lambda>_. True)"
  by (auto simp: okm_def push_ref_def good_def within_def)

lemma okm_new_arr:
  assumes "\<And>a. okm s (has_arr a) b u (f a) u' Q"
  shows "okm s P b u (dbind (new_cell (CArr ar)) f) u' Q"
proof (rule okmI)
  fix d assume d: "within s b u d"
  let ?d = "d\<lparr>hp := hp d @ [CArr ar]\<rparr>"
  have "has_arr (length (hp d)) (hp ?d)" "within s b u ?d"
    using d by (simp_all add: has_arr_def get_arr_def within_def)
  then obtain r d' where "f (length (hp d)) ?d = (r, d')" "good r"
    "\<And>a. r = Ok a \<Longrightarrow> Q a \<and> pos d' \<le> int (length s) + u'" "within s (pos ?d) 1 d'" "hext (hp ?d) (hp d')"
    using okmD [OF assms] by metis
  then show "\<exists>r d'. dbind (new_cell (CArr ar)) f d = (r, d') \<and> good r \<and>
      (\<forall>a. r = Ok a \<longrightarrow> Q a \<and> pos d' \<le> int (length s) + u') \<and> within s (pos d) 1 d' \<and> hext (hp d) (hp d')"
    using hext_trans [of "hp d" "hp d @ [CArr ar]" "hp d'"] by (simp add: dbind_def new_cell_def alloc_def)
qed

lemma okm_new_obj:
  assumes "\<And>a. okm s (has_obj a) b u (f a) u' Q"
  shows "okm s P b u (dbind (new_cell (CObj ob)) f) u' Q"
proof (rule okmI)
  fix d assume d: "within s b u d"
  let ?d = "d\<lparr>hp := hp d @ [CObj ob]\<rparr>"
  have "has_obj (length (hp d)) (hp ?d)" "within s b u ?d"
    using d by (simp_all add: has_obj_def get_obj_def within_def)
  then obtain r d' where "f (length (hp d)) ?d = (r, d')" "good r"
    "\<And>a. r = Ok a \<Longrightarrow> Q a \<and> pos d' \<le> int (length s) + u'" "within s (pos ?d) 1 d'" "hext (hp ?d) (hp d')"
    using okmD [OF assms] by metis
  then show "\<exists>r d'. dbind (new_cell (CObj ob)) f d = (r, d') \<and> good r \<and>
      (\<forall>a. r = Ok a \<longrightarrow> Q a \<and> pos d' \<le> int (length s) + u') \<and> within s (pos d) 1 d' \<and> hext (hp d) (hp d')"
    using hext_trans [of "hp d" "hp d @ [CObj ob]" "hp d'"] by (simp add: dbind_def new_cell_def alloc_def)
qed

lemma hext_update_arr: "has_arr a h \<Longrightarrow> hext h (h[a := CArr ar])"
  by (auto simp: hext_def has_arr_def get_arr_def same_kind_def nth_list_update split: cell.splits if_splits)

lemma hext_update_obj: "has_obj a h \<Longrightarrow> hext h (h[a := CObj ob])"
  by (auto simp: hext_def has_obj_def get_obj_def same_kind_def nth_list_update split: cell.splits if_splits)

lemma okm_append_entry: "u \<le> 1 \<Longrightarrow> okm s (has_arr a) b u (append_entry a k v) u (\<lambda>_. True)"
  using hext_update_arr
  by (fastforce simp: okm_def append_entry_def good_def within_def has_arr_def split: option.splits)

lemma okm_set_prop: "u \<le> 1 \<Longrightarrow> okm s (has_obj a) b u (set_prop a k v) u (\<lambda>_. True)"
  using hext_update_obj
  by (fastforce simp: okm_def set_prop_def good_def within_def has_obj_def split: option.splits)

section \<open>The lexical helpers\<close>

lemma wrap_pos:
  "go_len s \<Longrightarrow> within s b 1 d \<Longrightarrow> 0 \<le> n \<Longrightarrow> n \<le> maxAlloc \<Longrightarrow> wrap64 (pos d + n) = pos d + n"
  by (intro wrap64_id) (auto simp: go_len_def within_def maxAlloc_def)

lemma expect_ready:
  assumes "go_len s" "within s b 1 d" "int (length t) \<le> maxAlloc"
  shows "expect t d = (Ok False, d) \<or>
    expect t d = (Ok True, d\<lparr>pos := pos d + int (length t)\<rparr>) \<and> pos d + int (length t) \<le> int (length s)"
  using assms wrap_pos [OF assms(1,2), of "int (length t)"]
  by (auto simp: expect_def beyond_def go_slice_def within_def)

text \<open>After a required literal the position has advanced by its length and is inside the text.\<close>

lemma okm_require_then:
  assumes "go_len s" "kept P" "int (length t) \<le> maxAlloc" "u \<le> 1"
    and f: "okm s P (b + int (length t)) 0 (f ()) u' Q"
  shows "okm s P b u (dbind (require msg t) f) u' Q"
proof (rule okm_bind_adv [where Q = "\<lambda>_. True" and v = 0 and b' = "b + int (length t)"])
  have *: "expect t d = (Ok False, d) \<or>
      expect t d = (Ok True, d\<lparr>pos := pos d + int (length t)\<rparr>) \<and> pos d + int (length t) \<le> int (length s)"
    if "within s b u d" for d
    using that expect_ready [OF assms(1) _ assms(3), of b d] assms(4) by (simp add: within_def)
  show "okm s P b u (require msg t) 0 (\<lambda>_. True)"
    unfolding okm_def
  proof (intro allI impI)
    fix d assume d: "within s b u d"
    from * [OF d] d show "case require msg t d of (r, d') \<Rightarrow> good r \<and>
        (\<forall>a. r = Ok a \<longrightarrow> True \<and> pos d' \<le> int (length s) + 0) \<and> within s (pos d) 1 d' \<and> hext (hp d) (hp d')"
      using assms(4) by (auto simp: require_def dbind_def good_def within_def)
  qed
  show "b + int (length t) \<le> pos d'" if "within s b u d" "require msg t d = (Ok a, d')" for d a d'
    using * [OF that(1)] that by (auto simp: require_def dbind_def within_def)
qed (use assms f in auto)

lemma okm_require:
  assumes "go_len s" "kept P" "int (length t) \<le> maxAlloc" "u \<le> 1" "okm s P b 0 (f ()) u' Q"
  shows "okm s P b u (dbind (require msg t) f) u' Q"
  using assms by (intro okm_require_then okm_weaken [OF assms(5)]) auto

lemma okm_skip1: "go_len s \<Longrightarrow> okm s P b 0 (skip 1) 1 (\<lambda>_. True)"
  unfolding okm_def
proof (intro allI impI)
  fix d assume a: "go_len s" "within s b 0 d"
  then have "wrap64 (pos d + 1) = pos d + 1"
    by (intro wrap_pos [of s b]) (auto simp: within_def maxAlloc_def)
  with a show "case skip 1 d of (r, d') \<Rightarrow> good r \<and>
      (\<forall>a. r = Ok a \<longrightarrow> True \<and> pos d' \<le> int (length s) + 1) \<and> within s (pos d) 1 d' \<and> hext (hp d) (hp d')"
    by (simp add: skip_def good_def within_def)
qed

text \<open>The text of a number in a tame text.\<close>

definition num_text :: "string \<Rightarrow> bool" where
  "num_text t \<longleftrightarrow> CHR ''-'' \<notin> set t \<and> (\<exists>rest. short_runs 0 (t @ rest))"

lemma readUntil_ready:
  assumes "within s b 0 d"
  shows "\<exists>t. readUntil c d = (Ok t, d\<lparr>pos := pos d + int (length t)\<rparr>) \<and>
    pos d + int (length t) \<le> int (length s) \<and> (\<exists>rest. drop (nat (pos d)) s = t @ rest)"
proof -
  let ?t = "takeWhile (\<lambda>x. x \<noteq> c) (drop (nat (pos d)) s)"
  have "length ?t \<le> length s - nat (pos d)"
    by (metis length_drop length_takeWhile_le)
  moreover have "take (length ?t) (drop (nat (pos d)) s) = ?t"
    by (metis takeWhile_eq_take)
  moreover have "\<exists>rest. drop (nat (pos d)) s = ?t @ rest"
    by (metis takeWhile_dropWhile_id)
  ultimately show ?thesis
    using assms by (intro exI [of _ ?t]) (auto simp: readUntil_def go_slice_def within_def Let_def)
qed

lemma okm_readUntil:
  assumes "tame s"
  shows "okm s P b 0 (readUntil c) 0 num_text"
proof (rule okmI)
  fix d assume d: "within s b 0 d"
  obtain t rest where t: "readUntil c d = (Ok t, d\<lparr>pos := pos d + int (length t)\<rparr>)"
    "pos d + int (length t) \<le> int (length s)" "drop (nat (pos d)) s = t @ rest"
    using readUntil_ready [OF d] by blast
  have "CHR ''-'' \<notin> set t" using assms t(3) by (metis in_set_dropD in_set_conv_decomp append_assoc append_Cons tame_def)
  moreover have "short_runs 0 (t @ rest)"
    using assms short_runs_drop [of 0 s "nat (pos d)"] t(3) by (simp add: tame_def)
  ultimately have "num_text t" by (auto simp: num_text_def)
  with t d show "\<exists>r d'. readUntil c d = (r, d') \<and> good r \<and>
      (\<forall>a. r = Ok a \<longrightarrow> num_text a \<and> pos d' \<le> int (length s) + 0) \<and> within s (pos d) 1 d' \<and> hext (hp d) (hp d')"
    by (auto simp: good_def within_def)
qed

definition small :: "int \<Rightarrow> bool" where
  "small n \<longleftrightarrow> 0 \<le> n \<and> n < 10 ^ 13"

lemma num_text_small: "num_text t \<Longrightarrow> ParseInt t = Inr n \<Longrightarrow> small n"
  using ParseInt_tame unfolding num_text_def small_def by blast

named_theorems okm_rules \<open>rules of the safety calculus for the first step of a method\<close>

lemma okm_readUntil_then [okm_rules]:
  assumes "tame s" "kept P" "\<And>t. num_text t \<Longrightarrow> okm s P b 0 (f t) v Q"
  shows "okm s P b 0 (dbind (readUntil c) f) v Q"
  using okm_bind [OF okm_readUntil assms(2,3)] assms(1) .

lemma okm_readLength_then [okm_rules]:
  assumes "tame s" "kept P" "\<And>n. small n \<Longrightarrow> okm s P b 0 (f n) v Q"
  shows "okm s P b 0 (dbind readLength f) v Q"
proof (rule okm_bind [OF _ assms(2,3)])
  show "okm s P b 0 readLength 0 small"
    unfolding readLength_def
    by (rule okm_readUntil_then [OF assms(1,2)])
      (auto intro!: okm_dfail okm_dret num_text_small split: sum.splits)
qed

lemma okm_readBytes_then [okm_rules]:
  assumes "tame s" "kept P" "small n" "\<And>t. okm s P b 0 (f t) v Q"
  shows "okm s P b 0 (dbind (readBytes err n) f) v Q"
proof (rule okm_bind [where Q = "\<lambda>_. True", OF _ assms(2,4)])
  show "okm s P b 0 (readBytes err n) 0 (\<lambda>_. True)"
    unfolding okm_def
  proof (intro allI impI)
    fix d assume d: "within s b 0 d"
    have "wrap64 (pos d + n) = pos d + n"
      using assms d by (intro wrap_pos [of s b]) (auto simp: tame_def within_def small_def maxAlloc_def)
    with d assms(3) show "case readBytes err n d of (r, d') \<Rightarrow> good r \<and>
        (\<forall>a. r = Ok a \<longrightarrow> True \<and> pos d' \<le> int (length s) + 0) \<and> within s (pos d) 1 d' \<and> hext (hp d) (hp d')"
      by (auto simp: readBytes_def beyond_def go_slice_def good_def within_def small_def)
  qed
qed

lemma okm_skip_checked_then [okm_rules]:
  assumes "tame s" "kept P" "small n" "okm s P b 0 (f ()) v Q"
  shows "okm s P b 0 (dbind (\<lambda>d. if beyond n d then dfail err d else skip n d) f) v Q"
proof (rule okm_bind [where Q = "\<lambda>_. True", OF _ assms(2)])
  show "okm s P b 0 (\<lambda>d. if beyond n d then dfail err d else skip n d) 0 (\<lambda>_. True)"
    unfolding okm_def
  proof (intro allI impI)
    fix d assume d: "within s b 0 d"
    have "wrap64 (pos d + n) = pos d + n"
      using assms d by (intro wrap_pos [of s b]) (auto simp: tame_def within_def small_def maxAlloc_def)
    with d assms(3) show "case if beyond n d then dfail err d else skip n d of (r, d') \<Rightarrow> good r \<and>
        (\<forall>a. r = Ok a \<longrightarrow> True \<and> pos d' \<le> int (length s) + 0) \<and> within s (pos d) 1 d' \<and> hext (hp d) (hp d')"
      by (auto simp: skip_def beyond_def good_def within_def small_def)
  qed
qed (use assms(4) in simp)

lemma okm_skip1_then [okm_rules]:
  assumes "tame s" "kept P" "okm s P b 1 (f ()) v Q"
  shows "okm s P b 0 (dbind (skip 1) f) v Q"
  using assms by (intro okm_bind [OF okm_skip1]) (auto simp: tame_def)

lemma okm_push_ref_then [okm_rules]:
  assumes "u \<le> 1" "kept P" "okm s P b u (f ()) v Q"
  shows "okm s P b u (dbind (push_ref x) f) v Q"
  using assms by (intro okm_bind [OF okm_push_ref]) auto

lemma okm_require_tame [okm_rules]:
  assumes "tame s" "kept P" "length t \<le> 2" "u \<le> 1" "okm s P b 0 (f ()) v Q"
  shows "okm s P b u (dbind (require msg t) f) v Q"
  using assms by (intro okm_require) (auto simp: tame_def maxAlloc_def)

lemma okm_make_slice_then [okm_rules]:
  assumes "small n" "kept P" "okm s P b 0 (f ()) v Q"
  shows "okm s P b 0 (dbind (make_slice_cap n) f) v Q"
proof (rule okm_bind [where Q = "\<lambda>_. True", OF _ assms(2)])
  show "okm s P b 0 (make_slice_cap n) 0 (\<lambda>_. True)"
    using assms(1) by (auto simp: okm_def make_slice_cap_def good_def within_def small_def maxAlloc_def)
qed (use assms(3) in simp)

lemmas [okm_rules] = okm_new_arr okm_new_obj okm_dret okm_dfail

section \<open>The methods are safe\<close>

lemma okm_readNull: "tame s \<Longrightarrow> okm s (\<lambda>_. True) b 1 readNull 1 (\<lambda>_. True)"
  unfolding readNull_def by (intro okm_rules) auto

lemma okm_readInt: "tame s \<Longrightarrow> kept P \<Longrightarrow> okm s P b 1 readInt 1 (\<lambda>_. True)"
  unfolding readInt_def by (intro okm_rules) (auto intro!: okm_rules split: sum.splits)

lemma okm_readFloat: "tame s \<Longrightarrow> okm s (\<lambda>_. True) b 1 readFloat 1 (\<lambda>_. True)"
  unfolding readFloat_def by (intro okm_rules) (auto intro!: okm_rules split: sum.splits)

lemma okm_readString: "tame s \<Longrightarrow> kept P \<Longrightarrow> okm s P b 1 readString 1 (\<lambda>_. True)"
  unfolding readString_def by (intro okm_rules) auto

lemma okm_readEnum: "tame s \<Longrightarrow> okm s (\<lambda>_. True) b 1 readEnum 1 (\<lambda>_. True)"
  unfolding readEnum_def by (intro okm_rules) (auto intro!: okm_rules simp: Let_def split: option.splits)

lemma okm_readCustomObject: "tame s \<Longrightarrow> okm s (\<lambda>_. True) b 1 readCustomObject 1 (\<lambda>_. True)"
  unfolding readCustomObject_def by (intro okm_rules) auto

lemma okm_readBool: "tame s \<Longrightarrow> okm s (\<lambda>_. True) b 1 readBool 1 (\<lambda>_. True)"
proof -
  assume s: "tame s"
  let ?tail = "\<lambda>val. dbind (skip 1) (\<lambda>_. dbind (require ''; after bool'' '';'') (\<lambda>_.
      dbind (push_ref (VBool val)) (\<lambda>_. dret (VBool val))))"
  have tail: "okm s (\<lambda>_. True) b 0 (?tail val) 1 (\<lambda>_. True)" for val
    using s by (intro okm_rules) auto
  have "okm s (\<lambda>_. True) b 0 (\<lambda>d. if int (length (data d)) \<le> pos d then (Err EEndBool, d)
      else if pos d < 0 then (Panic IndexRange, d)
      else let val = (data d ! nat (pos d) = CHR ''1'') in ?tail val d) 1 (\<lambda>_. True)"
    using tail unfolding okm_def Let_def by (auto simp: good_def within_def)
  with s show ?thesis unfolding readBool_def by (intro okm_rules) auto
qed

lemma okm_readReference: "tame s \<Longrightarrow> okm s (\<lambda>_. True) b 0 readReference 1 (\<lambda>_. True)"
proof -
  assume s: "tame s"
  have "okm s (\<lambda>_. True) b 1 (\<lambda>d. if i < 0 \<or> int (length (refs d)) \<le> i then (Err (ERefRange e), d)
      else (Ok (refs d ! nat i), d)) 1 (\<lambda>_. True)" for i e
    by (auto simp: okm_def good_def within_def)
  with s show ?thesis
    unfolding readReference_def by (intro okm_rules) (auto intro!: okm_rules simp: Let_def split: sum.splits)
qed

lemma okm_readArrayKey: "tame s \<Longrightarrow> kept P \<Longrightarrow> okm s P b 1 readArrayKey 1 (\<lambda>_. True)"
proof -
  assume s: "tame s" "kept P"
  have str: "okm s P b 1 (dbind readString (\<lambda>s. dret (VString s))) 1 (\<lambda>_. True)"
    by (rule okm_bind [OF okm_readString [OF s] s(2)]) (auto intro: okm_rules)
  show ?thesis
    using okm_readInt [OF s, of b] str unfolding okm_def readArrayKey_def
    by (auto simp: good_def within_def)
qed

text \<open>The loops, for any \<open>rv\<close> that is safe from position \<open>b\<close> on.\<close>

lemma okm_array_loop:
  assumes "tame s" "\<And>P. kept P \<Longrightarrow> okm s P b 1 rv 1 (\<lambda>_. True)"
  shows "okm s (has_arr a) b 1 (array_loop rv a n i) 1 (\<lambda>_. True)"
proof (induction n arbitrary: i)
  case (Suc n)
  show ?case
    unfolding array_loop.simps
    by (rule okm_bind [OF okm_dwrap [OF okm_readArrayKey [OF assms(1)]]], simp, simp,
        rule okm_bind [OF okm_dwrap [OF assms(2)]], simp, simp,
        rule okm_bind [OF okm_append_entry]) (simp_all add: Suc.IH)
qed (auto intro: okm_rules)

lemma okm_object_loop:
  assumes "tame s" "\<And>P. kept P \<Longrightarrow> okm s P b 1 rv 1 (\<lambda>_. True)"
  shows "okm s (has_obj a) b 1 (object_loop rv a n i) 1 (\<lambda>_. True)"
proof (induction n arbitrary: i)
  case (Suc n)
  show ?case
    unfolding object_loop.simps Let_def
    by (rule okm_bind [OF okm_dwrap [OF okm_readString [OF assms(1)]]], simp, simp,
        rule okm_bind [OF okm_dwrap [OF assms(2)]], simp, simp,
        rule okm_bind [OF okm_set_prop]) (simp_all add: Suc.IH)
qed (auto intro: okm_rules)

text \<open>A container only needs \<open>rv\<close> to be safe behind its two-byte prefix.\<close>

lemma okm_readArray:
  assumes s: "tame s" and P: "kept P" and rv: "\<And>P. kept P \<Longrightarrow> okm s P (b + 2) 1 rv 1 (\<lambda>_. True)"
  shows "okm s P b 1 (readArray rv) 1 (\<lambda>_. True)"
proof -
  let ?rest = "\<lambda>a n. dbind (array_loop rv a n 0) (\<lambda>_.
      dbind (require ''} after array'' ''}'') (\<lambda>_. dret (VArray (Some a))))"
  have "okm s (has_arr a) (b + 2) 1 (?rest a n) 1 (\<lambda>_. True)" for a n
    by (rule okm_bind [OF okm_array_loop [OF s rv]]) (auto intro!: okm_rules simp: s)
  then have rest: "okm s (has_arr a) (b + 2) 0 (?rest a n) 1 (\<lambda>_. True)" for a n
    by (rule okm_weaken) auto
  have "okm s P (b + 2) 0 (dbind readLength (\<lambda>count.
     dbind (require '':{ after array count'' '':{'') (\<lambda>_.
     dbind (make_slice_cap count) (\<lambda>_.
     dbind (new_cell (CArr \<lparr>Keys = [], Values = []\<rparr>)) (\<lambda>a.
     dbind (push_ref (VArray (Some a))) (\<lambda>_. ?rest a (nat count))))))) 1 (\<lambda>_. True)"
    by (intro okm_rules s P kept_has_arr rest) simp_all
  then show ?thesis
    unfolding readArray_def by (intro okm_require_then P) (use s in \<open>simp_all add: tame_def maxAlloc_def\<close>)
qed

lemma okm_readObject:
  assumes s: "tame s" and P: "kept P" and rv: "\<And>P. kept P \<Longrightarrow> okm s P (b + 2) 1 rv 1 (\<lambda>_. True)"
  shows "okm s P b 1 (readObject rv) 1 (\<lambda>_. True)"
proof -
  let ?rest = "\<lambda>a n. dbind (object_loop rv a n 0) (\<lambda>_.
      dbind (require ''} after object'' ''}'') (\<lambda>_. dret (VObject (Some a))))"
  have "okm s (has_obj a) (b + 2) 1 (?rest a n) 1 (\<lambda>_. True)" for a n
    by (rule okm_bind [OF okm_object_loop [OF s rv]]) (auto intro!: okm_rules simp: s)
  then have rest: "okm s (has_obj a) (b + 2) 0 (?rest a n) 1 (\<lambda>_. True)" for a n
    by (rule okm_weaken) auto
  have "okm s P (b + 2) 0 (dbind readLength (\<lambda>classNameLen.
     dbind (require ''quote after class name length'' ('':'' @ [dq])) (\<lambda>_.
     dbind (readBytes EClassNameLength classNameLen) (\<lambda>className.
     dbind (require ''quote after class name'' (dq # '':'')) (\<lambda>_.
     dbind readLength (\<lambda>propCount.
     dbind (require '':{ after property count'' '':{'') (\<lambda>_.
     dbind (new_cell (CObj \<lparr>ObjClassName = className, Properties = []\<rparr>)) (\<lambda>a.
     dbind (push_ref (VObject (Some a))) (\<lambda>_. ?rest a (nat propCount)))))))))) 1 (\<lambda>_. True)"
    by (intro okm_rules s P kept_has_obj rest) simp_all
  then show ?thesis
    unfolding readObject_def by (intro okm_require_then P) (use s in \<open>simp_all add: tame_def maxAlloc_def\<close>)
qed

lemma okm_any_heap: "okm s (\<lambda>_. True) b 1 m 1 Q \<Longrightarrow> okm s P b 0 m 1 Q"
  by (erule okm_weaken) auto

lemma okm_at: "okm s P b 1 m 1 Q \<Longrightarrow> okm s P b 0 m 1 Q"
  by (erule okm_weaken) auto

text \<open>
  The recursion needs no more fuel than there are bytes ahead: every nested call starts
  at least two bytes further on.
\<close>

lemma okm_readValue:
  assumes s: "tame s"
  shows "int (length s) + 1 < b + int n \<Longrightarrow> kept P \<Longrightarrow> okm s P b 1 (readValue n) 1 (\<lambda>_. True)"
proof (induction n arbitrary: b P)
  case 0
  then show ?case by (auto simp: okm_def within_def)
next
  case (Suc n)
  have rv: "okm s P' (b + 2) 1 (readValue n) 1 (\<lambda>_. True)" if "kept P'" for P'
    using Suc.IH [of "b + 2" P'] Suc.prems(1) that by simp
  have str: "okm s P b 1 (dbind readString (\<lambda>s. dret (VString s))) 1 (\<lambda>_. True)"
    by (rule okm_bind [OF okm_readString [OF s Suc.prems(2)] Suc.prems(2)]) (auto intro: okm_rules)
  note P = Suc.prems(2)
  note any = okm_any_heap [where P = P and b = b]
  have ms: "okm s P b 0 m 1 (\<lambda>_. True)"
    if "m \<in> {readNull, readBool, readInt, readFloat, dbind readString (\<lambda>s. dret (VString s)),
      readArray (readValue n), readObject (readValue n), readReference, readCustomObject, readEnum}" for m
    using that
      any [OF okm_readNull [OF s]] any [OF okm_readBool [OF s]] any [OF okm_readFloat [OF s]]
      any [OF okm_readCustomObject [OF s]] any [OF okm_readEnum [OF s]]
      okm_weaken [OF okm_readReference [OF s], of b b 0 1 P]
      okm_at [OF okm_readInt [OF s P]] okm_at [OF str]
      okm_at [OF okm_readArray [OF s P rv]] okm_at [OF okm_readObject [OF s P rv]]
    by (elim insertE emptyE) simp_all
  show ?case
    unfolding okm_def readValue.simps Let_def
  proof (intro allI impI)
    fix d assume d: "within s b 1 d" "P (hp d)"
    show "case (if int (length (data d)) \<le> pos d then (Err EUnexpectedEnd, d)
      else if pos d < 0 then (Panic IndexRange, d)
      else if data d ! nat (pos d) = CHR ''N'' then readNull d
      else if data d ! nat (pos d) = CHR ''b'' then readBool d
      else if data d ! nat (pos d) = CHR ''i'' then readInt d
      else if data d ! nat (pos d) = CHR ''d'' then readFloat d
      else if data d ! nat (pos d) = CHR ''s'' then dbind readString (\<lambda>s. dret (VString s)) d
      else if data d ! nat (pos d) = CHR ''a'' then readArray (readValue n) d
      else if data d ! nat (pos d) = CHR ''O'' then readObject (readValue n) d
      else if data d ! nat (pos d) = CHR ''r'' \<or> data d ! nat (pos d) = CHR ''R'' then readReference d
      else if data d ! nat (pos d) = CHR ''C'' then readCustomObject d
      else if data d ! nat (pos d) = CHR ''E'' then readEnum d
      else (Err (EUnknownType (data d ! nat (pos d))), d)) of (r, d') \<Rightarrow> good r \<and>
        (\<forall>a. r = Ok a \<longrightarrow> True \<and> pos d' \<le> int (length s) + 1) \<and> within s (pos d) 1 d' \<and> hext (hp d) (hp d')"
    proof (cases "int (length s) \<le> pos d")
      case True
      with d show ?thesis by (auto simp: within_def good_def)
    next
      case False
      with d have "within s b 0 d" by (simp add: within_def)
      with d ms False show ?thesis
        unfolding okm_def by (auto simp: within_def good_def)
    qed
  qed
qed

section \<open>The decoder on a tame text\<close>

lemma Decode_tame_good:
  assumes "tame s"
  shows "good (Decode (length s + 2) s)"
proof -
  have "okm s (\<lambda>_. True) 0 1 (readValue (length s + 2)) 1 (\<lambda>_. True)"
    using okm_readValue [OF assms, of 0 "length s + 2"] by simp
  moreover have "within s 0 1 (init_decoder s)"
    by (simp add: within_def init_decoder_def)
  ultimately obtain r d where "readValue (length s + 2) (init_decoder s) = (r, d)" "good r"
    by (elim okmD) auto
  then show ?thesis
    unfolding Decode_def by (auto simp: good_def simp del: readValue.simps)
qed

section \<open>More fuel never changes a result\<close>

definition fuel_le :: "'a dm \<Rightarrow> 'a dm \<Rightarrow> bool" where
  "fuel_le m m' \<longleftrightarrow> (\<forall>d. fst (m d) \<noteq> Fuel \<longrightarrow> m' d = m d)"

lemma fuel_le_refl [simp, intro]: "fuel_le m m"
  by (simp add: fuel_le_def)

lemma fuel_le_bind:
  assumes "fuel_le m m'" "\<And>a. fuel_le (f a) (f' a)"
  shows "fuel_le (dbind m f) (dbind m' f')"
  unfolding fuel_le_def
proof (intro allI impI)
  fix d assume d: "fst (dbind m f d) \<noteq> Fuel"
  obtain r d1 where m: "m d = (r, d1)" by fastforce
  with d have "r \<noteq> Fuel" by (auto simp: dbind_def)
  with assms(1) m have "m' d = (r, d1)" by (metis fst_conv fuel_le_def)
  with m d assms(2) show "dbind m' f' d = dbind m f d"
    by (auto simp: dbind_def fuel_le_def split: outcome.splits)
qed

lemma fuel_le_dwrap: "fuel_le m m' \<Longrightarrow> fuel_le (dwrap w m) (dwrap w m')"
  unfolding fuel_le_def dwrap_def by (fastforce split: outcome.splits prod.splits)

lemma fuel_le_array_loop: "fuel_le rv rv' \<Longrightarrow> fuel_le (array_loop rv a n i) (array_loop rv' a n i)"
  by (induction n arbitrary: i) (auto intro!: fuel_le_bind fuel_le_dwrap)

lemma fuel_le_object_loop: "fuel_le rv rv' \<Longrightarrow> fuel_le (object_loop rv a n i) (object_loop rv' a n i)"
  by (induction n arbitrary: i) (auto intro!: fuel_le_bind fuel_le_dwrap simp: Let_def)

lemma fuel_le_containers:
  assumes "fuel_le rv rv'"
  shows "fuel_le (readArray rv) (readArray rv')" "fuel_le (readObject rv) (readObject rv')"
  unfolding readArray_def readObject_def
  by (intro fuel_le_bind fuel_le_array_loop fuel_le_object_loop fuel_le_refl assms)+

lemma readValue_fuel_Suc: "fuel_le (readValue n) (readValue (Suc n))"
proof (induction n)
  case (Suc n)
  have "readArray (readValue (Suc n)) d = readArray (readValue n) d" if "fst (readArray (readValue n) d) \<noteq> Fuel" for d
    using fuel_le_containers(1) [OF Suc] that unfolding fuel_le_def by blast
  moreover have "readObject (readValue (Suc n)) d = readObject (readValue n) d"
    if "fst (readObject (readValue n) d) \<noteq> Fuel" for d
    using fuel_le_containers(2) [OF Suc] that unfolding fuel_le_def by blast
  ultimately show ?case
    unfolding fuel_le_def readValue.simps(2) [of "Suc n"] readValue.simps(2) [of n]
    by (auto simp: Let_def simp del: readValue.simps)
qed (simp add: fuel_le_def)

lemma readValue_fuel_mono: "n \<le> n' \<Longrightarrow> fuel_le (readValue n) (readValue n')"
proof (induction n' rule: dec_induct)
  case (step k)
  with readValue_fuel_Suc [of k] show ?case by (auto simp: fuel_le_def)
qed simp

lemma Decode_fuel_mono:
  assumes "Decode n s = r" "r \<noteq> Fuel" "n \<le> n'"
  shows "Decode n' s = r"
proof -
  have "fst (readValue n (init_decoder s)) \<noteq> Fuel"
    using assms(1,2) by (auto simp: Decode_def split: prod.splits)
  with readValue_fuel_mono [OF assms(3)] have "readValue n' (init_decoder s) = readValue n (init_decoder s)"
    by (simp add: fuel_le_def)
  with assms(1) show ?thesis by (simp add: Decode_def)
qed

end
