(* ===== verification/Php_Properties.thy ===== *)
theory Php_Properties
  imports Php_Limits Php_Safety "HOL-Library.Multiset"
begin

text \<open>
  What package \<open>phpserialize\<close> guarantees: the encoder implements PHP's format, decoding
  inverts encoding, decoding terminates without a panic on tame texts, and the texts on
  which it does not.
\<close>

section \<open>Shared lemmas\<close>

lemma those_map_set:
  "those (map f xs) = Some ys \<Longrightarrow> y \<in> set ys \<Longrightarrow> \<exists>x \<in> set xs. f x = Some y"
  unfolding those_map_Some_iff by (induction rule: list_all2_induct) auto

lemma index_keys_snd: "(k, t) \<in> set (index_keys ts) \<Longrightarrow> t \<in> set ts"
  by (auto simp: index_keys_def dest: set_zip_rightD)

lemma abs_entries_set:
  "abs_entries f m = Some es \<Longrightarrow> (k, t) \<in> set es \<Longrightarrow> \<exists>x. f x = Some t"
  unfolding abs_entries_def by (drule (1) those_map_set) auto

lemma abs_pair_set:
  "those (map (abs_pair f) kvs) = Some es \<Longrightarrow> (k, t) \<in> set es \<Longrightarrow> \<exists>x. f x = Some t"
  by (drule (1) those_map_set) (auto simp: abs_pair_def split: option.splits)

text \<open>A tree found with fuel \<open>n\<close> is less than \<open>n\<close> deep.\<close>

definition below :: "nat \<Rightarrow> php option \<Rightarrow> bool" where
  "below n r \<longleftrightarrow> (\<forall>t. r = Some t \<longrightarrow> depth t < n)"

lemma below_children:
  assumes "\<And>k t. (k, t) \<in> set es \<Longrightarrow> \<exists>x. f x = Some t" "\<And>x. below n (f x)"
  shows "foldr max (map (\<lambda>(k, t). Suc (depth t)) es) 0 < Suc n"
  using assms unfolding foldr_max_less below_def by fastforce

lemma below_list: "(\<And>x. below n (f x)) \<Longrightarrow> below (Suc n) (abs_list f vs)"
  unfolding abs_list_def below_def [of "Suc n"]
  by (auto intro!: below_children [where f = f] dest!: index_keys_snd) (blast dest: those_map_set)

lemma below_map: "(\<And>x. below n (f x)) \<Longrightarrow> below (Suc n) (abs_map f m)"
  unfolding abs_map_def below_def [of "Suc n"]
  by (auto intro!: below_children [where f = f] simp del: map_map) (blast dest: abs_entries_set)

lemma below_obj: "(\<And>x. below n (f x)) \<Longrightarrow> below (Suc n) (abs_obj f ob)"
  unfolding abs_obj_def below_def [of "Suc n"]
  by (auto intro!: below_children [where f = f] dest: abs_entries_set)

lemma below_arr: "(\<And>x. below n (f x)) \<Longrightarrow> below (Suc n) (abs_arr f ar)"
  unfolding abs_arr_def below_def [of "Suc n"]
  by (auto intro!: below_children [where f = f] dest: abs_pair_set split: if_splits)

lemma below_absv: "below n (absv h n v)"
proof (induction n arbitrary: v)
  case (Suc n)
  then show ?case
    by (cases v)
      (auto simp: below_list below_map below_obj below_arr below_def [of _ None] below_def [of _ "Some _"]
        split: option.splits, auto simp: below_def)
qed (simp add: below_def)

lemma Encode_iff: "Encode n h v = Ok s \<longleftrightarrow> (\<exists>t. absv h n v = Some t \<and> s = ser t)"
  unfolding Encode_def using implD [OF impl_encodeValue] .

text \<open>Go's map iteration order: any permutation of the entries.\<close>

lemma encodeSortedProperties_perm:
  assumes "wf_map m" "mset m' = mset m"
  shows "encodeSortedProperties enc m' = encodeSortedProperties enc m"
proof -
  have ms: "mset (map fst m') = mset (map fst m)" by (metis assms(2) mset_map)
  then have keys: "sort (map fst m') = sort (map fst m)" "distinct (map fst m')"
    using assms(1) mset_eq_imp_distinct_iff [OF ms] by (simp_all add: wf_map_def properties_for_sort)
  have "set m' = set m" by (metis assms(2) set_mset_mset)
  with keys(2) assms(1) have "map_of m' = map_of m"
    by (simp add: wf_map_def map_of_inject_set)
  then have "encode_props enc m' ks = encode_props enc m ks" for ks by (induction ks) auto
  with keys(1) show ?thesis by (simp add: encodeSortedProperties_def)
qed

lemma Encode_map_perm:
  assumes "wf_map m" "mset m' = mset m"
  shows "Encode n h (VMap m') = Encode n h (VMap m)"
  using encodeSortedProperties_perm [OF assms] mset_eq_length [OF assms(2)]
  by (cases n) (simp_all add: Encode_def encodeMap_def)

text \<open>A raw property name as PHP writes it for each visibility.\<close>

fun mangle :: "Visibility \<Rightarrow> string \<Rightarrow> string \<Rightarrow> string" where
  "mangle Public c name = name"
| "mangle Protected c name = NUL # CHR ''*'' # NUL # name"
| "mangle Private c name = NUL # c @ NUL # name"

section \<open>Encoding\<close>


text \<open>
  C2: round trip. Encoding a value and decoding the text gives a value, in general in new
  cells, that stands for the same PHP tree and so encodes to the same text; whatever
  follows the text is not touched.
\<close>

theorem Decode_Encode:
  assumes "absv h n v = Some t" "wf_php t" "stable t" "go_len (ser t @ rest)"
  shows "\<exists>v' h'. Encode n h v = Ok (ser t) \<and> Decode n (ser t @ rest) = Ok (v', h') \<and>
    absv h' n v' = Some t \<and> Encode n h' v' = Ok (ser t)"
proof -
  have "depth t < n" using below_absv [of n h v] assms(1) by (simp add: below_def)
  then obtain v' h' where "Decode n (ser t @ rest) = Ok (v', h')" "absv h' n v' = Some (norm t)"
    using Decode_ser [OF assms(2) _ assms(4)] by blast
  with assms(1,3) show ?thesis by (auto simp: Encode_iff norm_stable)
qed

text \<open>An object with two properties, held in the heap in the order \<open>x\<close>, \<open>b\<close>.\<close>

abbreviation ex_heap :: heap where
  "ex_heap \<equiv> [CObj \<lparr>ObjClassName = ''A'', Properties = [(''x'', VInt64 5), (''b'', VBool True)]\<rparr>]"

abbreviation ex_tree :: php where
  "ex_tree \<equiv> PObj ''A'' [(''b'', PBool True), (''x'', PInt 5)]"

abbreviation ex_text :: string where
  "ex_text \<equiv> ''O:1:'' @ [dq] @ ''A'' @ [dq] @ '':2:{s:1:'' @ [dq] @ ''b'' @ [dq] @ '';b:1;s:1:'' @
    [dq] @ ''x'' @ [dq] @ '';i:5;}''"

lemma ex_absv: "absv ex_heap 2 (VObject (Some 0)) = Some ex_tree"
  by code_simp

lemma ex_ser: "ser ex_tree = ex_text"
  by code_simp

lemma ex_good: "wf_php ex_tree" "stable ex_tree" "depth ex_tree < 2" "go_len (ex_text @ ''rest'')"
  by code_simp+

theorem Decode_Encode_witness:
  "\<exists>v' h'. Encode 2 ex_heap (VObject (Some 0)) = Ok ex_text \<and> Decode 2 (ex_text @ ''rest'') = Ok (v', h') \<and>
    absv h' 2 v' = Some ex_tree \<and> Encode 2 h' v' = Ok ex_text"
  using Decode_Encode [OF ex_absv ex_good(1,2), of "''rest''"] ex_good(4) unfolding ex_ser by simp

text \<open>
  C3: decoding PHP's text of any tree, with visibility prefixes and in any property order,
  returns a value for the tree's normal form.
\<close>

theorem Decode_php_text:
  assumes "wf_php t" "depth t < n" "go_len (ser t @ rest)"
  shows "\<exists>v h. Decode n (ser t @ rest) = Ok (v, h) \<and> absv h n v = Some (norm t)"
  using Decode_ser [OF assms] by blast

text \<open>A protected property behind a public one of a later name.\<close>

abbreviation ex_raw :: php where
  "ex_raw \<equiv> PObj ''A'' [(''x'', PInt 5), (NUL # CHR ''*'' # NUL # ''b'', PBool True)]"

theorem Decode_php_text_witness:
  "\<exists>v h. Decode 2 (ser ex_raw @ []) = Ok (v, h) \<and> absv h 2 v = Some ex_tree"
proof -
  have "norm ex_raw = ex_tree" by code_simp
  moreover have "wf_php ex_raw" "depth ex_raw < 2" "go_len (ser ex_raw @ [])" by code_simp+
  ultimately show ?thesis using Decode_php_text [of ex_raw 2 "[]"] by metis
qed



text \<open>
  C5: the encoding of a map does not depend on Go's iteration order: every listing of the
  same entries gives the same text (or the same error).
\<close>

theorem Encode_map_order:
  assumes "wf_map m" "mset m' = mset m"
  shows "Encode n h (VMap m') = Encode n h (VMap m)"
  by (rule Encode_map_perm [OF assms])

theorem Encode_map_order_witness:
  "Encode 3 [] (VMap [(''b'', VNil), (''a'', VBool True)]) = Encode 3 [] (VMap [(''a'', VBool True), (''b'', VNil)])"
  by (rule Encode_map_order) (simp_all add: wf_map_def)

section \<open>Property names\<close>

text \<open>
  C6: reading a property name inverts PHP's visibility prefixes: the name, the visibility
  and, for a private property, the declaring class come back, and \<open>stripVisibility\<close> gives
  the same bare name.
\<close>

theorem ParsePropertyName_mangle:
  assumes "NUL \<notin> set name" "NUL \<notin> set c" "c \<noteq> ''*''"
  shows "ParsePropertyName (mangle vis c name) =
      \<lparr>PropName = name, PropVisibility = vis, PropClassName = (if vis = Private then c else [])\<rparr> \<and>
    stripVisibility (mangle vis c name) = name"
proof (cases vis)
  case Public
  with assms(1) show ?thesis
    by (cases name) (auto simp: ParsePropertyName_def stripVisibility_def)
next
  case Protected
  then show ?thesis
    by (simp add: ParsePropertyName_def stripVisibility_def NUL_def)
next
  case Private
  have "\<not> (3 \<le> length (NUL # c @ NUL # name) \<and> (NUL # c @ NUL # name) ! 1 = CHR ''*'' \<and> (NUL # c @ NUL # name) ! 2 = NUL)"
    using assms by (cases c; cases "tl c") (auto simp: NUL_def)
  with Private assms(2) show ?thesis
    by (auto simp: ParsePropertyName_def stripVisibility_def index_byte_append)
qed

theorem ParsePropertyName_mangle_witness:
  "ParsePropertyName (NUL # ''App'' @ NUL # ''id'') =
      \<lparr>PropName = ''id'', PropVisibility = Private, PropClassName = ''App''\<rparr> \<and>
   stripVisibility (NUL # ''App'' @ NUL # ''id'') = ''id''"
  using ParsePropertyName_mangle [of "''id''" "''App''" Private] by (simp add: NUL_def)

section \<open>Texts outside the safe region\<close>

text \<open>
  C7: a negative length or element count in the input makes the decoder panic (slice
  bounds, makeslice) instead of returning an error.
\<close>

theorem Decode_negative_panics:
  assumes "min_int64 \<le> k" "k < 0" "go_len (''s:'' @ FormatInt k @ '':'' @ [dq] @ rest)"
  shows "Decode (Suc n) (''s:'' @ FormatInt k @ '':'' @ [dq] @ rest) = Panic SliceBounds \<and>
    Decode (Suc n) (''a:'' @ FormatInt k @ '':{'' @ rest) = Panic MakeSliceCap"
  using assms by (intro conjI Decode_negative_string Decode_negative_array) (auto simp: go_len_def)

theorem Decode_negative_panics_witness:
  "Decode 1 (''s:-1:'' @ [dq] @ [dq] @ '';'') = Panic SliceBounds \<and>
   Decode 1 (''a:-1:{'' @ [dq] @ '';'') = Panic MakeSliceCap"
proof -
  have "FormatInt (- 1) = ''-1''" by code_simp
  then show ?thesis
    using Decode_negative_panics [of "- 1" "[dq] @ '';''" 0] by (simp add: go_len_def maxAlloc_def)
qed

text \<open>
  C8: there is a text of 41 bytes on which the decoder never returns: with whatever fuel,
  the recursion is not finished.
\<close>

theorem Decode_diverges: "length bomb = 41 \<and> (\<forall>n. Decode n bomb = Fuel)"
  by (simp add: bomb_byte bomb_diverges)

text \<open>
  C9: a back-reference to the enclosing array decodes to an array that contains itself,
  and encoding that value never returns.
\<close>

theorem Encode_decoded_cycle:
  "(\<forall>n. Decode (n + 2) ''a:1:{i:0;R:1;}'' = Ok (VArray (Some 0), loop_heap)) \<and>
   (\<forall>n. Encode n loop_heap (VArray (Some 0)) = Fuel)"
  by (simp only: loop_decodes loop_encode simp_thms)

text \<open>
  C10: an unsigned integer above the largest \<open>int64\<close> is encoded to a text that the decoder
  refuses with a range error; below, the text is read back as the same number.
\<close>

theorem Decode_uint64:
  "Encode (Suc n) h (VUint64 w) = Ok (writeUint (unat w)) \<and>
   Decode (Suc m) (writeUint (unat w)) =
     (if 2 ^ 63 \<le> unat w then Err (EAt (int (length (writeUint (unat w)))) (EInvalidInt ErrRange))
      else Ok (VInt64 w, []))"
proof (cases "2 ^ 63 \<le> unat w")
  case True
  then show ?thesis
    using Decode_writeUint_range [OF True, of m] unsigned_less [of w, where ?'a = nat] by (simp add: Encode_def)
next
  case False
  have w: "word_of_int (int (unat w)) = w" by simp
  from False have "unat w < 2 ^ 63" by (simp only: not_le)
  then have r: "int (unat w) \<le> max_int64" by (rule nat_le_max_int64)
  have "length (FormatUint (unat w)) \<le> 20" using FormatUint_length [of "unat w" 20] False by simp
  then have "go_len (writeUint (unat w))" by (simp add: go_len_def writeUint_def maxAlloc_def)
  moreover have "min_int64 \<le> int (unat w)"
    by (rule order_trans [of _ 0]) simp_all
  ultimately show ?thesis
    using readInt_at [of "int (unat w)" "[]" "[]" "[]" "[]"] r False
    by (simp add: Decode_def init_decoder_at writeUint_def FormatInt_def Encode_def)
qed

end
