(* ===== verification/Php_Helpers.thy ===== *)
theory Php_Helpers
  imports Php_Decoder
begin

text \<open>
  \<open>helpers.go\<close>, the typed getters on decoded objects, and \<open>model_identifier.go\<close>, Laravel's
  reference to a database model. An \<open>*Object\<close> argument is an address or nil; a nil
  pointer inside an \<open>any\<close> (an enum or an array) is dereferenced by the code and panics.
\<close>

section \<open>Getters\<close>

text \<open>\<open>obj.Properties[key]\<close>: an absent key gives nil.\<close>

definition get_prop :: "objectT \<Rightarrow> string \<Rightarrow> any" where
  "get_prop obj key = (case map_of (Properties obj) key of Some v \<Rightarrow> v | None \<Rightarrow> VNil)"

definition deref :: "heap \<Rightarrow> addr option \<Rightarrow> objectT option" where
  "deref h p = Option.bind p (get_obj h)"

definition GetString :: "heap \<Rightarrow> addr option \<Rightarrow> string \<Rightarrow> ('e, string) outcome" where
  "GetString h p key =
     (case deref h p of
        None \<Rightarrow> Ok []
      | Some obj \<Rightarrow>
          (case get_prop obj key of
             VString v \<Rightarrow> Ok v
           | VEnum v \<Rightarrow> (case v of None \<Rightarrow> Panic NilDeref | Some e \<Rightarrow> Ok (CaseName e))
           | _ \<Rightarrow> Ok []))"

definition GetEnum :: "heap \<Rightarrow> addr option \<Rightarrow> string \<Rightarrow> enumT option" where
  "GetEnum h p key =
     (case deref h p of
        None \<Rightarrow> None
      | Some obj \<Rightarrow> (case get_prop obj key of VEnum v \<Rightarrow> v | _ \<Rightarrow> None))"

definition GetInt :: "heap \<Rightarrow> addr option \<Rightarrow> string \<Rightarrow> int64" where
  "GetInt h p key =
     (case deref h p of
        None \<Rightarrow> 0
      | Some obj \<Rightarrow>
          (case get_prop obj key of
             VInt64 val \<Rightarrow> val
           | VFloat64 val \<Rightarrow> word_of_int (int64_of_float val)
           | VInt val \<Rightarrow> val
           | _ \<Rightarrow> 0))"

definition GetFloat :: "heap \<Rightarrow> addr option \<Rightarrow> string \<Rightarrow> float64" where
  "GetFloat h p key =
     (case deref h p of
        None \<Rightarrow> F64 False 0 0
      | Some obj \<Rightarrow>
          (case get_prop obj key of
             VFloat64 val \<Rightarrow> val
           | VInt64 val \<Rightarrow> float_of_int64 (sint val)
           | _ \<Rightarrow> F64 False 0 0))"

definition GetBool :: "heap \<Rightarrow> addr option \<Rightarrow> string \<Rightarrow> bool" where
  "GetBool h p key =
     (case deref h p of
        None \<Rightarrow> False
      | Some obj \<Rightarrow> (case get_prop obj key of VBool v \<Rightarrow> v | _ \<Rightarrow> False))"

text \<open>A nil slice or map is \<open>None\<close>.\<close>

definition GetSlice :: "heap \<Rightarrow> addr option \<Rightarrow> string \<Rightarrow> ('e, any list option) outcome" where
  "GetSlice h p key =
     (case deref h p of
        None \<Rightarrow> Ok None
      | Some obj \<Rightarrow>
          (case get_prop obj key of
             VArray q \<Rightarrow>
               (case Option.bind q (get_arr h) of
                  None \<Rightarrow> Panic NilDeref | Some ar \<Rightarrow> Ok (Some (Values ar)))
           | VSlice vs \<Rightarrow> Ok (Some vs)
           | _ \<Rightarrow> Ok None))"

definition GetMap :: "heap \<Rightarrow> addr option \<Rightarrow> string \<Rightarrow> ('e, any gomap option) outcome" where
  "GetMap h p key =
     (case deref h p of
        None \<Rightarrow> Ok None
      | Some obj \<Rightarrow>
          (case get_prop obj key of
             VArray q \<Rightarrow>
               (case Option.bind q (get_arr h) of
                  None \<Rightarrow> Panic NilDeref | Some ar \<Rightarrow> map_ok Some (ToMap ar))
           | VMap m \<Rightarrow> Ok (Some m)
           | _ \<Rightarrow> Ok None))"

section \<open>Model identifiers\<close>

definition ModelIdentifierClass :: string where
  "ModelIdentifierClass = ''Illuminate'' @ [CHR 0x5C] @ ''Contracts'' @ [CHR 0x5C] @ ''Database'' @
     [CHR 0x5C] @ ''ModelIdentifier''"

record modelIdentifier =
  MClass :: string
  MID :: any
  Relations :: "string list"
  MConnection :: string
  CollectionClass :: "string option"

definition IsModelIdentifier :: "heap \<Rightarrow> addr option \<Rightarrow> bool" where
  "IsModelIdentifier h p =
     (case deref h p of None \<Rightarrow> False | Some obj \<Rightarrow> ObjClassName obj = ModelIdentifierClass)"

text \<open>\<open>if s, ok := v.(string); ok { mid.Relations = append(mid.Relations, s) }\<close>\<close>

fun string_values :: "any list \<Rightarrow> string list" where
  "string_values [] = []"
| "string_values (v # vs) = (case v of VString s \<Rightarrow> s # string_values vs | _ \<Rightarrow> string_values vs)"

definition AsModelIdentifier :: "heap \<Rightarrow> any \<Rightarrow> ('e, modelIdentifier option) outcome" where
  "AsModelIdentifier h v =
     (case v of
        VObject p \<Rightarrow>
          (case deref h p of
             None \<Rightarrow> Ok None
           | Some obj \<Rightarrow>
               if \<not> IsModelIdentifier h p then Ok None
               else
                 bind_ok (GetString h p ''class'') (\<lambda>cls.
                 bind_ok (GetString h p ''connection'') (\<lambda>conn.
                 bind_ok (case get_prop obj ''relations'' of
                            VArray q \<Rightarrow>
                              (case Option.bind q (get_arr h) of
                                 None \<Rightarrow> Panic NilDeref | Some rels \<Rightarrow> Ok (string_values (Values rels)))
                          | _ \<Rightarrow> Ok []) (\<lambda>rels.
                   Ok (Some \<lparr>MClass = cls, MID = get_prop obj ''id'', Relations = rels, MConnection = conn,
                        CollectionClass = (case get_prop obj ''collectionClass'' of VString cc \<Rightarrow> Some cc | _ \<Rightarrow> None)\<rparr>)))))
      | _ \<Rightarrow> Ok None)"

definition relations_array :: "string list \<Rightarrow> arrayT" where
  "relations_array rs =
     \<lparr>Keys = map (\<lambda>i. VInt64 (of_nat i)) [0..<length rs], Values = map VString rs\<rparr>"

definition ToObject :: "modelIdentifier \<Rightarrow> heap \<Rightarrow> addr \<times> heap" where
  "ToObject m h =
     (case alloc (CArr (relations_array (Relations m))) h of
        (r, h1) \<Rightarrow>
          alloc (CObj \<lparr>ObjClassName = ModelIdentifierClass,
            Properties =
              [(''class'', VString (MClass m)), (''id'', MID m), (''connection'', VString (MConnection m)),
               (''collectionClass'', case CollectionClass m of Some cc \<Rightarrow> VString cc | None \<Rightarrow> VNil),
               (''relations'', VArray (Some r))]\<rparr>) h1)"

section \<open>Lemmas\<close>

lemma string_values_map [simp]: "string_values (map VString ss) = ss"
  by (induction ss) auto

lemma relations_sequential [simp]: "IsSequential (relations_array rs)"
  by (simp add: IsSequential_iff relations_array_def Len_def)

text \<open>The getters on a property of the type they ask for, and on an absent property.\<close>

lemma getters_hit:
  assumes "deref h p = Some obj"
  shows "map_of (Properties obj) k = Some (VString s) \<Longrightarrow> GetString h p k = Ok s"
    "map_of (Properties obj) k = Some (VInt64 n) \<Longrightarrow> GetInt h p k = n"
    "map_of (Properties obj) k = Some (VFloat64 f) \<Longrightarrow> GetFloat h p k = f"
    "map_of (Properties obj) k = Some (VBool b) \<Longrightarrow> GetBool h p k = b"
    "map_of (Properties obj) k = Some (VEnum e) \<Longrightarrow> GetEnum h p k = e"
  using assms by (simp_all add: GetString_def GetInt_def GetFloat_def GetBool_def GetEnum_def get_prop_def)

lemma getters_absent:
  assumes "\<forall>obj. deref h p = Some obj \<longrightarrow> map_of (Properties obj) k = None"
  shows "GetString h p k = Ok []" "GetInt h p k = 0" "GetFloat h p k = F64 False 0 0" "GetBool h p k = False"
    "GetEnum h p k = None" "GetSlice h p k = Ok None" "GetMap h p k = Ok None"
  using assms
  by (auto simp: GetString_def GetInt_def GetFloat_def GetBool_def GetEnum_def GetSlice_def GetMap_def get_prop_def
      split: option.splits)

lemma AsModelIdentifier_ToObject:
  assumes "ToObject m h = (a, h')"
  shows "AsModelIdentifier h' (VObject (Some a)) = Ok (Some m)"
proof -
  let ?arr = "relations_array (Relations m)"
  define obj where "obj = \<lparr>ObjClassName = ModelIdentifierClass,
    Properties =
      [(''class'', VString (MClass m)), (''id'', MID m), (''connection'', VString (MConnection m)),
       (''collectionClass'', case CollectionClass m of Some cc \<Rightarrow> VString cc | None \<Rightarrow> VNil),
       (''relations'', VArray (Some (length h)))]\<rparr>"
  have h': "h' = h @ [CArr ?arr, CObj obj]" "a = Suc (length h)"
    using assms by (auto simp: ToObject_def alloc_def obj_def)
  have "deref h' (Some a) = Some obj" "get_arr h' (length h) = Some ?arr"
    by (simp_all add: h' deref_def get_obj_def get_arr_def nth_append)
  then show ?thesis
    by (simp add: AsModelIdentifier_def IsModelIdentifier_def GetString_def get_prop_def obj_def relations_array_def
        split: option.splits)
qed

end
