(* ===== verification/Redis_Service.thy ===== *)
theory Redis_Service
  imports Go_Strconv "HOL-Library.Product_Lexorder"
begin

text \<open>
  Redis and the go-redis client are not part of the repository: they are the parameter
  \<open>'s client\<close>, a record with the effect of one command on the server state \<open>'s\<close> and the
  delivery of a request (a command or a script). What the queue relies on is stated as
  locales over a view of the server state, in the words of the Redis command reference;
  an in-memory server at the end satisfies them.
\<close>

section \<open>Commands, replies and the client\<close>

text \<open>Scores are the integral Unix times the code passes (as \<open>float64\<close>, exact below $2^{53}$).\<close>

datatype cmd =
    RPush string string
  | LPop string
  | BLPop string int
  | LLen string
  | Del "string list"
  | ZAdd string int string
  | ZRem string string
  | ZCard string
  | ZRangeByScore string int int \<comment> \<open>key, upper score (lower is -inf), LIMIT 0 count\<close>
  | ZRemRangeByRank string int int
  | Incr string
  | Decr string
  | Expire string int \<comment> \<open>key, seconds\<close>
  | SetNX string int int \<comment> \<open>key, value, expiry in nanoseconds (0 for none)\<close>

datatype reply = RNil | RInt int | RStr string | RList "string list"

datatype redis_error = RedisNil | CtxCanceled | CtxDeadline | WrongType | RedisErr string

type_synonym 's req = "'s \<Rightarrow> (redis_error + reply) \<times> 's"

record 's client =
  call :: "cmd \<Rightarrow> 's req"
  deliver :: "'s req \<Rightarrow> 's req"

text \<open>A Lua script: \<open>redis.call\<close> raises the command's error, which ends the script with the effects so far.\<close>

definition lseq :: "'s req \<Rightarrow> (reply \<Rightarrow> 's req) \<Rightarrow> 's req" where
  "lseq m f s = (case m s of (Inl e, s') \<Rightarrow> (Inl e, s') | (Inr r, s') \<Rightarrow> f r s')"

definition lreturn :: "reply \<Rightarrow> 's req" where
  "lreturn r s = (Inr r, s)"

text \<open>The conversion of Lua's \<open>true\<close> and \<open>false\<close> to replies.\<close>

abbreviation LTrue :: reply where "LTrue \<equiv> RInt 1"
abbreviation LFalse :: reply where "LFalse \<equiv> RNil"

section \<open>The store a server state stands for\<close>

text \<open>
  A sorted set is listed by score, then by member; a number is a string value that counts,
  with the mark whether it expires.
\<close>

datatype rvalue = RedisList "string list" | RedisZ "(int \<times> string) list" | RedisNum int bool

type_synonym store = "string \<Rightarrow> rvalue option"

fun list_at :: "store \<Rightarrow> string \<Rightarrow> string list option" where
  "list_at m k = (case m k of None \<Rightarrow> Some [] | Some (RedisList xs) \<Rightarrow> Some xs | Some _ \<Rightarrow> None)"

fun zset_at :: "store \<Rightarrow> string \<Rightarrow> (int \<times> string) list option" where
  "zset_at m k = (case m k of None \<Rightarrow> Some [] | Some (RedisZ zs) \<Rightarrow> Some zs | Some _ \<Rightarrow> None)"

text \<open>An empty list or set is no key.\<close>

definition put_list :: "store \<Rightarrow> string \<Rightarrow> string list \<Rightarrow> store" where
  "put_list m k xs = m(k := if xs = [] then None else Some (RedisList xs))"

definition put_zset :: "store \<Rightarrow> string \<Rightarrow> (int \<times> string) list \<Rightarrow> store" where
  "put_zset m k zs = m(k := if zs = [] then None else Some (RedisZ zs))"

definition zremove :: "string \<Rightarrow> (int \<times> string) list \<Rightarrow> (int \<times> string) list" where
  "zremove v zs = filter (\<lambda>p. snd p \<noteq> v) zs"

definition zinsert :: "int \<Rightarrow> string \<Rightarrow> (int \<times> string) list \<Rightarrow> (int \<times> string) list" where
  "zinsert sc v zs = insort (sc, v) (zremove v zs)"

definition zdue :: "int \<Rightarrow> int \<Rightarrow> (int \<times> string) list \<Rightarrow> (int \<times> string) list" where
  "zdue hi n zs =
     (let due = filter (\<lambda>p. fst p \<le> hi) zs in if n < 0 then due else take (nat n) due)"

definition wf_zset :: "(int \<times> string) list \<Rightarrow> bool" where
  "wf_zset zs \<longleftrightarrow> sorted zs \<and> distinct (map snd zs)"

section \<open>What the code relies on\<close>

text \<open>
  The commands, for keys of the right type. \<open>ZREMRANGEBYRANK k 0 j\<close> is only needed from
  rank 0 on. A \<open>BLPOP\<close> that finds an element is an \<open>LPOP\<close>; one that waits in vain gives nil.
\<close>

locale redis_server =
  fixes cl :: "'s client" and view :: "'s \<Rightarrow> store"
  assumes rpush: "list_at (view s) k = Some xs \<Longrightarrow>
      \<exists>s'. call cl (RPush k v) s = (Inr (RInt (int (length xs) + 1)), s') \<and>
        view s' = put_list (view s) k (xs @ [v])"
    and lpop_Nil: "list_at (view s) k = Some [] \<Longrightarrow>
      \<exists>s'. call cl (LPop k) s = (Inr RNil, s') \<and> view s' = view s"
    and lpop_Cons: "list_at (view s) k = Some (x # xs) \<Longrightarrow>
      \<exists>s'. call cl (LPop k) s = (Inr (RStr x), s') \<and> view s' = put_list (view s) k xs"
    and blpop_Nil: "list_at (view s) k = Some [] \<Longrightarrow>
      \<exists>s'. call cl (BLPop k t) s = (Inr RNil, s') \<and> view s' = view s"
    and blpop_Cons: "list_at (view s) k = Some (x # xs) \<Longrightarrow>
      \<exists>s'. call cl (BLPop k t) s = (Inr (RList [k, x]), s') \<and> view s' = put_list (view s) k xs"
    and llen: "list_at (view s) k = Some xs \<Longrightarrow>
      \<exists>s'. call cl (LLen k) s = (Inr (RInt (int (length xs))), s') \<and> view s' = view s"
    and del: "\<exists>r s'. call cl (Del ks) s = (Inr r, s') \<and> view s' = (\<lambda>k. if k \<in> set ks then None else view s k)"
    and zadd: "zset_at (view s) k = Some zs \<Longrightarrow>
      \<exists>r s'. call cl (ZAdd k sc v) s = (Inr r, s') \<and> view s' = put_zset (view s) k (zinsert sc v zs)"
    and zrem: "zset_at (view s) k = Some zs \<Longrightarrow>
      \<exists>r s'. call cl (ZRem k v) s = (Inr r, s') \<and> view s' = put_zset (view s) k (zremove v zs)"
    and zcard: "zset_at (view s) k = Some zs \<Longrightarrow>
      \<exists>s'. call cl (ZCard k) s = (Inr (RInt (int (length zs))), s') \<and> view s' = view s"
    and zrangebyscore: "zset_at (view s) k = Some zs \<Longrightarrow>
      \<exists>s'. call cl (ZRangeByScore k hi n) s = (Inr (RList (map snd (zdue hi n zs))), s') \<and> view s' = view s"
    and zremrangebyrank: "zset_at (view s) k = Some zs \<Longrightarrow> 0 \<le> j \<Longrightarrow>
      \<exists>r s'. call cl (ZRemRangeByRank k 0 j) s = (Inr r, s') \<and>
        view s' = put_zset (view s) k (drop (nat (j + 1)) zs)"

text \<open>
  The commands on counters and locks. A key that \<open>EXPIRE\<close> gives no positive time is
  removed at once; \<open>INCR\<close> and \<open>DECR\<close> start from 0, without an expiry.
\<close>

fun num_at :: "store \<Rightarrow> string \<Rightarrow> (int \<times> bool) option" where
  "num_at m k = (case m k of None \<Rightarrow> Some (0, False) | Some (RedisNum n x) \<Rightarrow> Some (n, x) | Some _ \<Rightarrow> None)"

locale redis_counters =
  fixes cl :: "'s client" and view :: "'s \<Rightarrow> store"
  assumes incr: "num_at (view s) k = Some (n, x) \<Longrightarrow>
      \<exists>s'. call cl (Incr k) s = (Inr (RInt (n + 1)), s') \<and> view s' = (view s)(k \<mapsto> RedisNum (n + 1) x)"
    and decr: "num_at (view s) k = Some (n, x) \<Longrightarrow>
      \<exists>s'. call cl (Decr k) s = (Inr (RInt (n - 1)), s') \<and> view s' = (view s)(k \<mapsto> RedisNum (n - 1) x)"
    and expire: "view s k = Some (RedisNum n x) \<Longrightarrow>
      \<exists>r s'. call cl (Expire k t) s = (Inr r, s') \<and>
        view s' = (view s)(k := if 0 < t then Some (RedisNum n True) else None)"
    and setnx_free: "view s k = None \<Longrightarrow>
      \<exists>s'. call cl (SetNX k v t) s = (Inr (RInt 1), s') \<and> view s' = (view s)(k \<mapsto> RedisNum v (0 < t))"
    and setnx_held: "view s k = Some c \<Longrightarrow>
      \<exists>s'. call cl (SetNX k v t) s = (Inr (RInt 0), s') \<and> view s' = view s"
    and del_key: "\<exists>r s'. call cl (Del [k]) s = (Inr r, s') \<and> r \<noteq> RNil \<and> view s' = (view s)(k := None)"
    and delivered_counters: "f s = (Inr r, s') \<Longrightarrow> r \<noteq> RNil \<Longrightarrow> deliver cl f s = (Inr r, s')"

text \<open>
  Delivery over an unreliable link: the request is executed as a whole or not at all, and
  the client sees its reply (nil as the error \<open>redis.Nil\<close>) or an error of the link.
\<close>

definition go_reply :: "(redis_error + reply) \<times> 's \<Rightarrow> (redis_error + reply) \<times> 's" where
  "go_reply r = (case r of (Inr RNil, s') \<Rightarrow> (Inl RedisNil, s') | _ \<Rightarrow> r)"

locale redis_link = redis_server +
  assumes link: "deliver cl f s = go_reply (f s) \<or>
    (\<exists>e. deliver cl f s = (Inl e, s)) \<or> (\<exists>e. deliver cl f s = (Inl e, snd (f s)))"

text \<open>A link that always delivers.\<close>

locale redis_reliable = redis_server +
  assumes delivered: "deliver cl f s = go_reply (f s)"

sublocale redis_reliable \<subseteq> redis_link
  by unfold_locales (simp add: delivered)

section \<open>Sorted sets\<close>

lemma zremove_wf [simp]: "wf_zset zs \<Longrightarrow> wf_zset (zremove v zs)"
  unfolding wf_zset_def zremove_def
  by (auto simp: distinct_map inj_on_def intro: sorted_wrt_filter)

lemma insort_members: "set (map snd (insort (sc, v) zs)) = insert v (set (map snd zs))"
  by (auto simp: set_insort_key)

lemma zinsert_wf [simp]: "wf_zset zs \<Longrightarrow> wf_zset (zinsert sc v zs)"
proof -
  assume "wf_zset zs"
  then have w: "wf_zset (zremove v zs)" by simp
  have v: "v \<notin> set (map snd (zremove v zs))" by (auto simp: zremove_def)
  have "distinct (map snd (insort (sc, v) xs))" if "distinct (map snd xs)" "v \<notin> set (map snd xs)" for xs
    using that
  proof (induction xs)
    case (Cons x xs)
    then show ?case using insort_members [of sc v xs] by (auto simp: image_iff)
  qed simp
  with w v show "wf_zset (zinsert sc v zs)"
    by (simp add: wf_zset_def zinsert_def sorted_insort)
qed

lemma wf_zset_drop [simp]: "wf_zset zs \<Longrightarrow> wf_zset (drop n zs)"
  by (simp add: wf_zset_def sorted_wrt_drop drop_map [symmetric] distinct_drop)

lemma zinsert_mem [simp]: "set (map snd (zinsert sc v zs)) = insert v (set (map snd zs))"
  unfolding zinsert_def insort_members by (auto simp: zremove_def)

text \<open>In a sorted set the members that are due come first.\<close>

lemma sorted_filter_prefix:
  "sorted zs \<Longrightarrow> filter (\<lambda>p. fst p \<le> hi) zs = takeWhile (\<lambda>p. fst p \<le> hi) (zs :: (int \<times> string) list)"
proof (induction zs)
  case (Cons z zs)
  show ?case
  proof (cases "fst z \<le> hi")
    case True
    with Cons show ?thesis by simp
  next
    case False
    with Cons.prems have "\<forall>p \<in> set zs. \<not> fst p \<le> hi" by (fastforce simp: less_eq_prod_def)
    with False show ?thesis by simp
  qed
qed simp

lemma zdue_prefix:
  assumes "wf_zset zs"
  shows "zs = zdue hi n zs @ drop (length (zdue hi n zs)) zs"
proof -
  have "\<exists>m. zdue hi n zs = take m zs"
    using assms sorted_filter_prefix [of zs hi] takeWhile_eq_take [of "\<lambda>p. fst p \<le> hi" zs]
    unfolding zdue_def wf_zset_def Let_def by (metis take_take)
  then show ?thesis by (metis append_eq_conv_conj append_take_drop_id)
qed

section \<open>An in-memory server\<close>

definition with_list :: "store \<Rightarrow> string \<Rightarrow> (string list \<Rightarrow> reply \<times> store) \<Rightarrow> (redis_error + reply) \<times> store" where
  "with_list m k f =
     (case list_at m k of None \<Rightarrow> (Inl WrongType, m) | Some xs \<Rightarrow> map_prod Inr id (f xs))"

definition with_zset ::
  "store \<Rightarrow> string \<Rightarrow> ((int \<times> string) list \<Rightarrow> reply \<times> store) \<Rightarrow> (redis_error + reply) \<times> store" where
  "with_zset m k f =
     (case zset_at m k of None \<Rightarrow> (Inl WrongType, m) | Some zs \<Rightarrow> map_prod Inr id (f zs))"

definition with_num :: "store \<Rightarrow> string \<Rightarrow> (int \<Rightarrow> bool \<Rightarrow> reply \<times> store) \<Rightarrow> (redis_error + reply) \<times> store" where
  "with_num m k f =
     (case num_at m k of None \<Rightarrow> (Inl WrongType, m) | Some (n, x) \<Rightarrow> map_prod Inr id (f n x))"

fun mem_call :: "cmd \<Rightarrow> store req" where
  "mem_call (RPush k v) m = with_list m k (\<lambda>xs. (RInt (int (length xs) + 1), put_list m k (xs @ [v])))"
| "mem_call (LPop k) m =
     with_list m k (\<lambda>xs. case xs of [] \<Rightarrow> (RNil, m) | x # ys \<Rightarrow> (RStr x, put_list m k ys))"
| "mem_call (BLPop k t) m =
     with_list m k (\<lambda>xs. case xs of [] \<Rightarrow> (RNil, m) | x # ys \<Rightarrow> (RList [k, x], put_list m k ys))"
| "mem_call (LLen k) m = with_list m k (\<lambda>xs. (RInt (int (length xs)), m))"
| "mem_call (Del ks) m = (Inr (RInt (int (length (filter (\<lambda>k. m k \<noteq> None) (remdups ks))))), (\<lambda>k. if k \<in> set ks then None else m k))"
| "mem_call (ZAdd k sc v) m = with_zset m k (\<lambda>zs. (RInt 1, put_zset m k (zinsert sc v zs)))"
| "mem_call (ZRem k v) m = with_zset m k (\<lambda>zs. (RInt 1, put_zset m k (zremove v zs)))"
| "mem_call (ZCard k) m = with_zset m k (\<lambda>zs. (RInt (int (length zs)), m))"
| "mem_call (ZRangeByScore k hi n) m = with_zset m k (\<lambda>zs. (RList (map snd (zdue hi n zs)), m))"
| "mem_call (ZRemRangeByRank k i j) m =
     with_zset m k (\<lambda>zs. (RInt (int (length zs)), put_zset m k (take (nat i) zs @ drop (nat (j + 1)) zs)))"
| "mem_call (Incr k) m = with_num m k (\<lambda>n x. (RInt (n + 1), m(k \<mapsto> RedisNum (n + 1) x)))"
| "mem_call (Decr k) m = with_num m k (\<lambda>n x. (RInt (n - 1), m(k \<mapsto> RedisNum (n - 1) x)))"
| "mem_call (Expire k t) m =
     (case m k of
        Some (RedisNum n x) \<Rightarrow> (Inr (RInt 1), m(k := if 0 < t then Some (RedisNum n True) else None))
      | _ \<Rightarrow> (Inr (RInt 0), m))"
| "mem_call (SetNX k v t) m =
     (if m k = None then (Inr (RInt 1), m(k \<mapsto> RedisNum v (0 < t))) else (Inr (RInt 0), m))"

definition mem_client :: "store client" where
  "mem_client = \<lparr>call = mem_call, deliver = (\<lambda>f s. go_reply (f s))\<rparr>"

interpretation mem: redis_reliable mem_client id
  by unfold_locales
    (simp_all add: mem_client_def with_list_def with_zset_def cong: if_cong del: list_at.simps zset_at.simps)

interpretation mem_counters: redis_counters mem_client id
proof
  show "\<exists>r s'. call mem_client (Del [k]) s = (Inr r, s') \<and> r \<noteq> RNil \<and> id s' = (id s)(k := None)" for s k
    by (auto simp: mem_client_def)
  show "deliver mem_client f s = (Inr r, s')" if "f s = (Inr r, s')" "r \<noteq> RNil" for f s r s'
    using that by (auto simp: mem_client_def go_reply_def split: reply.splits)
qed (auto simp: mem_client_def with_num_def simp del: num_at.simps)

end
