(* ===== verification/Queue_Driver.thy ===== *)
theory Queue_Driver
  imports Redis_Service
begin

text \<open>
  \<open>keys.go\<close>, \<open>lua.go\<close> and \<open>redis_driver.go\<close>: the key names, the Lua scripts as sequences of
  Redis commands, and the methods of \<open>RedisDriver\<close>. Times are nanoseconds since the Unix
  epoch; the clock readings of a method are its argument \<open>now\<close>, \<open>now i\<close> being the i-th
  \<open>time.Now()\<close> it executes. The server is the parameter \<open>cl\<close>.
\<close>

section \<open>Keys\<close>

record Keys =
  Prefix :: string

definition NewKeys :: "string \<Rightarrow> Keys" where
  "NewKeys prefix = \<lparr>Prefix = prefix\<rparr>"

definition Ready :: "Keys \<Rightarrow> string \<Rightarrow> string" where
  "Ready k queue = Prefix k @ ''queues:'' @ queue"

definition Delayed :: "Keys \<Rightarrow> string \<Rightarrow> string" where
  "Delayed k queue = Prefix k @ ''queues:'' @ queue @ '':delayed''"

definition Reserved :: "Keys \<Rightarrow> string \<Rightarrow> string" where
  "Reserved k queue = Prefix k @ ''queues:'' @ queue @ '':reserved''"

definition Notify :: "Keys \<Rightarrow> string \<Rightarrow> string" where
  "Notify k queue = Prefix k @ ''queues:'' @ queue @ '':notify''"

section \<open>Lua scripts\<close>

definition luaPush :: "'s client \<Rightarrow> string \<Rightarrow> string \<Rightarrow> string \<Rightarrow> 's req" where
  "luaPush cl k1 k2 payload =
     lseq (call cl (RPush k1 payload)) (\<lambda>_.
     lseq (call cl (RPush k2 ''1'')) (\<lambda>_.
     lreturn LTrue))"

definition luaLater :: "'s client \<Rightarrow> string \<Rightarrow> string \<Rightarrow> int \<Rightarrow> string \<Rightarrow> 's req" where
  "luaLater cl k1 k2 availableAt payload =
     lseq (call cl (ZAdd k1 availableAt payload)) (\<lambda>_.
     lseq (call cl (RPush k2 ''1'')) (\<lambda>_.
     lreturn LTrue))"

text \<open>\<open>lpop\<close> gives \<open>false\<close> in Lua when the list is empty.\<close>

definition luaPop :: "'s client \<Rightarrow> string \<Rightarrow> string \<Rightarrow> int \<Rightarrow> 's req" where
  "luaPop cl k1 k2 reservedUntil =
     lseq (call cl (LPop k1)) (\<lambda>job.
       case job of
         RStr j \<Rightarrow> lseq (call cl (ZAdd k2 reservedUntil j)) (\<lambda>_. lreturn (RStr j))
       | _ \<Rightarrow> lreturn LFalse)"

definition luaRelease :: "'s client \<Rightarrow> string \<Rightarrow> string \<Rightarrow> string \<Rightarrow> int \<Rightarrow> 's req" where
  "luaRelease cl k1 k2 payload availableAt =
     lseq (call cl (ZRem k2 payload)) (\<lambda>_.
     lseq (call cl (ZAdd k1 availableAt payload)) (\<lambda>_.
     lreturn LTrue))"

definition luaDelete :: "'s client \<Rightarrow> string \<Rightarrow> string \<Rightarrow> 's req" where
  "luaDelete cl k1 payload = lseq (call cl (ZRem k1 payload)) (\<lambda>_. lreturn LTrue)"

fun lua_push_all :: "'s client \<Rightarrow> string \<Rightarrow> string \<Rightarrow> string list \<Rightarrow> reply \<Rightarrow> 's req" where
  "lua_push_all cl k2 k3 [] r = lreturn r"
| "lua_push_all cl k2 k3 (v # vs) r =
     lseq (call cl (RPush k2 v)) (\<lambda>_. lseq (call cl (RPush k3 ''1'')) (\<lambda>_. lua_push_all cl k2 k3 vs r))"

definition luaMigrate :: "'s client \<Rightarrow> string \<Rightarrow> string \<Rightarrow> string \<Rightarrow> int \<Rightarrow> int \<Rightarrow> 's req" where
  "luaMigrate cl k1 k2 k3 currentTime batch =
     lseq (call cl (ZRangeByScore k1 currentTime batch)) (\<lambda>r.
       case r of
         RList val \<Rightarrow>
           if val \<noteq> []
           then lseq (call cl (ZRemRangeByRank k1 0 (int (length val) - 1))) (\<lambda>_. lua_push_all cl k2 k3 val (RList val))
           else lreturn (RList val)
       | _ \<Rightarrow> lreturn r)"

definition luaClear :: "'s client \<Rightarrow> string \<Rightarrow> string \<Rightarrow> string \<Rightarrow> string \<Rightarrow> 's req" where
  "luaClear cl k1 k2 k3 k4 =
     lseq (call cl (LLen k1)) (\<lambda>a.
     lseq (call cl (ZCard k2)) (\<lambda>b.
     lseq (call cl (ZCard k3)) (\<lambda>c.
       case (a, b, c) of
         (RInt x, RInt y, RInt z) \<Rightarrow> lseq (call cl (Del [k1, k2, k3, k4])) (\<lambda>_. lreturn (RInt (x + y + z)))
       | _ \<Rightarrow> (\<lambda>s. (Inl (RedisErr ''attempt to perform arithmetic on a non-number''), s)))))"

section \<open>The driver\<close>

abbreviation second :: int where "second \<equiv> 1000000000"

text \<open>\<open>t.Unix()\<close>\<close>

definition Unix :: "int \<Rightarrow> int" where
  "Unix t = t div second"

record RedisDriver =
  keys :: Keys
  retryAfter :: int
  blockFor :: int
  batchSize :: int
  lastMigratedAt :: "int gomap"

record RedisDriverConfig =
  CfgPrefix :: string
  NoPrefix :: bool
  RetryAfter :: int
  BlockFor :: int
  BatchSize :: int

record RawJob =
  Body :: string
  Queue :: string
  ReservedUntil :: int

datatype driver_error =
    EPush string redis_error | ELater string redis_error | EMigrateExpired driver_error
  | EMigrateDelayed redis_error | EMigrateReserved redis_error | EPop redis_error | ECtx redis_error
  | EDelete redis_error | ERelease redis_error | ESize redis_error | EClear string redis_error

definition DefaultRedisPrefix :: string where
  "DefaultRedisPrefix = ''laravel-database-''"

definition NewRedisDriver :: "RedisDriverConfig \<Rightarrow> RedisDriver" where
  "NewRedisDriver cfg =
     \<lparr>keys = NewKeys (if NoPrefix cfg then [] else if CfgPrefix cfg = [] then DefaultRedisPrefix else CfgPrefix cfg),
      retryAfter = (if RetryAfter cfg = 0 then 90 * second else RetryAfter cfg),
      blockFor = BlockFor cfg,
      batchSize = (if BatchSize cfg = 0 then 100 else BatchSize cfg),
      lastMigratedAt = []\<rparr>"

definition Push :: "'s client \<Rightarrow> RedisDriver \<Rightarrow> string \<Rightarrow> string \<Rightarrow> 's \<Rightarrow> (driver_error + string) \<times> 's" where
  "Push cl d queue payload s =
     (case deliver cl (luaPush cl (Ready (keys d) queue) (Notify (keys d) queue) payload) s of
        (Inl e, s') \<Rightarrow> (Inl (EPush queue e), s')
      | (Inr _, s') \<Rightarrow> (Inr [], s'))"

definition Later ::
  "'s client \<Rightarrow> RedisDriver \<Rightarrow> (nat \<Rightarrow> int) \<Rightarrow> string \<Rightarrow> int \<Rightarrow> string \<Rightarrow> 's \<Rightarrow> (driver_error + string) \<times> 's" where
  "Later cl d now queue delay payload s =
     (let availableAt = Unix (now 0 + delay)
      in case deliver cl (luaLater cl (Delayed (keys d) queue) (Notify (keys d) queue) availableAt payload) s of
           (Inl e, s') \<Rightarrow> (Inl (ELater queue e), s')
         | (Inr _, s') \<Rightarrow> (Inr [], s'))"

text \<open>
  A queue that was never migrated has the zero \<open>time.Time\<close>, centuries ago. The mutex makes
  the method atomic.
\<close>

definition shouldMigrate :: "RedisDriver \<Rightarrow> (nat \<Rightarrow> int) \<Rightarrow> string \<Rightarrow> bool \<times> RedisDriver" where
  "shouldMigrate d now queue =
     (if (case map_of (lastMigratedAt d) queue of None \<Rightarrow> False | Some t \<Rightarrow> now 0 - t < second)
      then (False, d)
      else (True, d\<lparr>lastMigratedAt := AList.update queue (now 1) (lastMigratedAt d)\<rparr>))"

definition migrateFrom ::
  "'s client \<Rightarrow> RedisDriver \<Rightarrow> string \<Rightarrow> string \<Rightarrow> string \<Rightarrow> int \<Rightarrow> 's \<Rightarrow> redis_error option \<times> 's" where
  "migrateFrom cl d from to notify now s =
     (case deliver cl (luaMigrate cl from to notify now (batchSize d)) s of
        (Inl e, s') \<Rightarrow> (Some e, s')
      | (Inr _, s') \<Rightarrow> (None, s'))"

definition MigrateExpiredJobs ::
  "'s client \<Rightarrow> RedisDriver \<Rightarrow> (nat \<Rightarrow> int) \<Rightarrow> string \<Rightarrow> 's \<Rightarrow> driver_error option \<times> 's" where
  "MigrateExpiredJobs cl d now queue s =
     (let t = Unix (now 0); k = keys d
      in case migrateFrom cl d (Delayed k queue) (Ready k queue) (Notify k queue) t s of
           (Some e, s1) \<Rightarrow> (Some (EMigrateDelayed e), s1)
         | (None, s1) \<Rightarrow>
             (case migrateFrom cl d (Reserved k queue) (Ready k queue) (Notify k queue) t s1 of
                (Some e, s2) \<Rightarrow> (Some (EMigrateReserved e), s2)
              | (None, s2) \<Rightarrow> (None, s2)))"

definition popFromQueue ::
  "'s client \<Rightarrow> RedisDriver \<Rightarrow> (nat \<Rightarrow> int) \<Rightarrow> string \<Rightarrow> 's \<Rightarrow> (driver_error + RawJob option) \<times> 's" where
  "popFromQueue cl d now queue s =
     (let reservedUntil = Unix (now 0 + retryAfter d)
      in case deliver cl (luaPop cl (Ready (keys d) queue) (Reserved (keys d) queue) reservedUntil) s of
           (Inl e, s') \<Rightarrow> if e = RedisNil then (Inr None, s') else (Inl (EPop e), s')
         | (Inr (RStr body), s') \<Rightarrow>
             (Inr (Some \<lparr>Body = body, Queue = queue, ReservedUntil = now 1 + retryAfter d\<rparr>), s')
         | (Inr _, s') \<Rightarrow> (Inr None, s'))"

text \<open>
  Clock readings: 0 and 1 in \<open>shouldMigrate\<close>, 2 in \<open>MigrateExpiredJobs\<close>, 3 and 4 in
  \<open>popFromQueue\<close>. An error of \<open>BLPop\<close> other than a done context is passed over.
\<close>

definition Pop ::
  "'s client \<Rightarrow> RedisDriver \<Rightarrow> (nat \<Rightarrow> int) \<Rightarrow> string \<Rightarrow> 's \<Rightarrow>
   (driver_error + RawJob option) \<times> RedisDriver \<times> 's" where
  "Pop cl d now queue s =
     (case shouldMigrate d now queue of
        (mig, d') \<Rightarrow>
          (case (if mig then MigrateExpiredJobs cl d' (\<lambda>i. now (i + 2)) queue s else (None, s)) of
             (Some e, s1) \<Rightarrow> (Inl (EMigrateExpired e), d', s1)
           | (None, s1) \<Rightarrow>
               (case (if 0 < blockFor d' then deliver cl (call cl (BLPop (Notify (keys d') queue) (blockFor d'))) s1
                      else (Inr RNil, s1)) of
                  (r, s2) \<Rightarrow>
                    if r = Inl CtxCanceled then (Inl (ECtx CtxCanceled), d', s2)
                    else if r = Inl CtxDeadline then (Inl (ECtx CtxDeadline), d', s2)
                    else (case popFromQueue cl d' (\<lambda>i. now (i + 3)) queue s2 of (res, s3) \<Rightarrow> (res, d', s3)))))"

definition Delete :: "'s client \<Rightarrow> RedisDriver \<Rightarrow> RawJob \<Rightarrow> 's \<Rightarrow> driver_error option \<times> 's" where
  "Delete cl d job s =
     (case deliver cl (luaDelete cl (Reserved (keys d) (Queue job)) (Body job)) s of
        (Inl e, s') \<Rightarrow> (Some (EDelete e), s')
      | (Inr _, s') \<Rightarrow> (None, s'))"

definition Release ::
  "'s client \<Rightarrow> RedisDriver \<Rightarrow> (nat \<Rightarrow> int) \<Rightarrow> RawJob \<Rightarrow> int \<Rightarrow> 's \<Rightarrow> driver_error option \<times> 's" where
  "Release cl d now job delay s =
     (let availableAt = Unix (now 0 + delay)
      in case deliver cl (luaRelease cl (Delayed (keys d) (Queue job)) (Reserved (keys d) (Queue job))
                (Body job) availableAt) s of
           (Inl e, s') \<Rightarrow> (Some (ERelease e), s')
         | (Inr _, s') \<Rightarrow> (None, s'))"

text \<open>The integer of a reply, as the client's \<open>Int64()\<close> reads it.\<close>

definition reply_int64 :: "redis_error + reply \<Rightarrow> redis_error + int" where
  "reply_int64 r =
     (case r of
        Inl e \<Rightarrow> Inl e
      | Inr (RInt n) \<Rightarrow> Inr n
      | Inr _ \<Rightarrow> Inl (RedisErr ''unexpected type''))"

definition Size :: "'s client \<Rightarrow> RedisDriver \<Rightarrow> string \<Rightarrow> 's \<Rightarrow> (driver_error + int) \<times> 's" where
  "Size cl d queue s =
     (case deliver cl (call cl (LLen (Ready (keys d) queue))) s of
        (r, s') \<Rightarrow> (case reply_int64 r of Inl e \<Rightarrow> (Inl (ESize e), s') | Inr n \<Rightarrow> (Inr n, s')))"

definition Clear :: "'s client \<Rightarrow> RedisDriver \<Rightarrow> string \<Rightarrow> 's \<Rightarrow> (driver_error + int) \<times> 's" where
  "Clear cl d queue s =
     (let k = keys d
      in case deliver cl (luaClear cl (Ready k queue) (Delayed k queue) (Reserved k queue) (Notify k queue)) s of
           (r, s') \<Rightarrow>
             (case reply_int64 r of Inl e \<Rightarrow> (Inl (EClear queue e), s') | Inr n \<Rightarrow> (Inr n, s')))"

definition Close :: "RedisDriver \<Rightarrow> driver_error option" where
  "Close d = None"

end
