(* ===== verification/Queue_Refinement.thy ===== *)
theory Queue_Refinement
  imports Queue_Driver "HOL-Library.Multiset"
begin

text \<open>
  The abstract queue that \<open>RedisDriver\<close> implements: a ready list, the delayed and the
  reserved jobs by time, and the notifications. Every script and every method of the
  driver is shown to be one step of it, for any server that keeps the documented contract.
\<close>

section \<open>The abstract queue\<close>

record queue_state =
  ready :: "string list"
  delayed :: "(int \<times> string) list"
  reserved :: "(int \<times> string) list"
  notify :: "string list"

definition wf_queue :: "queue_state \<Rightarrow> bool" where
  "wf_queue Q \<longleftrightarrow> wf_zset (delayed Q) \<and> wf_zset (reserved Q)"

definition queue_of :: "Keys \<Rightarrow> string \<Rightarrow> store \<Rightarrow> queue_state option" where
  "queue_of k q m =
     (case (list_at m (Ready k q), zset_at m (Delayed k q), zset_at m (Reserved k q), list_at m (Notify k q)) of
        (Some r, Some d, Some v, Some n) \<Rightarrow> Some \<lparr>ready = r, delayed = d, reserved = v, notify = n\<rparr>
      | _ \<Rightarrow> None)"

definition queue_keys :: "Keys \<Rightarrow> string \<Rightarrow> string set" where
  "queue_keys k q = {Ready k q, Delayed k q, Reserved k q, Notify k q}"

text \<open>The abstract steps.\<close>

definition q_push :: "string \<Rightarrow> queue_state \<Rightarrow> queue_state" where
  "q_push p Q = Q\<lparr>ready := ready Q @ [p], notify := notify Q @ [''1'']\<rparr>"

definition q_later :: "int \<Rightarrow> string \<Rightarrow> queue_state \<Rightarrow> queue_state" where
  "q_later t p Q = Q\<lparr>delayed := zinsert t p (delayed Q), notify := notify Q @ [''1'']\<rparr>"

definition q_pop :: "int \<Rightarrow> queue_state \<Rightarrow> string option \<times> queue_state" where
  "q_pop t Q =
     (case ready Q of
        [] \<Rightarrow> (None, Q)
      | p # ps \<Rightarrow> (Some p, Q\<lparr>ready := ps, reserved := zinsert t p (reserved Q)\<rparr>))"

definition q_delete :: "string \<Rightarrow> queue_state \<Rightarrow> queue_state" where
  "q_delete p Q = Q\<lparr>reserved := zremove p (reserved Q)\<rparr>"

definition q_release :: "int \<Rightarrow> string \<Rightarrow> queue_state \<Rightarrow> queue_state" where
  "q_release t p Q =
     Q\<lparr>reserved := zremove p (reserved Q), delayed := zinsert t p (delayed Q)\<rparr>"

definition q_arrive :: "string list \<Rightarrow> queue_state \<Rightarrow> queue_state" where
  "q_arrive ps Q = Q\<lparr>ready := ready Q @ ps, notify := notify Q @ map (\<lambda>_. ''1'') ps\<rparr>"

definition q_migrate_delayed :: "int \<Rightarrow> int \<Rightarrow> queue_state \<Rightarrow> queue_state" where
  "q_migrate_delayed t n Q =
     (let due = zdue t n (delayed Q) in q_arrive (map snd due) (Q\<lparr>delayed := drop (length due) (delayed Q)\<rparr>))"

definition q_migrate_reserved :: "int \<Rightarrow> int \<Rightarrow> queue_state \<Rightarrow> queue_state" where
  "q_migrate_reserved t n Q =
     (let due = zdue t n (reserved Q) in q_arrive (map snd due) (Q\<lparr>reserved := drop (length due) (reserved Q)\<rparr>))"

definition q_migrate :: "int \<Rightarrow> int \<Rightarrow> queue_state \<Rightarrow> queue_state" where
  "q_migrate t n Q = q_migrate_reserved t n (q_migrate_delayed t n Q)"

definition q_empty :: queue_state where
  "q_empty = \<lparr>ready = [], delayed = [], reserved = [], notify = []\<rparr>"

definition q_wait :: "int \<Rightarrow> queue_state \<Rightarrow> queue_state" where
  "q_wait block Q = (if 0 < block then Q\<lparr>notify := tl (notify Q)\<rparr> else Q)"

section \<open>Reading an updated store\<close>

declare list_at.simps [simp del] zset_at.simps [simp del]

lemma at_put_list [simp]:
  "list_at (put_list m k xs) k = Some xs"
  "k' \<noteq> k \<Longrightarrow> list_at (put_list m k xs) k' = list_at m k'"
  "k' \<noteq> k \<Longrightarrow> zset_at (put_list m k xs) k' = zset_at m k'"
  "k' \<noteq> k \<Longrightarrow> put_list m k xs k' = m k'"
  by (simp_all add: list_at.simps zset_at.simps put_list_def)

lemma at_put_zset [simp]:
  "zset_at (put_zset m k zs) k = Some zs"
  "k' \<noteq> k \<Longrightarrow> zset_at (put_zset m k zs) k' = zset_at m k'"
  "k' \<noteq> k \<Longrightarrow> list_at (put_zset m k zs) k' = list_at m k'"
  "k' \<noteq> k \<Longrightarrow> put_zset m k zs k' = m k'"
  by (simp_all add: list_at.simps zset_at.simps put_zset_def)

lemma keys_distinct [simp]:
  "Ready k q \<noteq> Delayed k q" "Ready k q \<noteq> Reserved k q" "Ready k q \<noteq> Notify k q"
  "Delayed k q \<noteq> Ready k q" "Delayed k q \<noteq> Reserved k q" "Delayed k q \<noteq> Notify k q"
  "Reserved k q \<noteq> Ready k q" "Reserved k q \<noteq> Delayed k q" "Reserved k q \<noteq> Notify k q"
  "Notify k q \<noteq> Ready k q" "Notify k q \<noteq> Delayed k q" "Notify k q \<noteq> Reserved k q"
  by (simp_all add: Ready_def Delayed_def Reserved_def Notify_def)

lemma queue_of_Some_iff:
  "queue_of k q m = Some Q \<longleftrightarrow>
     list_at m (Ready k q) = Some (ready Q) \<and> zset_at m (Delayed k q) = Some (delayed Q) \<and>
     zset_at m (Reserved k q) = Some (reserved Q) \<and> list_at m (Notify k q) = Some (notify Q)"
  by (cases Q) (auto simp: queue_of_def split: option.splits)

text \<open>A store step that turns one queue into another and leaves all other keys alone.\<close>

definition q_step :: "Keys \<Rightarrow> string \<Rightarrow> store \<Rightarrow> store \<Rightarrow> queue_state \<Rightarrow> bool" where
  "q_step k q m m' Q' \<longleftrightarrow> queue_of k q m' = Some Q' \<and> (\<forall>x. x \<notin> queue_keys k q \<longrightarrow> m' x = m x)"

lemma q_step_trans: "q_step k q m m1 Q1 \<Longrightarrow> q_step k q m1 m2 Q2 \<Longrightarrow> q_step k q m m2 Q2"
  by (auto simp: q_step_def)

lemma q_step_put:
  assumes "queue_of k q m = Some Q"
  shows "q_step k q m (put_list m (Ready k q) xs) (Q\<lparr>ready := xs\<rparr>)"
    "q_step k q m (put_list m (Notify k q) xs) (Q\<lparr>notify := xs\<rparr>)"
    "q_step k q m (put_zset m (Delayed k q) zs) (Q\<lparr>delayed := zs\<rparr>)"
    "q_step k q m (put_zset m (Reserved k q) zs) (Q\<lparr>reserved := zs\<rparr>)"
  using assms by (auto simp: q_step_def queue_of_Some_iff queue_keys_def)

section \<open>Commands and scripts on a queue\<close>

lemma lseq_ok: "m s = (Inr r, s1) \<Longrightarrow> lseq m f s = f r s1"
  by (simp add: lseq_def)

definition does :: "('s \<Rightarrow> store) \<Rightarrow> Keys \<Rightarrow> string \<Rightarrow> 's req \<Rightarrow> 's \<Rightarrow> (reply \<Rightarrow> bool) \<Rightarrow> queue_state \<Rightarrow> bool" where
  "does view k q m s R Q' \<longleftrightarrow> (\<exists>r s'. m s = (Inr r, s') \<and> R r \<and> q_step k q (view s) (view s') Q')"

lemma does_lseq:
  assumes "does view k q m s R Q1"
    and "\<And>r s1. R r \<Longrightarrow> queue_of k q (view s1) = Some Q1 \<Longrightarrow> does view k q (f r) s1 R' Q2"
  shows "does view k q (lseq m f) s R' Q2"
proof -
  obtain r s1 where 1: "m s = (Inr r, s1)" "R r" "q_step k q (view s) (view s1) Q1"
    using assms(1) by (auto simp: does_def)
  with assms(2) [of r s1] obtain r' s2 where
    "f r s1 = (Inr r', s2)" "R' r'" "q_step k q (view s1) (view s2) Q2"
    by (auto simp: does_def q_step_def)
  with 1 show ?thesis
    by (auto simp: does_def lseq_ok intro: q_step_trans)
qed

lemma does_lreturn: "queue_of k q (view s) = Some Q \<Longrightarrow> R r \<Longrightarrow> does view k q (lreturn r) s R Q"
  by (simp add: does_def lreturn_def q_step_def)

context redis_server
begin

lemma does_commands:
  assumes "queue_of k q (view s) = Some Q"
  shows "does view k q (call cl (RPush (Ready k q) v)) s (\<lambda>_. True) (Q\<lparr>ready := ready Q @ [v]\<rparr>)"
    "does view k q (call cl (RPush (Notify k q) v)) s (\<lambda>_. True) (Q\<lparr>notify := notify Q @ [v]\<rparr>)"
    "does view k q (call cl (ZAdd (Delayed k q) t v)) s (\<lambda>_. True) (Q\<lparr>delayed := zinsert t v (delayed Q)\<rparr>)"
    "does view k q (call cl (ZAdd (Reserved k q) t v)) s (\<lambda>_. True) (Q\<lparr>reserved := zinsert t v (reserved Q)\<rparr>)"
    "does view k q (call cl (ZRem (Reserved k q) v)) s (\<lambda>_. True) (Q\<lparr>reserved := zremove v (reserved Q)\<rparr>)"
  using assms rpush [of s "Ready k q" "ready Q" v] rpush [of s "Notify k q" "notify Q" v]
    zadd [of s "Delayed k q" "delayed Q" t v] zadd [of s "Reserved k q" "reserved Q" t v]
    zrem [of s "Reserved k q" "reserved Q" v] q_step_put [OF assms]
  unfolding does_def queue_of_Some_iff by metis+

lemma does_reads:
  assumes "queue_of k q (view s) = Some Q"
  shows "does view k q (call cl (LLen (Ready k q))) s (\<lambda>r. r = RInt (int (length (ready Q)))) Q"
    "does view k q (call cl (ZCard (Delayed k q))) s (\<lambda>r. r = RInt (int (length (delayed Q)))) Q"
    "does view k q (call cl (ZCard (Reserved k q))) s (\<lambda>r. r = RInt (int (length (reserved Q)))) Q"
    "does view k q (call cl (ZRangeByScore (Delayed k q) t n)) s (\<lambda>r. r = RList (map snd (zdue t n (delayed Q)))) Q"
    "does view k q (call cl (ZRangeByScore (Reserved k q) t n)) s (\<lambda>r. r = RList (map snd (zdue t n (reserved Q)))) Q"
  using assms llen [of s "Ready k q" "ready Q"] zcard [of s "Delayed k q" "delayed Q"]
    zcard [of s "Reserved k q" "reserved Q"] zrangebyscore [of s "Delayed k q" "delayed Q" t n]
    zrangebyscore [of s "Reserved k q" "reserved Q" t n]
  unfolding does_def q_step_def queue_of_Some_iff by metis+

lemma does_lpop:
  assumes "queue_of k q (view s) = Some Q"
  shows "ready Q = [] \<Longrightarrow> does view k q (call cl (LPop (Ready k q))) s (\<lambda>r. r = RNil) Q"
    "ready Q = p # ps \<Longrightarrow> does view k q (call cl (LPop (Ready k q))) s (\<lambda>r. r = RStr p) (Q\<lparr>ready := ps\<rparr>)"
proof -
  show "does view k q (call cl (LPop (Ready k q))) s (\<lambda>r. r = RNil) Q" if "ready Q = []"
    using assms that lpop_Nil [of s "Ready k q"] unfolding does_def q_step_def queue_of_Some_iff by metis
  show "does view k q (call cl (LPop (Ready k q))) s (\<lambda>r. r = RStr p) (Q\<lparr>ready := ps\<rparr>)" if "ready Q = p # ps"
    using assms that lpop_Cons [of s "Ready k q" p ps] q_step_put(1) [OF assms]
    unfolding does_def queue_of_Some_iff by metis
qed

lemma does_luaPush:
  assumes "queue_of k q (view s) = Some Q"
  shows "does view k q (luaPush cl (Ready k q) (Notify k q) p) s (\<lambda>r. r = LTrue) (q_push p Q)"
  unfolding luaPush_def q_push_def
  by (rule does_lseq [OF does_commands(1) [OF assms]], rule does_lseq [OF does_commands(2)], assumption,
      rule does_lreturn) simp_all

lemma does_luaLater:
  assumes "queue_of k q (view s) = Some Q"
  shows "does view k q (luaLater cl (Delayed k q) (Notify k q) t p) s (\<lambda>r. r = LTrue) (q_later t p Q)"
  unfolding luaLater_def q_later_def
  by (rule does_lseq [OF does_commands(3) [OF assms]], rule does_lseq [OF does_commands(2)], assumption,
      rule does_lreturn) simp_all

lemma does_luaRelease:
  assumes "queue_of k q (view s) = Some Q"
  shows "does view k q (luaRelease cl (Delayed k q) (Reserved k q) p t) s (\<lambda>r. r = LTrue) (q_release t p Q)"
  unfolding luaRelease_def q_release_def
  by (rule does_lseq [OF does_commands(5) [OF assms]], rule does_lseq [OF does_commands(3)], assumption,
      rule does_lreturn) simp_all

lemma does_luaDelete:
  assumes "queue_of k q (view s) = Some Q"
  shows "does view k q (luaDelete cl (Reserved k q) p) s (\<lambda>r. r = LTrue) (q_delete p Q)"
  unfolding luaDelete_def q_delete_def
  by (rule does_lseq [OF does_commands(5) [OF assms]], rule does_lreturn) simp_all

lemma does_luaPop:
  assumes "queue_of k q (view s) = Some Q"
  shows "does view k q (luaPop cl (Ready k q) (Reserved k q) t) s
    (\<lambda>r. r = (case fst (q_pop t Q) of None \<Rightarrow> RNil | Some p \<Rightarrow> RStr p)) (snd (q_pop t Q))"
proof (cases "ready Q")
  case Nil
  show ?thesis
    unfolding luaPop_def q_pop_def
    by (rule does_lseq [OF does_lpop(1) [OF assms Nil]]) (simp add: Nil does_lreturn)
next
  case (Cons p ps)
  show ?thesis
    unfolding luaPop_def
    by (rule does_lseq [OF does_lpop(2) [OF assms Cons]], simp, rule does_lseq [OF does_commands(4)], assumption)
      (auto simp: q_pop_def Cons intro: does_lreturn)
qed

lemma does_push_all:
  "queue_of k q (view s) = Some Q \<Longrightarrow>
   does view k q (lua_push_all cl (Ready k q) (Notify k q) vs r) s (\<lambda>x. x = r) (q_arrive vs Q)"
proof (induction vs arbitrary: s Q)
  case Nil
  then show ?case by (auto intro: does_lreturn simp: q_arrive_def)
next
  case (Cons v vs)
  have eq: "q_arrive (v # vs) Q =
      q_arrive vs (Q\<lparr>ready := ready Q @ [v]\<rparr>\<lparr>notify := notify (Q\<lparr>ready := ready Q @ [v]\<rparr>) @ [''1'']\<rparr>)"
    by (simp add: q_arrive_def)
  show ?case
    unfolding lua_push_all.simps eq
    by (rule does_lseq [OF does_commands(1) [OF Cons.prems]], rule does_lseq [OF does_commands(2)], assumption,
        rule Cons.IH)
qed

lemma does_drop_due:
  assumes "queue_of k q (view s) = Some Q" "0 \<le> j"
  shows "does view k q (call cl (ZRemRangeByRank (Delayed k q) 0 j)) s (\<lambda>_. True)
      (Q\<lparr>delayed := drop (nat (j + 1)) (delayed Q)\<rparr>)"
    "does view k q (call cl (ZRemRangeByRank (Reserved k q) 0 j)) s (\<lambda>_. True)
      (Q\<lparr>reserved := drop (nat (j + 1)) (reserved Q)\<rparr>)"
  using assms zremrangebyrank [of s "Delayed k q" "delayed Q" j] zremrangebyrank [of s "Reserved k q" "reserved Q" j]
    q_step_put [OF assms(1)]
  unfolding does_def queue_of_Some_iff by metis+

lemma does_luaMigrate:
  assumes "queue_of k q (view s) = Some Q"
  shows "does view k q (luaMigrate cl (Delayed k q) (Ready k q) (Notify k q) t n) s
      (\<lambda>r. r = RList (map snd (zdue t n (delayed Q)))) (q_migrate_delayed t n Q)"
    "does view k q (luaMigrate cl (Reserved k q) (Ready k q) (Notify k q) t n) s
      (\<lambda>r. r = RList (map snd (zdue t n (reserved Q)))) (q_migrate_reserved t n Q)"
proof -
  let ?rest = "\<lambda>from r. case r of
         RList val \<Rightarrow>
           if val \<noteq> []
           then lseq (call cl (ZRemRangeByRank from 0 (int (length val) - 1)))
             (\<lambda>_. lua_push_all cl (Ready k q) (Notify k q) val (RList val))
           else lreturn (RList val)
       | _ \<Rightarrow> lreturn r"
  have 1: "does view k q (?rest (Delayed k q) (RList (map snd (zdue t n (delayed Q))))) s1
      (\<lambda>r. r = RList (map snd (zdue t n (delayed Q)))) (q_migrate_delayed t n Q)"
    if "queue_of k q (view s1) = Some Q" for s1
  proof (cases "zdue t n (delayed Q) = []")
    case True
    with that show ?thesis by (simp add: q_migrate_delayed_def q_arrive_def does_lreturn)
  next
    case False
    then have "0 \<le> int (length (zdue t n (delayed Q))) - 1" by (simp add: Suc_le_eq)
    then have "does view k q (lseq (call cl (ZRemRangeByRank (Delayed k q) 0 (int (length (zdue t n (delayed Q))) - 1)))
        (\<lambda>_. lua_push_all cl (Ready k q) (Notify k q) val (RList val))) s1 (\<lambda>r. r = RList val)
        (q_arrive val (Q\<lparr>delayed := drop (length (zdue t n (delayed Q))) (delayed Q)\<rparr>))" for val
      using does_lseq [OF does_drop_due(1) [OF that] does_push_all] by simp
    with False show ?thesis
      by (simp add: q_migrate_delayed_def Let_def)
  qed
  have 2: "does view k q (?rest (Reserved k q) (RList (map snd (zdue t n (reserved Q))))) s1
      (\<lambda>r. r = RList (map snd (zdue t n (reserved Q)))) (q_migrate_reserved t n Q)"
    if "queue_of k q (view s1) = Some Q" for s1
  proof (cases "zdue t n (reserved Q) = []")
    case True
    with that show ?thesis by (simp add: q_migrate_reserved_def q_arrive_def does_lreturn)
  next
    case False
    then have "0 \<le> int (length (zdue t n (reserved Q))) - 1" by (simp add: Suc_le_eq)
    then have "does view k q (lseq (call cl (ZRemRangeByRank (Reserved k q) 0 (int (length (zdue t n (reserved Q))) - 1)))
        (\<lambda>_. lua_push_all cl (Ready k q) (Notify k q) val (RList val))) s1 (\<lambda>r. r = RList val)
        (q_arrive val (Q\<lparr>reserved := drop (length (zdue t n (reserved Q))) (reserved Q)\<rparr>))" for val
      using does_lseq [OF does_drop_due(2) [OF that] does_push_all] by simp
    with False show ?thesis
      by (simp add: q_migrate_reserved_def Let_def)
  qed
  show "does view k q (luaMigrate cl (Delayed k q) (Ready k q) (Notify k q) t n) s
      (\<lambda>r. r = RList (map snd (zdue t n (delayed Q)))) (q_migrate_delayed t n Q)"
    unfolding luaMigrate_def by (rule does_lseq [OF does_reads(4) [OF assms]]) (simp only: 1)
  show "does view k q (luaMigrate cl (Reserved k q) (Ready k q) (Notify k q) t n) s
      (\<lambda>r. r = RList (map snd (zdue t n (reserved Q)))) (q_migrate_reserved t n Q)"
    unfolding luaMigrate_def by (rule does_lseq [OF does_reads(5) [OF assms]]) (simp only: 2)
qed

lemma does_del:
  "does view k q (call cl (Del [Ready k q, Delayed k q, Reserved k q, Notify k q])) s (\<lambda>_. True) q_empty"
proof -
  obtain r s' where "call cl (Del [Ready k q, Delayed k q, Reserved k q, Notify k q]) s = (Inr r, s')"
    "view s' = (\<lambda>x. if x \<in> set [Ready k q, Delayed k q, Reserved k q, Notify k q] then None else view s x)"
    using del by metis
  then show ?thesis
    by (auto simp: does_def q_step_def queue_of_Some_iff q_empty_def list_at.simps zset_at.simps queue_keys_def)
qed

lemma does_luaClear:
  assumes "queue_of k q (view s) = Some Q"
  shows "does view k q (luaClear cl (Ready k q) (Delayed k q) (Reserved k q) (Notify k q)) s
    (\<lambda>r. r = RInt (int (length (ready Q)) + int (length (delayed Q)) + int (length (reserved Q)))) q_empty"
  unfolding luaClear_def
  by (rule does_lseq [OF does_reads(1) [OF assms]], rule does_lseq [OF does_reads(2)], assumption,
      rule does_lseq [OF does_reads(3)], assumption, simp, rule does_lseq [OF does_del])
    (auto intro: does_lreturn)

end

section \<open>The driver's methods over a reliable link\<close>

context redis_reliable
begin

lemma does_deliver:
  assumes "does view k q f s (\<lambda>r. r = x) Q'"
  shows "\<exists>s'. deliver cl f s = (if x = RNil then Inl RedisNil else Inr x, s') \<and> q_step k q (view s) (view s') Q'"
  using assms by (cases x) (auto simp: does_def delivered go_reply_def)

lemma Push_step:
  assumes "queue_of (keys d) q (view s) = Some Q"
  shows "\<exists>s'. Push cl d q p s = (Inr [], s') \<and>
    q_step (keys d) q (view s) (view s') (q_push p Q)"
  using does_deliver [OF does_luaPush [OF assms, of p]] by (auto simp: Push_def)

lemma Later_step:
  assumes "queue_of (keys d) q (view s) = Some Q"
  shows "\<exists>s'. Later cl d now q delay p s = (Inr [], s') \<and>
    q_step (keys d) q (view s) (view s') (q_later (Unix (now 0 + delay)) p Q)"
  using does_deliver [OF does_luaLater [OF assms, of "Unix (now 0 + delay)" p]] by (auto simp: Later_def)

lemma Delete_step:
  assumes "queue_of (keys d) (Queue job) (view s) = Some Q"
  shows "\<exists>s'. Delete cl d job s = (None, s') \<and>
    q_step (keys d) (Queue job) (view s) (view s') (q_delete (Body job) Q)"
  using does_deliver [OF does_luaDelete [OF assms, of "Body job"]] by (auto simp: Delete_def)

lemma Release_step:
  assumes "queue_of (keys d) (Queue job) (view s) = Some Q"
  shows "\<exists>s'. Release cl d now job delay s = (None, s') \<and>
    q_step (keys d) (Queue job) (view s) (view s') (q_release (Unix (now 0 + delay)) (Body job) Q)"
  using does_deliver [OF does_luaRelease [OF assms, of "Body job" "Unix (now 0 + delay)"]] by (auto simp: Release_def)

lemma popFromQueue_step:
  assumes "queue_of (keys d) q (view s) = Some Q"
  shows "\<exists>s'. popFromQueue cl d now q s =
       (Inr (map_option (\<lambda>b. \<lparr>Body = b, Queue = q, ReservedUntil = now 1 + retryAfter d\<rparr>)
          (fst (q_pop (Unix (now 0 + retryAfter d)) Q))), s') \<and>
    q_step (keys d) q (view s) (view s') (snd (q_pop (Unix (now 0 + retryAfter d)) Q))"
  using does_deliver [OF does_luaPop [OF assms, of "Unix (now 0 + retryAfter d)"]]
  by (auto simp: popFromQueue_def Let_def split: option.splits)

lemma MigrateExpiredJobs_step:
  assumes "queue_of (keys d) q (view s) = Some Q"
  shows "\<exists>s'. MigrateExpiredJobs cl d now q s = (None, s') \<and>
    q_step (keys d) q (view s) (view s') (q_migrate (Unix (now 0)) (batchSize d) Q)"
proof -
  obtain s1 where s1: "deliver cl (luaMigrate cl (Delayed (keys d) q) (Ready (keys d) q) (Notify (keys d) q)
      (Unix (now 0)) (batchSize d)) s = (Inr (RList (map snd (zdue (Unix (now 0)) (batchSize d) (delayed Q)))), s1)"
    "q_step (keys d) q (view s) (view s1) (q_migrate_delayed (Unix (now 0)) (batchSize d) Q)"
    using does_deliver [OF does_luaMigrate(1) [OF assms]] by auto
  then have Q1: "queue_of (keys d) q (view s1) = Some (q_migrate_delayed (Unix (now 0)) (batchSize d) Q)"
    by (simp add: q_step_def)
  obtain s2 where s2: "deliver cl (luaMigrate cl (Reserved (keys d) q) (Ready (keys d) q) (Notify (keys d) q)
      (Unix (now 0)) (batchSize d)) s1 = (Inr (RList (map snd (zdue (Unix (now 0)) (batchSize d)
        (reserved (q_migrate_delayed (Unix (now 0)) (batchSize d) Q))))), s2)"
    "q_step (keys d) q (view s1) (view s2) (q_migrate (Unix (now 0)) (batchSize d) Q)"
    using does_deliver [OF does_luaMigrate(2) [OF Q1]] by (auto simp: q_migrate_def)
  show ?thesis
    using s1 s2 q_step_trans by (intro exI [of _ s2]) (auto simp: MigrateExpiredJobs_def migrateFrom_def)
qed

lemma Size_step:
  assumes "queue_of (keys d) q (view s) = Some Q"
  shows "\<exists>s'. Size cl d q s = (Inr (int (length (ready Q))), s') \<and>
    q_step (keys d) q (view s) (view s') Q"
  using does_deliver [OF does_reads(1) [OF assms]] by (auto simp: Size_def reply_int64_def)

lemma Clear_step:
  assumes "queue_of (keys d) q (view s) = Some Q"
  shows "\<exists>s'. Clear cl d q s = (Inr (int (length (ready Q)) + int (length (delayed Q)) + int (length (reserved Q))), s') \<and>
    q_step (keys d) q (view s) (view s') q_empty"
  using does_deliver [OF does_luaClear [OF assms]] by (auto simp: Clear_def reply_int64_def Let_def)

text \<open>The whole \<open>Pop\<close>: a throttled migration, the wait on the notifications, the pop itself.\<close>

lemma blpop_step:
  assumes "queue_of k q (view s) = Some Q"
  shows "\<exists>r s'. deliver cl (call cl (BLPop (Notify k q) t)) s = (r, s') \<and> r \<noteq> Inl CtxCanceled \<and> r \<noteq> Inl CtxDeadline \<and>
    q_step k q (view s) (view s') (Q\<lparr>notify := tl (notify Q)\<rparr>)"
proof (cases "notify Q")
  case Nil
  with assms obtain s' where "call cl (BLPop (Notify k q) t) s = (Inr RNil, s')" "view s' = view s"
    using blpop_Nil [of s "Notify k q" t] by (auto simp: queue_of_Some_iff)
  moreover from Nil have "Q\<lparr>notify := tl (notify Q)\<rparr> = Q" by simp
  ultimately show ?thesis
    using assms by (simp only: delivered) (auto simp: go_reply_def q_step_def)
next
  case (Cons x xs)
  with assms obtain s' where "call cl (BLPop (Notify k q) t) s = (Inr (RList [Notify k q, x]), s')"
    "view s' = put_list (view s) (Notify k q) xs"
    using blpop_Cons [of s "Notify k q" x xs t] by (auto simp: queue_of_Some_iff)
  with Cons q_step_put(2) [OF assms, of xs] show ?thesis
    by (simp only: delivered) (auto simp: go_reply_def)
qed

lemma Pop_step:
  assumes Q: "queue_of (keys d) q (view s) = Some Q"
    and mig: "shouldMigrate d now q = (mig, d')"
    and Q1: "Q1 = q_wait (blockFor d) (if mig then q_migrate (Unix (now 2)) (batchSize d) Q else Q)"
  shows "\<exists>s'. Pop cl d now q s =
      (Inr (map_option (\<lambda>b. \<lparr>Body = b, Queue = q, ReservedUntil = now 4 + retryAfter d\<rparr>)
         (fst (q_pop (Unix (now 3 + retryAfter d)) Q1))), d', s') \<and>
    q_step (keys d) q (view s) (view s') (snd (q_pop (Unix (now 3 + retryAfter d)) Q1))"
proof -
  have d': "keys d' = keys d" "retryAfter d' = retryAfter d" "blockFor d' = blockFor d" "batchSize d' = batchSize d"
    using mig by (auto simp: shouldMigrate_def split: if_splits)
  let ?Qm = "if mig then q_migrate (Unix (now 2)) (batchSize d) Q else Q"
  have "\<exists>s1. (if mig then MigrateExpiredJobs cl d' (\<lambda>i. now (i + 2)) q s else (None, s)) = (None, s1) \<and>
      q_step (keys d) q (view s) (view s1) ?Qm"
    using MigrateExpiredJobs_step [of d' q s Q "\<lambda>i. now (i + 2)"] Q by (simp add: d' q_step_def numeral_2_eq_2)
  then obtain s1 where s1: "(if mig then MigrateExpiredJobs cl d' (\<lambda>i. now (i + 2)) q s else (None, s)) = (None, s1)"
    "q_step (keys d) q (view s) (view s1) ?Qm" by blast
  then have q1: "queue_of (keys d) q (view s1) = Some ?Qm" by (simp add: q_step_def)
  obtain r s2 where s2: "(if 0 < blockFor d' then deliver cl (call cl (BLPop (Notify (keys d') q) (blockFor d'))) s1
      else (Inr RNil, s1)) = (r, s2)" "r \<noteq> Inl CtxCanceled" "r \<noteq> Inl CtxDeadline"
    "q_step (keys d) q (view s1) (view s2) Q1"
  proof (cases "0 < blockFor d")
    case True
    with blpop_step [OF q1, of "blockFor d"] that show thesis by (auto simp: d' Q1 q_wait_def)
  next
    case False
    with q1 that [of "Inr RNil" s1] show thesis by (simp add: d' Q1 q_wait_def q_step_def)
  qed
  then have "queue_of (keys d') q (view s2) = Some Q1" by (simp add: q_step_def d')
  from popFromQueue_step [OF this, of "\<lambda>i. now (i + 3)"] obtain s3 where s3:
    "popFromQueue cl d' (\<lambda>i. now (i + 3)) q s2 =
      (Inr (map_option (\<lambda>b. \<lparr>Body = b, Queue = q, ReservedUntil = now 4 + retryAfter d\<rparr>)
         (fst (q_pop (Unix (now 3 + retryAfter d)) Q1))), s3)"
    "q_step (keys d) q (view s2) (view s3) (snd (q_pop (Unix (now 3 + retryAfter d)) Q1))"
    by (auto simp: d' add.commute)
  then have "q_step (keys d) q (view s) (view s3) (snd (q_pop (Unix (now 3 + retryAfter d)) Q1))"
    using s1(2) s2(4) q_step_trans by blast
  moreover have "Pop cl d now q s = (Inr (map_option (\<lambda>b. \<lparr>Body = b, Queue = q, ReservedUntil = now 4 + retryAfter d\<rparr>)
         (fst (q_pop (Unix (now 3 + retryAfter d)) Q1))), d', s3)"
    using s2(1-3) s3(1) by (simp add: Pop_def mig s1(1))
  ultimately show ?thesis by blast
qed

end

end
