(* ===== verification/Queue_Ledger.thy ===== *)
theory Queue_Ledger
  imports Queue_Refinement
begin

text \<open>
  Conservation of jobs: the jobs of a queue as a multiset, what each step does to it, and
  histories of driver calls with the ledger of jobs they owe. A first-in first-out
  interface is stated as a locale and provided by the driver's \<open>Push\<close> and
  \<open>popFromQueue\<close>.
\<close>

section \<open>Jobs of a queue\<close>

definition jobs :: "queue_state \<Rightarrow> string multiset" where
  "jobs Q = mset (ready Q) + mset (map snd (delayed Q)) + mset (map snd (reserved Q))"

lemma wf_q_steps [simp]:
  assumes "wf_queue Q"
  shows "wf_queue (q_push p Q)" "wf_queue (q_later t p Q)" "wf_queue (snd (q_pop t Q))" "wf_queue (q_delete p Q)"
    "wf_queue (q_release t p Q)" "wf_queue (q_migrate t n Q)" "wf_queue (q_wait b Q)" "wf_queue q_empty"
  using assms
  by (auto simp: wf_queue_def q_push_def q_later_def q_pop_def q_delete_def q_release_def q_migrate_def
      q_migrate_delayed_def q_migrate_reserved_def q_arrive_def q_wait_def q_empty_def Let_def wf_zset_def [of "[]"]
      split: list.splits)

lemma zremove_absent: "p \<notin> snd ` set zs \<Longrightarrow> zremove p zs = zs"
  by (auto simp: zremove_def intro!: filter_True)

lemma mset_zinsert:
  "p \<notin> snd ` set zs \<Longrightarrow> mset (map snd (zinsert t p zs)) = add_mset p (mset (map snd zs))"
  by (simp add: zinsert_def zremove_absent)

lemma mset_zremove:
  assumes "wf_zset zs" "p \<in> snd ` set zs"
  shows "mset (map snd (zremove p zs)) = mset (map snd zs) - {#p#}"
proof -
  have "map snd (zremove p zs) = filter (\<lambda>x. x \<noteq> p) (map snd zs)"
    by (simp add: zremove_def filter_map comp_def)
  moreover have "filter (\<lambda>x. x \<noteq> p) xs = remove1 p xs" if "distinct xs" for xs :: "string list"
    using that by (simp add: distinct_remove1_removeAll removeAll_filter_not_eq eq_commute)
  ultimately show ?thesis using assms by (simp add: wf_zset_def)
qed

lemma jobs_push: "jobs (q_push p Q) = add_mset p (jobs Q)"
  by (simp add: jobs_def q_push_def)

lemma jobs_later: "p \<notin># jobs Q \<Longrightarrow> jobs (q_later t p Q) = add_mset p (jobs Q)"
  by (simp add: jobs_def q_later_def mset_zinsert image_image del: mset_map)

lemma jobs_wait [simp]: "jobs (q_wait b Q) = jobs Q"
  by (simp add: jobs_def q_wait_def)

lemma jobs_empty [simp]: "jobs q_empty = {#}"
  by (simp add: jobs_def q_empty_def)

lemma jobs_migrate_delayed: "wf_queue Q \<Longrightarrow> jobs (q_migrate_delayed t n Q) = jobs Q"
proof -
  assume "wf_queue Q"
  then have "delayed Q = zdue t n (delayed Q) @ drop (length (zdue t n (delayed Q))) (delayed Q)"
    by (intro zdue_prefix) (simp add: wf_queue_def)
  then have "mset (map snd (delayed Q)) = mset (map snd (zdue t n (delayed Q))) +
      mset (map snd (drop (length (zdue t n (delayed Q))) (delayed Q)))"
    by (metis map_append mset_append)
  then show ?thesis
    by (simp add: jobs_def q_migrate_delayed_def q_arrive_def Let_def)
qed

lemma jobs_migrate_reserved: "wf_queue Q \<Longrightarrow> jobs (q_migrate_reserved t n Q) = jobs Q"
proof -
  assume "wf_queue Q"
  then have "reserved Q = zdue t n (reserved Q) @ drop (length (zdue t n (reserved Q))) (reserved Q)"
    by (intro zdue_prefix) (simp add: wf_queue_def)
  then have "mset (map snd (reserved Q)) = mset (map snd (zdue t n (reserved Q))) +
      mset (map snd (drop (length (zdue t n (reserved Q))) (reserved Q)))"
    by (metis map_append mset_append)
  then show ?thesis
    by (simp add: jobs_def q_migrate_reserved_def q_arrive_def Let_def)
qed

lemma jobs_migrate [simp]: "wf_queue Q \<Longrightarrow> jobs (q_migrate t n Q) = jobs Q"
proof -
  assume Q: "wf_queue Q"
  then have "wf_queue (q_migrate_delayed t n Q)"
    by (auto simp: wf_queue_def q_migrate_delayed_def q_arrive_def Let_def)
  with Q show "jobs (q_migrate t n Q) = jobs Q"
    by (simp add: q_migrate_def jobs_migrate_reserved jobs_migrate_delayed)
qed

text \<open>Where every job is held only once, no step but \<open>q_delete\<close> loses one.\<close>

definition single :: "queue_state \<Rightarrow> bool" where
  "single Q \<longleftrightarrow> (\<forall>p. count (jobs Q) p \<le> 1)"

lemma single_disjoint:
  assumes "single Q"
  shows "p \<in> set (ready Q) \<Longrightarrow> p \<notin> snd ` set (reserved Q)"
    "p \<in> snd ` set (reserved Q) \<Longrightarrow> p \<notin> snd ` set (delayed Q)"
proof -
  have c: "count (mset (ready Q)) p + count (mset (map snd (delayed Q))) p + count (mset (map snd (reserved Q))) p \<le> 1" for p
    using assms by (simp add: single_def jobs_def)
  have pos: "1 \<le> count (mset xs) p \<longleftrightarrow> p \<in> set xs" for p and xs :: "string list"
    by (simp add: Suc_le_eq)
  show "p \<notin> snd ` set (reserved Q)" if "p \<in> set (ready Q)"
    using c [of p] that pos [of "ready Q" p] pos [of "map snd (reserved Q)" p] unfolding set_map by linarith
  show "p \<notin> snd ` set (delayed Q)" if "p \<in> snd ` set (reserved Q)"
    using c [of p] that pos [of "map snd (delayed Q)" p] pos [of "map snd (reserved Q)" p] unfolding set_map by linarith
qed

lemma jobs_pop: "single Q \<Longrightarrow> jobs (snd (q_pop t Q)) = jobs Q"
  using single_disjoint(1) [of Q]
  by (cases "ready Q") (simp_all add: q_pop_def jobs_def mset_zinsert del: mset_map)

lemma jobs_delete:
  assumes "wf_queue Q" "p \<in> snd ` set (reserved Q)"
  shows "jobs (q_delete p Q) = jobs Q - {#p#}"
  using assms mset_zremove [of "reserved Q" p]
  by (simp add: jobs_def q_delete_def wf_queue_def del: mset_map)

lemma jobs_release:
  assumes "single Q" "wf_queue Q" "p \<in> snd ` set (reserved Q)"
  shows "jobs (q_release t p Q) = jobs Q"
proof -
  have "mset (map snd (zremove p (reserved Q))) + {#p#} = mset (map snd (reserved Q))"
    using assms mset_zremove [of "reserved Q" p] by (simp add: wf_queue_def del: mset_map)
  moreover have "mset (map snd (zinsert t p (delayed Q))) = mset (map snd (delayed Q)) + {#p#}"
    using single_disjoint(2) [OF assms(1,3)] by (simp add: mset_zinsert del: mset_map)
  ultimately show ?thesis by (simp add: jobs_def q_release_def del: mset_map)
qed

section \<open>Histories of driver calls\<close>

text \<open>
  \<open>history cl view q d0 s0 L d s\<close>: from driver \<open>d0\<close> and server state \<open>s0\<close>, successful calls on
  queue \<open>q\<close>, in any order and at any times, have led to \<open>d\<close> and \<open>s\<close>; \<open>L\<close> is the ledger of the
  jobs that were handed in and not yet acknowledged. A job is handed in under a body that
  is not outstanding (payloads carry a fresh UUID), and \<open>Delete\<close> and \<open>Release\<close> are for a
  job that is reserved.
\<close>

inductive history ::
  "'s client \<Rightarrow> ('s \<Rightarrow> store) \<Rightarrow> string \<Rightarrow> RedisDriver \<Rightarrow> 's \<Rightarrow> string multiset \<Rightarrow> RedisDriver \<Rightarrow> 's \<Rightarrow> bool"
  for cl view q d0 s0 where
  start: "history cl view q d0 s0 {#} d0 s0"
| push: "history cl view q d0 s0 L d s \<Longrightarrow> p \<notin># L \<Longrightarrow> Push cl d q p s = (Inr i, s') \<Longrightarrow>
    history cl view q d0 s0 (add_mset p L) d s'"
| later: "history cl view q d0 s0 L d s \<Longrightarrow> p \<notin># L \<Longrightarrow> Later cl d now q delay p s = (Inr i, s') \<Longrightarrow>
    history cl view q d0 s0 (add_mset p L) d s'"
| pop: "history cl view q d0 s0 L d s \<Longrightarrow> Pop cl d now q s = (Inr r, d', s') \<Longrightarrow>
    history cl view q d0 s0 L d' s'"
| delete: "history cl view q d0 s0 L d s \<Longrightarrow> Queue job = q \<Longrightarrow>
    zset_at (view s) (Reserved (keys d) q) = Some zs \<Longrightarrow> Body job \<in> snd ` set zs \<Longrightarrow>
    Delete cl d job s = (None, s') \<Longrightarrow> history cl view q d0 s0 (L - {#Body job#}) d s'"
| release: "history cl view q d0 s0 L d s \<Longrightarrow> Queue job = q \<Longrightarrow>
    zset_at (view s) (Reserved (keys d) q) = Some zs \<Longrightarrow> Body job \<in> snd ` set zs \<Longrightarrow>
    Release cl d now job delay s = (None, s') \<Longrightarrow> history cl view q d0 s0 L d s'"
| migrate: "history cl view q d0 s0 L d s \<Longrightarrow> MigrateExpiredJobs cl d now q s = (None, s') \<Longrightarrow>
    history cl view q d0 s0 L d s'"
| size: "history cl view q d0 s0 L d s \<Longrightarrow> Size cl d q s = (Inr n, s') \<Longrightarrow> history cl view q d0 s0 L d s'"
| clear: "history cl view q d0 s0 L d s \<Longrightarrow> Clear cl d q s = (Inr n, s') \<Longrightarrow> history cl view q d0 s0 {#} d s'"

lemma shouldMigrate_keys: "shouldMigrate d now q = (b, d') \<Longrightarrow> keys d' = keys d"
  by (auto simp: shouldMigrate_def split: if_splits)

definition owes :: "Keys \<Rightarrow> string \<Rightarrow> store \<Rightarrow> string multiset \<Rightarrow> bool" where
  "owes k q m L \<longleftrightarrow> (\<exists>Q. queue_of k q m = Some Q \<and> wf_queue Q \<and> jobs Q = L) \<and> (\<forall>p. count L p \<le> 1)"

lemma owesI:
  "q_step k q m m' Q' \<Longrightarrow> wf_queue Q' \<Longrightarrow> jobs Q' = L \<Longrightarrow> \<forall>p. count L p \<le> 1 \<Longrightarrow> owes k q m' L"
  by (auto simp: owes_def q_step_def)

lemma owesE:
  assumes "owes k q m L"
  obtains Q where "queue_of k q m = Some Q" "wf_queue Q" "jobs Q = L" "\<forall>p. count L p \<le> 1" "single Q"
  using assms by (auto simp: owes_def single_def)

lemma owes_reserved:
  "queue_of k q m = Some Q \<Longrightarrow> zset_at m (Reserved k q) = Some zs \<Longrightarrow> reserved Q = zs"
  by (simp add: queue_of_Some_iff)

context redis_reliable
begin

text \<open>What each successful call does to the ledger.\<close>

lemma owes_Push:
  assumes "owes (keys d) q (view s) L" "p \<notin># L" "Push cl d q p s = (Inr i, s')"
  shows "owes (keys d) q (view s') (add_mset p L)"
proof -
  obtain Q where Q: "queue_of (keys d) q (view s) = Some Q" "wf_queue Q" "jobs Q = L" "\<forall>p. count L p \<le> 1"
    using assms(1) by (rule owesE)
  from Push_step [OF Q(1), of p] assms(2,3) Q show ?thesis
    by (auto intro!: owesI simp: jobs_push not_in_iff)
qed

lemma owes_Later:
  assumes "owes (keys d) q (view s) L" "p \<notin># L" "Later cl d now q delay p s = (Inr i, s')"
  shows "owes (keys d) q (view s') (add_mset p L)"
proof -
  obtain Q where Q: "queue_of (keys d) q (view s) = Some Q" "wf_queue Q" "jobs Q = L" "\<forall>p. count L p \<le> 1"
    using assms(1) by (rule owesE)
  from Later_step [OF Q(1), of now delay p] assms(2,3) Q show ?thesis
    by (auto intro!: owesI simp: jobs_later not_in_iff)
qed

lemma owes_Pop:
  assumes "owes (keys d) q (view s) L" "Pop cl d now q s = (Inr r, d', s')"
  shows "keys d' = keys d \<and> owes (keys d) q (view s') L"
proof -
  obtain Q where Q: "queue_of (keys d) q (view s) = Some Q" "wf_queue Q" "jobs Q = L" "\<forall>p. count L p \<le> 1"
    using assms(1) by (rule owesE)
  obtain b d1 where m: "shouldMigrate d now q = (b, d1)" by fastforce
  define Q1 where "Q1 = q_wait (blockFor d) (if b then q_migrate (Unix (now 2)) (batchSize d) Q else Q)"
  have Q1: "wf_queue Q1" "jobs Q1 = L" using Q by (auto simp: Q1_def)
  then have "jobs (snd (q_pop t Q1)) = L" for t using Q(4) by (simp add: jobs_pop single_def)
  with Pop_step [OF Q(1) m Q1_def] assms(2) Q Q1 shouldMigrate_keys [OF m] show ?thesis
    by (auto intro!: owesI)
qed

lemma owes_Delete:
  assumes "owes (keys d) q (view s) L" "Queue job = q" "zset_at (view s) (Reserved (keys d) q) = Some zs"
    "Body job \<in> snd ` set zs" "Delete cl d job s = (None, s')"
  shows "owes (keys d) q (view s') (L - {#Body job#})"
proof -
  obtain Q where Q: "queue_of (keys d) q (view s) = Some Q" "wf_queue Q" "jobs Q = L" "\<forall>p. count L p \<le> 1"
    using assms(1) by (rule owesE)
  with assms owes_reserved have "Body job \<in> snd ` set (reserved Q)" by blast
  from jobs_delete [OF Q(2) this] Delete_step [of d job s Q] assms Q show ?thesis
    by (auto intro!: owesI intro: order_trans [OF diff_le_self])
qed

lemma owes_Release:
  assumes "owes (keys d) q (view s) L" "Queue job = q" "zset_at (view s) (Reserved (keys d) q) = Some zs"
    "Body job \<in> snd ` set zs" "Release cl d now job delay s = (None, s')"
  shows "owes (keys d) q (view s') L"
proof -
  obtain Q where Q: "queue_of (keys d) q (view s) = Some Q" "wf_queue Q" "jobs Q = L" "\<forall>p. count L p \<le> 1" "single Q"
    using assms(1) by (rule owesE)
  with assms owes_reserved have "Body job \<in> snd ` set (reserved Q)" by blast
  with jobs_release [OF Q(5,2)] Q(3) have "jobs (q_release t (Body job) Q) = L" for t by simp
  with Release_step [of d job s Q now delay] assms Q show ?thesis
    by (auto intro!: owesI)
qed

lemma owes_MigrateExpiredJobs:
  assumes "owes (keys d) q (view s) L" "MigrateExpiredJobs cl d now q s = (None, s')"
  shows "owes (keys d) q (view s') L"
proof -
  obtain Q where Q: "queue_of (keys d) q (view s) = Some Q" "wf_queue Q" "jobs Q = L" "\<forall>p. count L p \<le> 1"
    using assms(1) by (rule owesE)
  from MigrateExpiredJobs_step [OF Q(1), of now] assms(2) Q show ?thesis by (auto intro!: owesI)
qed

lemma owes_Size:
  assumes "owes (keys d) q (view s) L" "Size cl d q s = (Inr n, s')"
  shows "owes (keys d) q (view s') L"
proof -
  obtain Q where Q: "queue_of (keys d) q (view s) = Some Q" "wf_queue Q" "jobs Q = L" "\<forall>p. count L p \<le> 1"
    using assms(1) by (rule owesE)
  from Size_step [OF Q(1)] assms(2) Q show ?thesis by (auto intro!: owesI)
qed

lemma owes_Clear:
  assumes "owes (keys d) q (view s) L" "Clear cl d q s = (Inr n, s')"
  shows "owes (keys d) q (view s') {#}"
proof -
  obtain Q where Q: "queue_of (keys d) q (view s) = Some Q" "wf_queue Q"
    using assms(1) by (rule owesE)
  from Clear_step [OF Q(1)] assms(2) Q show ?thesis by (auto intro!: owesI)
qed

lemma history_owes:
  assumes "history cl view q d0 s0 L d s" "queue_of (keys d0) q (view s0) = Some q_empty"
  shows "keys d = keys d0 \<and> owes (keys d0) q (view s) L"
  using assms(1)
proof (induction rule: history.induct)
  case start
  with assms(2) show ?case by (simp add: owes_def wf_queue_def q_empty_def wf_zset_def jobs_def)
next
  case push
  then show ?case using owes_Push by metis
next
  case later
  then show ?case using owes_Later by metis
next
  case pop
  then show ?case using owes_Pop by metis
next
  case delete
  then show ?case using owes_Delete by metis
next
  case release
  then show ?case using owes_Release by metis
next
  case migrate
  then show ?case using owes_MigrateExpiredJobs by metis
next
  case size
  then show ?case using owes_Size by metis
next
  case clear
  then show ?case using owes_Clear by metis
qed

end

section \<open>First in, first out\<close>

text \<open>
  The interface of a queue whose items are taken in the order they were put in, with an
  invariant and the list of items as the abstraction.
\<close>

fun deq_n :: "('q \<Rightarrow> 'x option \<times> 'q) \<Rightarrow> nat \<Rightarrow> 'q \<Rightarrow> 'x option list \<times> 'q" where
  "deq_n deq 0 s = ([], s)"
| "deq_n deq (Suc n) s = (case deq s of (x, s1) \<Rightarrow> (case deq_n deq n s1 of (xs, s2) \<Rightarrow> (x # xs, s2)))"

locale fifo =
  fixes enq :: "'x \<Rightarrow> 'q \<Rightarrow> 'q" and deq :: "'q \<Rightarrow> 'x option \<times> 'q"
    and items :: "'q \<Rightarrow> 'x list" and inv :: "'q \<Rightarrow> bool"
  assumes enq_items: "inv s \<Longrightarrow> items (enq x s) = items s @ [x]"
    and enq_inv: "inv s \<Longrightarrow> inv (enq x s)"
    and deq_Nil: "inv s \<Longrightarrow> items s = [] \<Longrightarrow> fst (deq s) = None \<and> items (snd (deq s)) = []"
    and deq_Cons: "inv s \<Longrightarrow> items s = x # xs \<Longrightarrow> fst (deq s) = Some x \<and> items (snd (deq s)) = xs"
    and deq_inv: "inv s \<Longrightarrow> inv (snd (deq s))"
begin

lemma enq_all: "inv s \<Longrightarrow> inv (fold enq xs s) \<and> items (fold enq xs s) = items s @ xs"
  by (induction xs arbitrary: s) (simp_all add: enq_items enq_inv)

lemma deq_all: "inv s \<Longrightarrow> items s = xs \<Longrightarrow> fst (deq_n deq (length xs) s) = map Some xs"
proof (induction xs arbitrary: s)
  case (Cons x xs)
  obtain y s1 where y: "deq s = (y, s1)" by fastforce
  with deq_Cons [OF Cons.prems] have "y = Some x" "items s1 = xs" by auto
  moreover from deq_inv [OF Cons.prems(1)] y have "inv s1" by simp
  ultimately show ?case using Cons.IH [of s1] y by (auto split: prod.splits)
qed simp

text \<open>Whatever was in the queue before comes out first, then the new items, in their order.\<close>

lemma first_in_first_out:
  assumes "inv s"
  shows "fst (deq_n deq (length (items s @ xs)) (fold enq xs s)) = map Some (items s @ xs)"
  using enq_all [OF assms, of xs] by (intro deq_all) auto

end

text \<open>The driver provides it, on one queue, at any clock readings.\<close>

definition push_op :: "'s client \<Rightarrow> RedisDriver \<Rightarrow> string \<Rightarrow> string \<Rightarrow> 's \<Rightarrow> 's" where
  "push_op cl d q p s = snd (Push cl d q p s)"

definition pop_op :: "'s client \<Rightarrow> RedisDriver \<Rightarrow> (nat \<Rightarrow> int) \<Rightarrow> string \<Rightarrow> 's \<Rightarrow> string option \<times> 's" where
  "pop_op cl d now q s =
     (case popFromQueue cl d now q s of
        (Inr (Some job), s') \<Rightarrow> (Some (Body job), s') | (_, s') \<Rightarrow> (None, s'))"

definition ready_items :: "RedisDriver \<Rightarrow> string \<Rightarrow> store \<Rightarrow> string list" where
  "ready_items d q m = (case queue_of (keys d) q m of Some Q \<Rightarrow> ready Q | None \<Rightarrow> [])"

locale driver_queue = redis_reliable cl view
  for cl :: "'s client" and view :: "'s \<Rightarrow> store" +
  fixes d :: RedisDriver and now :: "nat \<Rightarrow> int" and q :: string

sublocale driver_queue \<subseteq> fifo "push_op cl d q" "pop_op cl d now q" "\<lambda>s. ready_items d q (view s)"
  "\<lambda>s. \<exists>Q. queue_of (keys d) q (view s) = Some Q"
proof
  fix s x xs assume "\<exists>Q. queue_of (keys d) q (view s) = Some Q"
  then obtain Q where Q: "queue_of (keys d) q (view s) = Some Q" by blast
  from Push_step [OF Q, of x]
  show "ready_items d q (view (push_op cl d q x s)) = ready_items d q (view s) @ [x]"
    "\<exists>Q. queue_of (keys d) q (view (push_op cl d q x s)) = Some Q"
    using Q by (auto simp: push_op_def ready_items_def q_step_def q_push_def)
  from popFromQueue_step [OF Q, of now]
  show "\<exists>Q. queue_of (keys d) q (view (snd (pop_op cl d now q s))) = Some Q"
    by (auto simp: pop_op_def q_step_def split: option.splits)
  from popFromQueue_step [OF Q, of now]
  show "fst (pop_op cl d now q s) = None \<and> ready_items d q (view (snd (pop_op cl d now q s))) = []"
    if "ready_items d q (view s) = []"
    using that Q by (auto simp: pop_op_def ready_items_def q_step_def q_pop_def)
  from popFromQueue_step [OF Q, of now]
  show "fst (pop_op cl d now q s) = Some x \<and> ready_items d q (view (snd (pop_op cl d now q s))) = xs"
    if "ready_items d q (view s) = x # xs"
    using that Q by (auto simp: pop_op_def ready_items_def q_step_def q_pop_def)
qed

context driver_queue
begin

lemma driver_fifo:
  assumes "queue_of (keys d) q (view s) = Some Q"
  shows "fst (deq_n (pop_op cl d now q) (length (ready Q @ ps)) (fold (push_op cl d q) ps s)) = map Some (ready Q @ ps)"
  using first_in_first_out [of s ps] assms by (simp add: ready_items_def)

end

interpretation mem_queue: driver_queue mem_client id d now q for d now q
  by unfold_locales

end
