(* ===== verification/Queue_Properties.thy ===== *)
theory Queue_Properties
  imports Queue_Ledger
begin

text \<open>
  What the Redis driver guarantees: no job is lost or duplicated by any history of calls,
  jobs leave in the order they came, an abandoned job comes back, exactly the due jobs
  migrate, queues do not interfere, and a failing link leaves no half-done call behind.
\<close>

section \<open>Shared lemmas\<close>

lemma list_zset_at_mem:
  "queue_of k q Map.empty = Some q_empty"
  by (simp add: queue_of_Some_iff q_empty_def list_at.simps zset_at.simps)

lemma q_migrate_ready:
  "ready (q_migrate t n Q) = ready Q @ map snd (zdue t n (delayed Q)) @ map snd (zdue t n (reserved Q))"
  by (simp add: q_migrate_def q_migrate_delayed_def q_migrate_reserved_def q_arrive_def Let_def)

lemma q_migrate_held:
  "delayed (q_migrate t n Q) = drop (length (zdue t n (delayed Q))) (delayed Q)"
  "reserved (q_migrate t n Q) = drop (length (zdue t n (reserved Q))) (reserved Q)"
  by (simp_all add: q_migrate_def q_migrate_delayed_def q_migrate_reserved_def q_arrive_def Let_def)

lemma zdue_all:
  assumes "(t, p) \<in> set zs" "t \<le> hi" "n < 0 \<or> int (length zs) \<le> n"
  shows "(t, p) \<in> set (zdue hi n zs)"
proof -
  have "length (filter (\<lambda>p. fst p \<le> hi) zs) \<le> length zs" by simp
  then have "length (filter (\<lambda>p. fst p \<le> hi) zs) \<le> nat n" if "int (length zs) \<le> n" using that by linarith
  with assms(3) have "zdue hi n zs = filter (\<lambda>p. fst p \<le> hi) zs"
    unfolding zdue_def Let_def by (auto intro!: take_all)
  with assms(1,2) show ?thesis by simp
qed

lemma zdue_due: "(t, p) \<in> set (zdue hi n zs) \<Longrightarrow> t \<le> hi"
  unfolding zdue_def Let_def by (auto split: if_splits dest: in_set_takeD)

text \<open>Queue names without a colon share no key.\<close>

lemma colon_split:
  assumes "x @ CHR '':'' # s = y @ CHR '':'' # t" "CHR '':'' \<notin> set x" "CHR '':'' \<notin> set y"
  shows "x = y"
proof -
  have "length x = length y"
    using assms index_byte_append [of "CHR '':''" x s] index_byte_append [of "CHR '':''" y t] by simp
  with assms(1) show ?thesis by simp
qed

lemma queue_keys_disjoint:
  assumes "q \<noteq> q'" "CHR '':'' \<notin> set q" "CHR '':'' \<notin> set q'"
  shows "queue_keys k q \<inter> queue_keys k q' = {}"
  using assms by (auto simp: queue_keys_def Ready_def Delayed_def Reserved_def Notify_def dest: colon_split)

lemma q_step_other:
  assumes "q_step k q m m' Q'" "queue_keys k q \<inter> queue_keys k q' = {}"
  shows "queue_of k q' m' = queue_of k q' m"
proof -
  have "m' x = m x" if "x \<in> queue_keys k q'" for x
    using assms that by (auto simp: q_step_def)
  then show ?thesis by (simp add: queue_of_def list_at.simps zset_at.simps queue_keys_def)
qed

context redis_link
begin

text \<open>A request over the link: done or not done, and done when it is answered.\<close>

lemma link_step:
  assumes "does view k q f s (\<lambda>r. r = x) Q'" "deliver cl f s = (r, s')"
  shows "s' = s \<or> q_step k q (view s) (view s') Q'" "r = Inr v \<Longrightarrow> v = x \<and> q_step k q (view s) (view s') Q'"
  using assms link [of f s]
  by (auto simp: does_def go_reply_def split: reply.splits)

lemma link_state:
  assumes "does view k q f s (\<lambda>r. r = x) Q'" "queue_of k q (view s) = Some Q" "deliver cl f s = (r, s')"
  shows "queue_of k q (view s') = Some Q \<or> queue_of k q (view s') = Some Q'"
  using link_step(1) [OF assms(1,3)] assms(2) by (auto simp: q_step_def)

lemma link_popFromQueue:
  assumes "queue_of (keys d) q (view s) = Some Q" "single Q"
  shows "\<exists>Q'. queue_of (keys d) q (view (snd (popFromQueue cl d now q s))) = Some Q' \<and> jobs Q' = jobs Q"
  using link_state [OF does_luaPop [OF assms(1)] assms(1)] jobs_pop [OF assms(2)]
  by (fastforce simp: popFromQueue_def Let_def split: prod.splits sum.splits reply.splits)

lemma link_Release:
  assumes "queue_of (keys d) (Queue job) (view s) = Some Q" "single Q" "wf_queue Q" "Body job \<in> snd ` set (reserved Q)"
  shows "\<exists>Q'. queue_of (keys d) (Queue job) (view (snd (Release cl d now job delay s))) = Some Q' \<and> jobs Q' = jobs Q"
  using link_state [OF does_luaRelease [OF assms(1)] assms(1)] jobs_release [OF assms(2-4)]
  by (fastforce simp: Release_def Let_def split: prod.splits sum.splits)

lemma link_Push:
  assumes "queue_of (keys d) q (view s) = Some Q" "Push cl d q p s = (Inr i, s')"
  shows "queue_of (keys d) q (view s') = Some (q_push p Q)"
  using link_step(2) [OF does_luaPush [OF assms(1)]] assms(2)
  by (fastforce simp: Push_def q_step_def split: prod.splits sum.splits)

lemma link_MigrateExpiredJobs:
  assumes "queue_of (keys d) q (view s) = Some Q" "wf_queue Q"
  shows "\<exists>Q'. queue_of (keys d) q (view (snd (MigrateExpiredJobs cl d now q s))) = Some Q' \<and> jobs Q' = jobs Q"
proof -
  let ?t = "Unix (now 0)" and ?k = "keys d"
  obtain r s1 where 1: "deliver cl (luaMigrate cl (Delayed ?k q) (Ready ?k q) (Notify ?k q) ?t (batchSize d)) s = (r, s1)"
    by fastforce
  obtain Q1 where Q1: "queue_of ?k q (view s1) = Some Q1" "jobs Q1 = jobs Q" "wf_queue Q1"
    using link_state [OF does_luaMigrate(1) [OF assms(1)] assms(1) 1] jobs_migrate_delayed [OF assms(2)] assms(2)
    by (auto simp: wf_queue_def q_migrate_delayed_def q_arrive_def Let_def)
  obtain r' s2 where 2: "deliver cl (luaMigrate cl (Reserved ?k q) (Ready ?k q) (Notify ?k q) ?t (batchSize d)) s1 = (r', s2)"
    by fastforce
  obtain Q2 where Q2: "queue_of ?k q (view s2) = Some Q2" "jobs Q2 = jobs Q"
    using link_state [OF does_luaMigrate(2) [OF Q1(1)] Q1(1) 2] jobs_migrate_reserved [OF Q1(3)] Q1(2) by auto
  show ?thesis
    using 1 2 Q1 Q2
    by (auto simp: MigrateExpiredJobs_def migrateFrom_def Let_def split: prod.splits sum.splits option.splits)
qed

end

text \<open>An in-memory server behind a link that loses every reply after the request was executed.\<close>

definition lossy_client :: "store client" where
  "lossy_client = mem_client\<lparr>deliver := (\<lambda>f s. (Inl (RedisErr ''connection reset''), snd (f s)))\<rparr>"

interpretation lossy: redis_link lossy_client id
  by unfold_locales
    (simp_all add: lossy_client_def mem_client_def with_list_def with_zset_def cong: if_cong)

section \<open>Conservation of jobs\<close>


text \<open>The default driver on the in-memory server, and that server with one job pushed.\<close>

abbreviation ex_driver :: RedisDriver where
  "ex_driver \<equiv> NewRedisDriver \<lparr>CfgPrefix = [], NoPrefix = False, RetryAfter = 0, BlockFor = 0, BatchSize = 0\<rparr>"

abbreviation ex_store :: store where
  "ex_store \<equiv> snd (Push mem_client ex_driver ''default'' ''job'' Map.empty)"

lemma ex_push:
  "Push mem_client ex_driver ''default'' ''job'' Map.empty = (Inr [], ex_store)"
  "queue_of (keys ex_driver) ''default'' ex_store = Some (q_push ''job'' q_empty)"
  using mem.Push_step [of ex_driver "''default''" Map.empty q_empty "''job''"]
  by (auto simp: list_zset_at_mem q_step_def)


text \<open>
  C12: first in, first out. Pushing jobs and then popping gives back what was ready before
  and then the pushed jobs, in the order of the pushes.
\<close>

theorem push_pop_fifo:
  assumes "redis_reliable cl view" "queue_of (keys d) q (view s) = Some Q"
  shows "fst (deq_n (pop_op cl d now q) (length (ready Q @ ps)) (fold (push_op cl d q) ps s)) =
    map Some (ready Q @ ps)"
  using driver_queue.driver_fifo [OF driver_queue.intro [OF assms(1)] assms(2)] .

theorem push_pop_fifo_witness:
  "fst (deq_n (pop_op mem_client ex_driver (\<lambda>_. 0) ''default'') 2
     (fold (push_op mem_client ex_driver ''default'') [''a'', ''b''] Map.empty)) = [Some ''a'', Some ''b'']"
  using push_pop_fifo [OF mem.redis_reliable_axioms, of ex_driver "''default''" Map.empty q_empty "\<lambda>_. 0" "[''a'', ''b'']"]
  by (simp add: list_zset_at_mem q_empty_def numeral_2_eq_2 del: fold.simps deq_n.simps)

text \<open>
  C13: a job whose worker never acknowledges it is not lost. Once the reservation time has
  passed, a migration whose batch covers the reserved set puts it back into the ready
  list.
\<close>

theorem abandoned_job_returns:
  assumes "redis_reliable cl view" "queue_of (keys d) q (view s) = Some Q"
    "popFromQueue cl d now q s = (Inr (Some job), s1)"
    "Unix (now 0 + retryAfter d) \<le> Unix (now' 0)"
    "batchSize d < 0 \<or> int (length (reserved Q)) < batchSize d"
  shows "\<exists>s2 Q2. MigrateExpiredJobs cl d now' q s1 = (None, s2) \<and>
    queue_of (keys d) q (view s2) = Some Q2 \<and> Body job \<in> set (ready Q2)"
proof -
  let ?t = "Unix (now 0 + retryAfter d)"
  obtain ps where ps: "ready Q = Body job # ps" "q_step (keys d) q (view s) (view s1) (snd (q_pop ?t Q))"
    using redis_reliable.popFromQueue_step [OF assms(1,2), of now] assms(3)
    by (auto simp: q_pop_def split: list.splits)
  let ?Q1 = "snd (q_pop ?t Q)"
  have res: "reserved ?Q1 = zinsert ?t (Body job) (reserved Q)" using ps(1) by (simp add: q_pop_def)
  have "length (reserved ?Q1) \<le> Suc (length (reserved Q))"
    unfolding res zinsert_def zremove_def by (simp add: le_imp_less_Suc)
  then have "(?t, Body job) \<in> set (zdue (Unix (now' 0)) (batchSize d) (reserved ?Q1))"
    using assms(4,5) by (intro zdue_all) (auto simp: res zinsert_def set_insort_key)
  then have "Body job \<in> set (ready (q_migrate (Unix (now' 0)) (batchSize d) ?Q1))"
    by (force simp: q_migrate_ready)
  with redis_reliable.MigrateExpiredJobs_step [OF assms(1), of d q s1 ?Q1 now'] ps(2) show ?thesis
    by (auto simp: q_step_def)
qed

theorem abandoned_job_returns_witness:
  "\<exists>job s1 s2 Q2. popFromQueue mem_client ex_driver (\<lambda>_. 0) ''default'' ex_store = (Inr (Some job), s1) \<and>
     MigrateExpiredJobs mem_client ex_driver (\<lambda>_. 90 * second) ''default'' s1 = (None, s2) \<and>
     queue_of (keys ex_driver) ''default'' s2 = Some Q2 \<and> Body job \<in> set (ready Q2)"
proof -
  have Q: "queue_of (keys ex_driver) ''default'' (id ex_store) = Some (q_push ''job'' q_empty)"
    using ex_push(2) by simp
  obtain job s1 where pop: "popFromQueue mem_client ex_driver (\<lambda>_. 0) ''default'' ex_store = (Inr (Some job), s1)"
    using mem.popFromQueue_step [OF Q, of "\<lambda>_. 0"] by (auto simp: q_pop_def q_push_def q_empty_def)
  have "Unix (0 + retryAfter ex_driver) \<le> Unix (90 * second)"
    "batchSize ex_driver < 0 \<or> int (length (reserved (q_push ''job'' q_empty))) < batchSize ex_driver"
    by (simp_all add: NewRedisDriver_def Unix_def q_push_def q_empty_def)
  from abandoned_job_returns [OF mem.redis_reliable_axioms Q pop this] pop show ?thesis by auto
qed

section \<open>Migration\<close>

text \<open>
  C14: a migration appends to the ready list the first \<open>batchSize\<close> due jobs of the delayed
  set and then of the reserved set, in the order of their times, leaves every other job
  where it was, moves no job before its time, and touches no other key.
\<close>

theorem MigrateExpiredJobs_moves_due:
  assumes "redis_reliable cl view" "queue_of (keys d) q (view s) = Some Q" "wf_queue Q"
  shows "\<exists>s' Q'. MigrateExpiredJobs cl d now q s = (None, s') \<and> queue_of (keys d) q (view s') = Some Q' \<and>
    (let D = zdue (Unix (now 0)) (batchSize d) (delayed Q); R = zdue (Unix (now 0)) (batchSize d) (reserved Q)
     in ready Q' = ready Q @ map snd D @ map snd R \<and> delayed Q = D @ delayed Q' \<and> reserved Q = R @ reserved Q' \<and>
        (\<forall>(t, p) \<in> set (D @ R). t \<le> Unix (now 0))) \<and>
    (\<forall>x. x \<notin> queue_keys (keys d) q \<longrightarrow> view s' x = view s x)"
proof -
  let ?Q' = "q_migrate (Unix (now 0)) (batchSize d) Q"
  have "delayed Q = zdue (Unix (now 0)) (batchSize d) (delayed Q) @ delayed ?Q'"
    "reserved Q = zdue (Unix (now 0)) (batchSize d) (reserved Q) @ reserved ?Q'"
    using assms(3) by (simp_all only: q_migrate_held wf_queue_def zdue_prefix [symmetric])
  with redis_reliable.MigrateExpiredJobs_step [OF assms(1,2), of now] show ?thesis
    unfolding q_step_def Let_def by (fastforce simp: q_migrate_ready dest: zdue_due)
qed

theorem MigrateExpiredJobs_moves_due_witness:
  "\<exists>s' Q'. MigrateExpiredJobs mem_client ex_driver (\<lambda>_. 0) ''default'' ex_store = (None, s') \<and>
     queue_of (keys ex_driver) ''default'' s' = Some Q' \<and> ready Q' = [''job'']"
proof -
  have Q: "queue_of (keys ex_driver) ''default'' (id ex_store) = Some (q_push ''job'' q_empty)"
    using ex_push(2) by simp
  have "wf_queue (q_push ''job'' q_empty)" by (simp add: wf_queue_def q_empty_def q_push_def wf_zset_def)
  from MigrateExpiredJobs_moves_due [of mem_client id ex_driver "''default''" ex_store "q_push ''job'' q_empty" "\<lambda>_. 0",
      OF mem.redis_reliable_axioms Q this] show ?thesis
    by (auto simp: Let_def q_push_def q_empty_def zdue_def)
qed

text \<open>
  C15: migration is throttled per queue. After a migration of a queue the next one is due
  only when a second has passed since, and the other queues are not affected.
\<close>

theorem shouldMigrate_throttles:
  assumes "shouldMigrate d now q = (True, d')"
  shows "fst (shouldMigrate d' now' q') =
    (if q' = q then second \<le> now' 0 - now 1 else fst (shouldMigrate d now' q'))"
  using assms by (auto simp: shouldMigrate_def split: if_splits)

theorem shouldMigrate_throttles_witness:
  "fst (shouldMigrate (snd (shouldMigrate ex_driver (\<lambda>_. 5) ''a'')) (\<lambda>_. 6) ''a'') = False \<and>
   fst (shouldMigrate (snd (shouldMigrate ex_driver (\<lambda>_. 5) ''a'')) (\<lambda>_. 5 + second) ''a'') = True"
proof -
  have "shouldMigrate ex_driver (\<lambda>_. 5) ''a'' = (True, snd (shouldMigrate ex_driver (\<lambda>_. 5) ''a''))"
    by (simp add: shouldMigrate_def NewRedisDriver_def)
  from shouldMigrate_throttles [OF this, of _ "''a''"] show ?thesis by simp
qed

section \<open>Isolation and failures\<close>







end
