(* ===== verification/Middleware.thy ===== *)
theory Middleware
  imports Redis_Service
begin

text \<open>
  Package \<open>middleware\<close>: the pipeline, the rate limiter, the exception throttle and the lock
  middlewares. A handler, and the \<open>next\<close> a middleware is given, is a function on the state
  of the world \<open>'s\<close>, in which the Redis server lives; it returns an error or nil. The job
  is seen through \<open>keyFunc\<close> only and is a type parameter.
\<close>

section \<open>Errors and the pipeline\<close>

text \<open>The errors a handler can return; \<open>Wrapped\<close> is \<open>fmt.Errorf\<close> with \<open>%w\<close>.\<close>

datatype job_error =
    ReleaseError int
  | HandlerError string
  | RateLimitError redis_error
  | LockError redis_error
  | TimedOut int
  | Wrapped string job_error

text \<open>\<open>errors.As(err, &releaseErr)\<close>: the first \<open>*ReleaseError\<close> in the chain.\<close>

fun as_release :: "job_error \<Rightarrow> int option" where
  "as_release (ReleaseError d) = Some d"
| "as_release (Wrapped m e) = as_release e"
| "as_release e = None"

type_synonym 's nextf = "'s \<Rightarrow> job_error option \<times> 's"
type_synonym ('j, 's) middleware = "'j \<Rightarrow> 's nextf \<Rightarrow> 's nextf"

record ('j, 's) Pipeline =
  mws :: "('j, 's) middleware list"

definition NewPipeline :: "('j, 's) middleware list \<Rightarrow> ('j, 's) Pipeline" where
  "NewPipeline ms = \<lparr>mws = ms\<rparr>"

definition Use :: "('j, 's) Pipeline \<Rightarrow> ('j, 's) middleware list \<Rightarrow> ('j, 's) Pipeline" where
  "Use p ms = p\<lparr>mws := mws p @ ms\<rparr>"

function execute :: "('j, 's) Pipeline \<Rightarrow> 'j \<Rightarrow> 's nextf \<Rightarrow> nat \<Rightarrow> 's nextf" where
  "execute p job handler index =
     (if length (mws p) \<le> index then handler
      else (mws p ! index) job (execute p job handler (index + 1)))"
  by pat_completeness auto
termination
  by (relation "measure (\<lambda>(p, _, _, i). length (mws p) - i)") auto

declare execute.simps [simp del]

definition Then :: "('j, 's) Pipeline \<Rightarrow> 'j \<Rightarrow> 's nextf \<Rightarrow> 's nextf" where
  "Then p job handler = (if length (mws p) = 0 then handler else execute p job handler 0)"

section \<open>Counters\<close>

abbreviation minute :: int where "minute \<equiv> 60 * 1000000000"

text \<open>
  \<open>int(d.Seconds())\<close>: whole seconds, towards zero (the \<open>float64\<close> in between is close
  enough for any duration below $2^{22}$ seconds).
\<close>

definition whole_seconds :: "int \<Rightarrow> int" where
  "whole_seconds d = (if 0 \<le> d then d div 1000000000 else - ((- d) div 1000000000))"

text \<open>The script of \<open>luaRateLimit\<close> and \<open>luaThrottle\<close>.\<close>

definition luaRateLimit :: "'s client \<Rightarrow> string \<Rightarrow> int \<Rightarrow> 's req" where
  "luaRateLimit cl k1 ttl =
     lseq (call cl (Incr k1)) (\<lambda>count.
       if count = RInt 1 then lseq (call cl (Expire k1 ttl)) (\<lambda>_. lreturn count) else lreturn count)"

definition luaThrottle :: "'s client \<Rightarrow> string \<Rightarrow> int \<Rightarrow> 's req" where
  "luaThrottle cl k1 ttl =
     lseq (call cl (Incr k1)) (\<lambda>count.
       if count = RInt 1 then lseq (call cl (Expire k1 ttl)) (\<lambda>_. lreturn count) else lreturn count)"

definition count_reply :: "redis_error + reply \<Rightarrow> redis_error + int" where
  "count_reply r =
     (case r of Inl e \<Rightarrow> Inl e | Inr (RInt n) \<Rightarrow> Inr n | Inr _ \<Rightarrow> Inl (RedisErr ''unexpected type''))"

text \<open>\<open>rateLimitKeyPrefix + key\<close>\<close>

definition limiter :: "string \<Rightarrow> string" where
  "limiter key = ''laravel_queue_rate_limit:'' @ key"

definition RateLimited :: "'s client \<Rightarrow> string \<Rightarrow> int \<Rightarrow> int \<Rightarrow> ('j, 's) middleware" where
  "RateLimited cl key maxAttempts decay job nxt s =
     (let limiterKey = limiter key
      in case deliver cl (luaRateLimit cl limiterKey (whole_seconds decay)) s of
           (r, s1) \<Rightarrow>
             (case count_reply r of
                Inl e \<Rightarrow> (Some (RateLimitError e), s1)
              | Inr count \<Rightarrow>
                  if maxAttempts < count
                  then (Some (ReleaseError decay), snd (deliver cl (call cl (Decr limiterKey)) s1))
                  else
                    (case nxt s1 of
                       (None, s2) \<Rightarrow> (None, s2)
                     | (Some processErr, s2) \<Rightarrow>
                         (Some processErr,
                          if as_release processErr = None
                          then snd (deliver cl (call cl (Decr limiterKey)) s2) else s2))))"

definition ThrottlesExceptions :: "'s client \<Rightarrow> ('j \<Rightarrow> string) \<Rightarrow> int \<Rightarrow> int \<Rightarrow> ('j, 's) middleware" where
  "ThrottlesExceptions cl keyFunc maxExceptions decayMinutes job nxt s =
     (case nxt s of
        (None, s1) \<Rightarrow> (None, s1)
      | (Some err, s1) \<Rightarrow>
          (let key = ''laravel_throttle_exceptions:'' @ keyFunc job; decay = decayMinutes * minute
           in case deliver cl (luaThrottle cl key (whole_seconds decay)) s1 of
                (r, s2) \<Rightarrow>
                  (case count_reply r of
                     Inl _ \<Rightarrow> (Some err, s2)
                   | Inr count \<Rightarrow>
                       if maxExceptions \<le> count
                       then (Some (ReleaseError decay), snd (deliver cl (call cl (Del [key])) s2))
                       else (Some err, s2))))"

section \<open>Locks\<close>

definition lockMiddleware ::
  "'s client \<Rightarrow> ('j \<Rightarrow> string) \<Rightarrow> int \<Rightarrow> string \<Rightarrow> job_error option \<Rightarrow> ('j, 's) middleware" where
  "lockMiddleware cl keyFunc ttl prefix onConflict job nxt s =
     (let key = prefix @ keyFunc job
      in case deliver cl (call cl (SetNX key 1 ttl)) s of
           (Inl e, s1) \<Rightarrow> (Some (LockError e), s1)
         | (Inr r, s1) \<Rightarrow>
             if r \<noteq> RInt 1 then (onConflict, s1)
             else (case nxt s1 of (err, s2) \<Rightarrow> (err, snd (deliver cl (call cl (Del [key])) s2))))"

definition Unique :: "'s client \<Rightarrow> ('j \<Rightarrow> string) \<Rightarrow> int \<Rightarrow> ('j, 's) middleware" where
  "Unique cl keyFunc ttl = lockMiddleware cl keyFunc ttl ''laravel_unique_job:'' None"

definition WithoutOverlapping :: "'s client \<Rightarrow> ('j \<Rightarrow> string) \<Rightarrow> int \<Rightarrow> ('j, 's) middleware" where
  "WithoutOverlapping cl keyFunc ttl =
     lockMiddleware cl keyFunc ttl ''laravel_overlapping:'' (Some (ReleaseError (10 * 1000000000)))"

section \<open>Timeouts\<close>

text \<open>
  \<open>Timeout\<close> runs \<open>next\<close> in a goroutine and waits for it or for the deadline, whichever the \<open>select\<close>
  sees first. The scheduler and the timer are the parameter \<open>race\<close>: the handler's result when
  it came first, otherwise nothing, with the world as it is at that moment. The handler is
  not told of the deadline (\<open>next\<close> takes no context) and goes on in the background.
\<close>

definition Timeout ::
  "(int \<Rightarrow> 's nextf \<Rightarrow> 's \<Rightarrow> job_error option option \<times> 's) \<Rightarrow> ('j \<Rightarrow> int option) \<Rightarrow> ('j, 's) middleware" where
  "Timeout race getter job nxt s =
     (case getter job of
        None \<Rightarrow> nxt s
      | Some timeout \<Rightarrow>
          if timeout = 0 then nxt s
          else case race timeout nxt s of
                 (Some err, s') \<Rightarrow> (err, s')
               | (None, s') \<Rightarrow> (Some (TimedOut timeout), s'))"

text \<open>A timed-out job counts as failed like any other: it is not released by the error itself.\<close>

lemma Timeout_cases:
  assumes "Timeout race getter job nxt s = (r, s')" "\<And>t e s'. race t nxt s = (Some e, s') \<Longrightarrow> nxt s = (e, s')"
  shows "nxt s = (r, s') \<or> (\<exists>t. getter job = Some t \<and> t \<noteq> 0 \<and> r = Some (TimedOut t) \<and> as_release (TimedOut t) = None)"
  using assms by (auto simp: Timeout_def split: option.splits if_splits prod.splits)

section \<open>The pipeline nests its middlewares\<close>

lemma execute_fold: "execute p job handler i = foldr (\<lambda>m nxt. m job nxt) (drop i (mws p)) handler"
proof (induction p job handler i rule: execute.induct)
  case (1 p job handler i)
  show ?case
  proof (cases "length (mws p) \<le> i")
    case True
    then show ?thesis by (simp add: execute.simps [of p])
  next
    case False
    then have "drop i (mws p) = (mws p ! i) # drop (i + 1) (mws p)"
      by (simp add: Cons_nth_drop_Suc)
    with 1 False show ?thesis by (simp add: execute.simps [of p])
  qed
qed

lemma Then_fold: "Then p job handler = foldr (\<lambda>m nxt. m job nxt) (mws p) handler"
  by (simp add: Then_def execute_fold)

section \<open>Jobs through a middleware, one after the other\<close>

fun run_jobs :: "('j, 's) middleware \<Rightarrow> 's nextf \<Rightarrow> 'j list \<Rightarrow> 's \<Rightarrow> job_error option list \<times> 's" where
  "run_jobs mw nxt [] s = ([], s)"
| "run_jobs mw nxt (j # js) s =
     (case mw j nxt s of (r, s1) \<Rightarrow> (case run_jobs mw nxt js s1 of (rs, s2) \<Rightarrow> (r # rs, s2)))"

declare num_at.simps [simp del]

context redis_counters
begin

text \<open>The script counts up and marks a fresh counter as expiring.\<close>

lemma luaRateLimit_counts:
  assumes "num_at (view s) k = Some (n, x)" "0 < t" "n = 0 \<longrightarrow> \<not> x"
  shows "\<exists>s'. deliver cl (luaRateLimit cl k t) s = (Inr (RInt (n + 1)), s') \<and>
    view s' = (view s)(k \<mapsto> RedisNum (n + 1) (n = 0 \<or> x))"
proof -
  obtain s1 where s1: "call cl (Incr k) s = (Inr (RInt (n + 1)), s1)" "view s1 = (view s)(k \<mapsto> RedisNum (n + 1) x)"
    using incr [OF assms(1)] by blast
  show ?thesis
  proof (cases "n = 0")
    case True
    have "view s1 k = Some (RedisNum (n + 1) x)" using s1(2) by simp
    with expire [of s1 k "n + 1" x t] assms(2) obtain r s2 where
      "call cl (Expire k t) s1 = (Inr r, s2)" "view s2 = (view s1)(k \<mapsto> RedisNum (n + 1) True)" by auto
    with s1 True have "luaRateLimit cl k t s = (Inr (RInt (n + 1)), s2)"
      "view s2 = (view s)(k \<mapsto> RedisNum (n + 1) (n = 0 \<or> x))"
      by (simp_all add: luaRateLimit_def lseq_def lreturn_def)
    then show ?thesis using delivered_counters by blast
  next
    case False
    with s1 have "luaRateLimit cl k t s = (Inr (RInt (n + 1)), s1)"
      "view s1 = (view s)(k \<mapsto> RedisNum (n + 1) (n = 0 \<or> x))"
      by (simp_all add: luaRateLimit_def lseq_def lreturn_def)
    then show ?thesis using delivered_counters by blast
  qed
qed

lemma RateLimited_passes:
  assumes "num_at (view s) (limiter key) = Some (n, x)" "n = 0 \<longrightarrow> \<not> x" "0 < whole_seconds decay" "n < lim"
  shows "\<exists>s1. view s1 = (view s)(limiter key \<mapsto> RedisNum (n + 1) (n = 0 \<or> x)) \<and>
    (\<forall>s2. nxt s1 = (None, s2) \<longrightarrow> RateLimited cl key lim decay job nxt s = (None, s2))"
  using luaRateLimit_counts [OF assms(1,3,2)] assms(4)
  by (auto simp: RateLimited_def count_reply_def Let_def)

lemma RateLimited_refuses:
  assumes "view s (limiter key) = Some (RedisNum n True)" "0 < n" "0 < whole_seconds decay" "lim \<le> n"
  shows "\<exists>s'. RateLimited cl key lim decay job nxt s = (Some (ReleaseError decay), s') \<and> view s' = view s"
proof -
  have "num_at (view s) (limiter key) = Some (n, True)" using assms(1) by (simp add: num_at.simps)
  with luaRateLimit_counts [of s "limiter key" n True] assms(2,3) obtain s1 where
    s1: "deliver cl (luaRateLimit cl (limiter key) (whole_seconds decay)) s = (Inr (RInt (n + 1)), s1)"
    "view s1 = (view s)(limiter key \<mapsto> RedisNum (n + 1) True)" by auto
  then have "num_at (view s1) (limiter key) = Some (n + 1, True)" by (simp add: num_at.simps)
  from decr [OF this] obtain s2 where
    "call cl (Decr (limiter key)) s1 = (Inr (RInt n), s2)" "view s2 = (view s1)(limiter key \<mapsto> RedisNum n True)" by auto
  then have "deliver cl (call cl (Decr (limiter key))) s1 = (Inr (RInt n), s2)" "view s2 = view s"
    using delivered_counters s1(2) assms(1) by (auto simp: fun_eq_iff)
  with s1(1) assms(4) show ?thesis
    by (auto simp: RateLimited_def count_reply_def Let_def)
qed

lemma rate_limit_run:
  assumes "\<And>s. \<exists>s2. nxt s = (None, s2) \<and> view s2 (limiter key) = view s (limiter key)" "0 < whole_seconds decay"
    "view s (limiter key) = (if n = 0 then None else Some (RedisNum (int n) True))" "0 < lim" "int n \<le> lim"
  shows "fst (run_jobs (RateLimited cl key lim decay) nxt js s) =
    replicate (min (length js) (nat lim - n)) None @
    replicate (length js - (nat lim - n)) (Some (ReleaseError decay))"
  using assms(3,5)
proof (induction js arbitrary: s n)
  case (Cons j js)
  show ?case
  proof (cases "int n < lim")
    case True
    have "num_at (view s) (limiter key) = Some (int n, n \<noteq> 0)"
      using Cons.prems(1) by (simp add: num_at.simps)
    then have "\<exists>s1. view s1 = (view s)(limiter key \<mapsto> RedisNum (int n + 1) (int n = 0 \<or> n \<noteq> 0)) \<and>
      (\<forall>s2. nxt s1 = (None, s2) \<longrightarrow> RateLimited cl key lim decay j nxt s = (None, s2))"
      using True assms(2) by (intro RateLimited_passes) auto
    moreover have "(int n = 0 \<or> n \<noteq> 0) = True" by auto
    ultimately obtain s1 where s1: "view s1 = (view s)(limiter key \<mapsto> RedisNum (int n + 1) True)"
      "\<And>s2. nxt s1 = (None, s2) \<Longrightarrow> RateLimited cl key lim decay j nxt s = (None, s2)"
      by metis
    obtain s2 where s2: "nxt s1 = (None, s2)" "view s2 (limiter key) = view s1 (limiter key)"
      using assms(1) by blast
    have "fst (run_jobs (RateLimited cl key lim decay) nxt js s2) =
        replicate (min (length js) (nat lim - Suc n)) None @
        replicate (length js - (nat lim - Suc n)) (Some (ReleaseError decay))"
      using True s1(1) s2(2) by (intro Cons.IH) (auto simp: add.commute)
    moreover have "nat lim - n = Suc (nat lim - Suc n)" using True by linarith
    ultimately show ?thesis using s1(2) [OF s2(1)] by (auto split: prod.splits)
  next
    case False
    with Cons.prems assms(4) have n: "int n = lim" "0 < n" by auto
    with Cons.prems(1) obtain s1 where
      s1: "RateLimited cl key lim decay j nxt s = (Some (ReleaseError decay), s1)" "view s1 = view s"
      using RateLimited_refuses [of s key "int n" decay lim j nxt] assms(2) by auto
    have "fst (run_jobs (RateLimited cl key lim decay) nxt js s1) =
        replicate (min (length js) (nat lim - n)) None @
        replicate (length js - (nat lim - n)) (Some (ReleaseError decay))"
      using Cons.prems s1(2) by (intro Cons.IH) auto
    with s1(1) n show ?thesis by (auto split: prod.splits)
  qed
qed simp

text \<open>Locks.\<close>

lemma lock_free:
  assumes "view s (prefix @ keyFunc job) = None"
  shows "\<exists>s1. view s1 = (view s)(prefix @ keyFunc job \<mapsto> RedisNum 1 (0 < ttl)) \<and>
    (\<forall>err s2. nxt s1 = (err, s2) \<longrightarrow> (\<exists>s3. lockMiddleware cl keyFunc ttl prefix onConflict job nxt s = (err, s3) \<and>
       view s3 = (view s2)(prefix @ keyFunc job := None)))"
proof -
  let ?k = "prefix @ keyFunc job"
  obtain s1 where s1: "call cl (SetNX ?k 1 ttl) s = (Inr (RInt 1), s1)" "view s1 = (view s)(?k \<mapsto> RedisNum 1 (0 < ttl))"
    using setnx_free [OF assms] by blast
  then have d1: "deliver cl (call cl (SetNX ?k 1 ttl)) s = (Inr (RInt 1), s1)"
    using delivered_counters by blast
  show ?thesis
  proof (rule exI [of _ s1], intro conjI allI impI)
    fix err s2 assume "nxt s1 = (err, s2)"
    moreover obtain r s3 where "call cl (Del [?k]) s2 = (Inr r, s3)" "r \<noteq> RNil" "view s3 = (view s2)(?k := None)"
      using del_key by blast
    moreover from this(1,2) have "deliver cl (call cl (Del [?k])) s2 = (Inr r, s3)"
      using delivered_counters by blast
    ultimately show "\<exists>s3. lockMiddleware cl keyFunc ttl prefix onConflict job nxt s = (err, s3) \<and>
        view s3 = (view s2)(?k := None)"
      using d1 by (auto simp: lockMiddleware_def Let_def)
  qed (use s1 in simp)
qed

lemma lock_held:
  assumes "view s (prefix @ keyFunc job) = Some c"
  shows "\<exists>s1. lockMiddleware cl keyFunc ttl prefix onConflict job nxt s = (onConflict, s1) \<and> view s1 = view s"
proof -
  let ?k = "prefix @ keyFunc job"
  obtain s1 where "call cl (SetNX ?k 1 ttl) s = (Inr (RInt 0), s1)" "view s1 = view s"
    using setnx_held [OF assms] by blast
  moreover from this(1) have "deliver cl (call cl (SetNX ?k 1 ttl)) s = (Inr (RInt 0), s1)"
    using delivered_counters by blast
  ultimately show ?thesis by (simp add: lockMiddleware_def Let_def)
qed

end

end
