(* ===== verification/Events.thy ===== *)
theory Events
  imports Go_Prelude
begin

text \<open>
  Package \<open>events\<close>: the bus. Slices of listeners are a pair of an array in an explicit store
  and a length, because \<open>Fire\<close> walks over a slice it has read under the lock while other
  goroutines register listeners; each method body under the mutex is one atomic step.
\<close>

type_synonym EventType = string

definition JobProcessing :: EventType where "JobProcessing = ''queue.job.processing''"
definition JobProcessed :: EventType where "JobProcessed = ''queue.job.processed''"
definition JobFailed :: EventType where "JobFailed = ''queue.job.failed''"
definition JobExceptionOccurred :: EventType where "JobExceptionOccurred = ''queue.job.exception''"
definition JobReleasedAfterError :: EventType where "JobReleasedAfterError = ''queue.job.released''"
definition WorkerStopping :: EventType where "WorkerStopping = ''queue.worker.stopping''"

record 'e Event =
  Type :: EventType
  JobUUID :: string
  JobName :: string
  EvQueue :: string
  Attempt :: int
  Duration :: int
  Error :: "'e option"
  Connection :: string

type_synonym slice = "nat \<times> nat"

text \<open>The bus: the arrays allocated so far, and the map, nil for the zero \<open>Bus\<close>.\<close>

record 'l Bus =
  arrays :: "'l list list"
  listeners :: "slice gomap option"

definition NewBus :: "'l Bus" where
  "NewBus = \<lparr>arrays = [], listeners = Some []\<rparr>"

text \<open>\<open>b.listeners[eventType]\<close>: an absent key or a nil map gives the nil slice.\<close>

definition lookup :: "'l Bus \<Rightarrow> EventType \<Rightarrow> slice option" where
  "lookup b t = (case listeners b of None \<Rightarrow> None | Some m \<Rightarrow> map_of m t)"

text \<open>The elements of a slice, as they are in its array now.\<close>

definition elems :: "'l Bus \<Rightarrow> slice option \<Rightarrow> 'l list" where
  "elems b sl =
     (case sl of None \<Rightarrow> [] | Some (a, n) \<Rightarrow> if a < length (arrays b) then take n (arrays b ! a) else [])"

text \<open>\<open>fresh\<close> is a new array: the old elements are copied, the listener is stored behind them.\<close>

definition On :: "'l Bus \<Rightarrow> EventType \<Rightarrow> 'l \<Rightarrow> 'l Bus" where
  "On b eventType listener =
     (let m = (case listeners b of None \<Rightarrow> [] | Some m \<Rightarrow> m);
          old = lookup b eventType;
          fresh = elems b old @ [listener]
      in b\<lparr>arrays := arrays b @ [fresh],
           listeners := Some (AList.update eventType (length (arrays b), length fresh) m)\<rparr>)"

definition Clear :: "'l Bus \<Rightarrow> EventType \<Rightarrow> 'l Bus" where
  "Clear b eventType = b\<lparr>listeners := map_option (AList.delete eventType) (listeners b)\<rparr>"

definition ClearAll :: "'l Bus \<Rightarrow> 'l Bus" where
  "ClearAll b = b\<lparr>listeners := Some []\<rparr>"

text \<open>\<open>Fire\<close> calls the listeners one after the other on the state of the world.\<close>

definition Fire :: "('e Event \<Rightarrow> 's \<Rightarrow> 's) Bus \<Rightarrow> 'e Event \<Rightarrow> 's \<Rightarrow> 's" where
  "Fire b event s = fold (\<lambda>listener. listener event) (elems b (lookup b (Type event))) s"

section \<open>Lemmas\<close>

definition wf_bus :: "'l Bus \<Rightarrow> bool" where
  "wf_bus b \<longleftrightarrow> (\<forall>m t a n. listeners b = Some m \<longrightarrow> map_of m t = Some (a, n) \<longrightarrow>
     a < length (arrays b) \<and> n = length (arrays b ! a))"

definition registered :: "'l Bus \<Rightarrow> EventType \<Rightarrow> 'l list" where
  "registered b t = elems b (lookup b t)"

lemma wf_bus_steps [simp]:
  "wf_bus NewBus"
  "wf_bus b \<Longrightarrow> wf_bus (On b t l)" "wf_bus b \<Longrightarrow> wf_bus (Clear b t)" "wf_bus (ClearAll b)"
proof -
  show "wf_bus (On b t l)" if "wf_bus b"
    using that
    by (fastforce simp: wf_bus_def On_def Let_def nth_append split: option.splits if_splits)
qed (auto simp: wf_bus_def NewBus_def Clear_def ClearAll_def delete_conv' split: if_splits)

lemma elems_grow:
  "elems b (Some (a, n)) = xs \<Longrightarrow> a < length (arrays b) \<Longrightarrow>
   elems (b\<lparr>arrays := arrays b @ ys, listeners := m\<rparr>) (Some (a, n)) = xs"
  by (auto simp: elems_def nth_append)

lemma registered_On:
  assumes "wf_bus b"
  shows "registered (On b t l) t' = (if t' = t then registered b t @ [l] else registered b t')"
proof (cases "t' = t")
  case True
  then show ?thesis
    by (auto simp: registered_def On_def lookup_def Let_def elems_def)
next
  case False
  then have "lookup (On b t l) t' = lookup b t'"
    by (auto simp: On_def lookup_def Let_def split: option.splits)
  moreover have "elems (On b t l) (lookup b t') = elems b (lookup b t')"
    using assms by (auto simp: elems_def On_def Let_def lookup_def wf_bus_def nth_append split: option.splits)
  ultimately show ?thesis using False by (simp add: registered_def)
qed

lemma registered_Clear: "registered (Clear b t) t' = (if t' = t then [] else registered b t')"
  by (auto simp: registered_def Clear_def lookup_def elems_def delete_conv' split: option.splits)

lemma registered_ClearAll: "registered (ClearAll b) t = []"
  by (simp add: registered_def ClearAll_def lookup_def elems_def)

lemma registered_NewBus: "registered NewBus t = []"
  by (simp add: registered_def NewBus_def lookup_def elems_def)

text \<open>What other goroutines can do to the bus between two calls of a running \<open>Fire\<close>.\<close>

inductive bus_steps :: "'l Bus \<Rightarrow> 'l Bus \<Rightarrow> bool" for b where
  refl: "bus_steps b b"
| on: "bus_steps b b1 \<Longrightarrow> bus_steps b (On b1 t l)"
| clear: "bus_steps b b1 \<Longrightarrow> bus_steps b (Clear b1 t)"
| clear_all: "bus_steps b b1 \<Longrightarrow> bus_steps b (ClearAll b1)"

lemma bus_steps_arrays: "bus_steps b b1 \<Longrightarrow> \<exists>ys. arrays b1 = arrays b @ ys"
  by (induction rule: bus_steps.induct) (auto simp: On_def Clear_def ClearAll_def Let_def)

section \<open>Properties\<close>



text \<open>
  \<open>Fire\<close> calls the listeners of the event's type in the order of their registration and
  no others; \<open>Clear\<close> removes those of one type only.
\<close>

theorem Fire_in_order:
  assumes "wf_bus b" "t \<noteq> t'"
  shows "Fire (On (On (Clear b t) t l1) t l2) ev s =
    (if Type ev = t then l2 ev (l1 ev s) else Fire b ev s) \<and>
    Fire (On b t' l1) (ev\<lparr>Type := t\<rparr>) s = Fire b (ev\<lparr>Type := t\<rparr>) s"
  using assms
  by (simp add: Fire_def registered_def [symmetric] registered_On registered_Clear)

theorem Fire_in_order_witness:
  "Fire (On (On (Clear NewBus JobFailed) JobFailed (\<lambda>e s. s @ [1])) JobFailed (\<lambda>e s. s @ [2::nat]))
     \<lparr>Type = JobFailed, JobUUID = [], JobName = [], EvQueue = [], Attempt = 0, Duration = 0, Error = None :: unit option,
      Connection = []\<rparr> [] = [1, 2]"
  using Fire_in_order [of NewBus JobFailed JobProcessed "\<lambda>e s. s @ [1]" "\<lambda>e s. s @ [2::nat]"
    "\<lparr>Type = JobFailed, JobUUID = [], JobName = [], EvQueue = [], Attempt = 0, Duration = 0, Error = None :: unit option,
      Connection = []\<rparr>" "[]"]
  by (simp add: JobFailed_def JobProcessed_def)

end
