(* ===== verification/Go_Json_String.thy ===== *)
theory Go_Json_String
  imports Go_Prelude
begin

text \<open>
  Strings of \<open>encoding/json\<close>: UTF-8 sequences as \<open>unicode/utf8\<close> decodes them, the escaping of
  \<open>json.Marshal\<close> (with its HTML escapes), the scanner's notion of a string literal and
  \<open>unquote\<close>. Reading back a marshalled string gives the string with every invalid byte
  replaced by U+FFFD.
\<close>

section \<open>UTF-8\<close>

abbreviation byte :: "char \<Rightarrow> nat" where "byte \<equiv> of_char"

definition is_cont :: "char \<Rightarrow> bool" where
  "is_cont c \<longleftrightarrow> 0x80 \<le> byte c \<and> byte c \<le> 0xBF"

text \<open>The length announced by a first byte, 0 if it cannot start a sequence.\<close>

definition utf8_need :: "char \<Rightarrow> nat" where
  "utf8_need a =
     (if byte a < 0x80 then 1
      else if 0xC2 \<le> byte a \<and> byte a \<le> 0xDF then 2
      else if 0xE0 \<le> byte a \<and> byte a \<le> 0xEF then 3
      else if 0xF0 \<le> byte a \<and> byte a \<le> 0xF4 then 4 else 0)"

text \<open>The second byte is restricted where the code point would be overlong, a surrogate or too large.\<close>

definition second_ok :: "char \<Rightarrow> char \<Rightarrow> bool" where
  "second_ok a b \<longleftrightarrow>
     (if byte a = 0xE0 then 0xA0 else if byte a = 0xF0 then 0x90 else 0x80) \<le> byte b \<and>
     byte b \<le> (if byte a = 0xED then 0x9F else if byte a = 0xF4 then 0x8F else 0xBF)"

text \<open>The length of the valid sequence at the front, 0 if there is none (\<open>RuneError\<close> of width 1).\<close>

definition utf8_len :: "string \<Rightarrow> nat" where
  "utf8_len s =
     (case s of
        [] \<Rightarrow> 0
      | a # r \<Rightarrow>
          let n = utf8_need a
          in if n \<le> 1 then n
             else if n \<le> Suc (length r) \<and> second_ok a (hd r) \<and> list_all is_cont (take (n - 2) (tl r)) then n else 0)"

definition encode_rune :: "nat \<Rightarrow> string" where
  "encode_rune r =
     (if r < 0x80 then [char_of r]
      else if r < 0x800 then [char_of (0xC0 + r div 64), char_of (0x80 + r mod 64)]
      else if r < 0x10000 then
        [char_of (0xE0 + r div 4096), char_of (0x80 + r div 64 mod 64), char_of (0x80 + r mod 64)]
      else
        [char_of (0xF0 + r div 262144), char_of (0x80 + r div 4096 mod 64), char_of (0x80 + r div 64 mod 64),
         char_of (0x80 + r mod 64)])"

definition replacement :: string where
  "replacement = [CHR 0xEF, CHR 0xBF, CHR 0xBD]"

text \<open>Every byte that is not part of a valid sequence replaced.\<close>

function to_valid :: "string \<Rightarrow> string" where
  "to_valid s =
     (if s = [] then []
      else if utf8_len s = 0 then replacement @ to_valid (tl s)
      else take (utf8_len s) s @ to_valid (drop (utf8_len s) s))"
  by pat_completeness auto
termination
  by (relation "measure length") auto

declare to_valid.simps [simp del]

definition valid_utf8 :: "string \<Rightarrow> bool" where
  "valid_utf8 s \<longleftrightarrow> to_valid s = s"

section \<open>Escaping\<close>

abbreviation backslash :: char where "backslash \<equiv> CHR 0x5C"
abbreviation quote :: char where "quote \<equiv> CHR 0x22"

definition hex_digit :: "nat \<Rightarrow> char" where
  "hex_digit n = (if n < 10 then char_of (48 + n) else char_of (87 + n))"

definition hex_val :: "char \<Rightarrow> nat option" where
  "hex_val c =
     (if 48 \<le> byte c \<and> byte c \<le> 57 then Some (byte c - 48)
      else if 97 \<le> byte c \<and> byte c \<le> 102 then Some (byte c - 87)
      else if 65 \<le> byte c \<and> byte c \<le> 70 then Some (byte c - 55) else None)"

text \<open>\<open>htmlSafeSet\<close>: printable ASCII and DEL, without the quote, the backslash and \<open>< > &\<close>.\<close>

definition html_safe :: "char \<Rightarrow> bool" where
  "html_safe c \<longleftrightarrow> 0x20 \<le> byte c \<and> byte c < 0x80 \<and>
     c \<noteq> quote \<and> c \<noteq> backslash \<and> c \<noteq> CHR ''<'' \<and> c \<noteq> CHR ''>'' \<and> c \<noteq> CHR ''&''"

definition escape_ascii :: "char \<Rightarrow> string" where
  "escape_ascii c =
     (if html_safe c then [c]
      else if c = backslash \<or> c = quote then [backslash, c]
      else if c = CHR 0x08 then [backslash, CHR ''b'']
      else if c = CHR 0x0C then [backslash, CHR ''f'']
      else if c = CHR 0x0A then [backslash, CHR ''n'']
      else if c = CHR 0x0D then [backslash, CHR ''r'']
      else if c = CHR 0x09 then [backslash, CHR ''t'']
      else [backslash, CHR ''u'', CHR ''0'', CHR ''0'', hex_digit (byte c div 16), hex_digit (byte c mod 16)])"

text \<open>U+2028 and U+2029 are escaped for JavaScript.\<close>

definition line_sep :: "string \<Rightarrow> bool" where
  "line_sep s \<longleftrightarrow> take 3 s = [CHR 0xE2, CHR 0x80, CHR 0xA8] \<or> take 3 s = [CHR 0xE2, CHR 0x80, CHR 0xA9]"

function escape :: "string \<Rightarrow> string" where
  "escape s =
     (if s = [] then []
      else if byte (hd s) < 0x80 then escape_ascii (hd s) @ escape (tl s)
      else if utf8_len s = 0 then backslash # ''ufffd'' @ escape (tl s)
      else if line_sep s then backslash # ''u202'' @ [hex_digit (byte (s ! 2) mod 16)] @ escape (drop 3 s)
      else take (utf8_len s) s @ escape (drop (utf8_len s) s))"
  by pat_completeness auto
termination
  by (relation "measure length") auto

declare escape.simps [simp del]

section \<open>Reading\<close>

text \<open>
  The scanner's string states: the body up to the closing quote, checked for control
  characters and bad escapes, and the rest of the input.
\<close>

definition is_hex4 :: "string \<Rightarrow> bool" where
  "is_hex4 s \<longleftrightarrow> 4 \<le> length s \<and> list_all (\<lambda>c. hex_val c \<noteq> None) (take 4 s)"

definition simple_escape :: "char \<Rightarrow> bool" where
  "simple_escape e \<longleftrightarrow> e \<in> set ''bfnrt/'' \<or> e = backslash \<or> e = quote"

fun scan_string :: "string \<Rightarrow> (string \<times> string) option" where
  "scan_string [] = None"
| "scan_string (c # cs) =
     (if c = quote then Some ([], cs)
      else if byte c < 0x20 then None
      else if c = backslash then
        (case cs of
           [] \<Rightarrow> None
         | e # r \<Rightarrow>
             if simple_escape e \<or> e = CHR ''u'' \<and> is_hex4 r
             then map_option (\<lambda>(b, t). (c # e # b, t)) (scan_string r) else None)
      else map_option (\<lambda>(b, t). (c # b, t)) (scan_string cs))"

definition hex4 :: "string \<Rightarrow> nat" where
  "hex4 s = foldl (\<lambda>n c. 16 * n + (case hex_val c of Some v \<Rightarrow> v | None \<Rightarrow> 0)) 0 (take 4 s)"

definition unescape :: "char \<Rightarrow> char" where
  "unescape e =
     (if e = CHR ''b'' then CHR 0x08 else if e = CHR ''f'' then CHR 0x0C else if e = CHR ''n'' then CHR 0x0A
      else if e = CHR ''r'' then CHR 0x0D else if e = CHR ''t'' then CHR 0x09 else e)"

text \<open>\<open>getu4\<close> of a surrogate and of the escape behind it, if they form a pair.\<close>

definition pair_rune :: "nat \<Rightarrow> string \<Rightarrow> nat option" where
  "pair_rune hi s =
     (if 0xD800 \<le> hi \<and> hi < 0xDC00 \<and> 6 \<le> length s \<and> s ! 0 = backslash \<and> s ! 1 = CHR ''u'' \<and> is_hex4 (drop 2 s)
      then let lo = hex4 (drop 2 s)
           in if 0xDC00 \<le> lo \<and> lo < 0xE000 then Some (0x10000 + (hi - 0xD800) * 1024 + (lo - 0xDC00)) else None
      else None)"

function unquote :: "string \<Rightarrow> string" where
  "unquote s =
     (if s = [] then []
      else if hd s = backslash then
        (if tl s = [] then []
         else if hd (tl s) = CHR ''u'' then
           (let r = hex4 (drop 2 s)
            in if 0xD800 \<le> r \<and> r < 0xE000
               then (case pair_rune r (drop 6 s) of
                       Some q \<Rightarrow> encode_rune q @ unquote (drop 12 s)
                     | None \<Rightarrow> replacement @ unquote (drop 6 s))
               else encode_rune r @ unquote (drop 6 s))
         else unescape (hd (tl s)) # unquote (drop 2 s))
      else if utf8_len s = 0 then replacement @ unquote (tl s)
      else take (utf8_len s) s @ unquote (drop (utf8_len s) s))"
  by pat_completeness auto
termination
  by (relation "measure length") auto

declare unquote.simps [simp del]

section \<open>Lemmas\<close>

lemma utf8_need_le: "utf8_need a \<le> 4"
  by (simp add: utf8_need_def)

lemma utf8_len_le: "utf8_len s \<le> length s"
  by (cases s) (auto simp: utf8_len_def utf8_need_def Let_def)

lemma utf8_len_ascii: "byte c < 0x80 \<Longrightarrow> utf8_len (c # cs) = 1"
  by (simp add: utf8_len_def utf8_need_def)

lemma utf8_len_high: "0x80 \<le> byte c \<Longrightarrow> utf8_len (c # cs) \<noteq> 0 \<Longrightarrow> 2 \<le> utf8_len (c # cs)"
  by (auto simp: utf8_len_def utf8_need_def Let_def split: if_splits)

text \<open>The sequence at the front does not depend on what follows it.\<close>

lemma utf8_len_prefix:
  assumes "utf8_len s \<noteq> 0"
  shows "utf8_len (take (utf8_len s) s @ t) = utf8_len s"
proof (cases s)
  case (Cons a r)
  show ?thesis
  proof (cases "utf8_need a \<le> 1")
    case True
    with Cons assms have "utf8_need a = 1" "utf8_len s = 1" by (auto simp: utf8_len_def Let_def)
    with Cons show ?thesis by (simp add: utf8_len_def)
  next
    case False
    let ?n = "utf8_need a"
    from False Cons assms have n: "utf8_len s = ?n" "?n \<le> Suc (length r)" "second_ok a (hd r)"
      "list_all is_cont (take (?n - 2) (tl r))"
      by (auto simp: utf8_len_def Let_def split: if_splits)
    then obtain b r' where r: "r = b # r'" using False by (cases r) auto
    have t: "take ?n s = a # b # take (?n - 2) r'"
      using False by (cases ?n; cases "?n - 1") (auto simp: Cons r)
    have "take (?n - 2) (take (?n - 2) r' @ t) = take (?n - 2) r'"
      using n(2) r False by simp
    then show ?thesis
      unfolding n(1) t using n False r by (simp add: utf8_len_def Let_def)
  qed
qed (use assms in \<open>simp add: utf8_len_def\<close>)

lemma hex_val_digit [simp]: "n < 16 \<Longrightarrow> hex_val (hex_digit n) = Some n"
  by (auto simp: hex_val_def hex_digit_def of_char_mod_256)

lemma hex_digit_plain: "n < 16 \<Longrightarrow> hex_digit n \<noteq> quote \<and> hex_digit n \<noteq> backslash \<and> \<not> byte (hex_digit n) < 0x20"
  by (auto simp: hex_digit_def of_char_mod_256 char_of_eq_iff [symmetric] dest: arg_cong [of _ _ byte])

lemma hex_val_lit [simp]:
  "hex_val (CHR ''0'') = Some 0" "hex_val (CHR ''2'') = Some 2" "hex_val (CHR ''8'') = Some 8"
  "hex_val (CHR ''9'') = Some 9" "hex_val (CHR ''f'') = Some 15" "hex_val (CHR ''d'') = Some 13"
  by (simp_all add: hex_val_def)

lemma ascii_byte_bound: "byte c < 256"
  using of_char_mod_256 [of c] by (metis mod_less_divisor zero_less_numeral)

lemma encode_rune_ascii: "byte c < 0x80 \<Longrightarrow> encode_rune (byte c) = [c]"
  by (simp add: encode_rune_def)

text \<open>Reading one escaped character.\<close>

lemma unquote_u:
  assumes "hex4 (drop 2 s) = r" "r < 0xD800 \<or> 0xE000 \<le> r" "take 2 s = [backslash, CHR ''u'']"
  shows "unquote s = encode_rune r @ unquote (drop 6 s)"
proof -
  obtain t where "s = backslash # CHR ''u'' # t"
    using assms(3) by (cases s; cases "tl s") auto
  with assms show ?thesis by (subst unquote.simps) auto
qed

lemma unquote_simple:
  "e \<noteq> CHR ''u'' \<Longrightarrow> unquote (backslash # e # s) = unescape e # unquote s"
  by (subst unquote.simps) simp

lemma unquote_raw:
  assumes "utf8_len s \<noteq> 0" "hd s \<noteq> backslash"
  shows "unquote s = take (utf8_len s) s @ unquote (drop (utf8_len s) s)"
  using assms by (subst unquote.simps) (auto simp: utf8_len_def)

lemma unquote_escape_ascii:
  assumes "byte c < 0x80"
  shows "unquote (escape_ascii c @ r) = c # unquote r"
proof -
  consider "html_safe c" | "\<not> html_safe c" "c = backslash \<or> c = quote \<or> c \<in> {CHR 0x08, CHR 0x0C, CHR 0x0A, CHR 0x0D, CHR 0x09}"
    | "\<not> html_safe c" "c \<noteq> backslash" "c \<noteq> quote" "c \<notin> {CHR 0x08, CHR 0x0C, CHR 0x0A, CHR 0x0D, CHR 0x09}" by blast
  then show ?thesis
  proof cases
    case 1
    then have "c \<noteq> backslash" by (simp add: html_safe_def)
    with 1 show ?thesis
      using unquote_raw [of "c # r"] utf8_len_ascii [OF assms, of r] by (simp add: escape_ascii_def)
  next
    case 2
    then show ?thesis
      by (auto simp: escape_ascii_def unquote_simple unescape_def)
  next
    case 3
    have h: "byte c div 16 < 16" "byte c mod 16 < 16" using ascii_byte_bound [of c] by (simp_all add: less_mult_imp_div_less)
    let ?e = "[backslash, CHR ''u'', CHR ''0'', CHR ''0'', hex_digit (byte c div 16), hex_digit (byte c mod 16)]"
    have "escape_ascii c = ?e" using 3 by (simp add: escape_ascii_def)
    moreover have "hex4 (drop 2 (?e @ r)) = byte c"
      using h by (simp add: hex4_def)
    ultimately show ?thesis
      using unquote_u [of "?e @ r" "byte c"] assms encode_rune_ascii [OF assms] by simp
  qed
qed

lemma char_of_byte: "byte c = n \<Longrightarrow> char_of n = c"
  by auto

lemma encode_rune_lit:
  "encode_rune 0xFFFD = replacement" "encode_rune 0x2028 = [CHR 0xE2, CHR 0x80, CHR 0xA8]"
  "encode_rune 0x2029 = [CHR 0xE2, CHR 0x80, CHR 0xA9]"
  using char_of_byte [of "CHR 0xEF" 239] char_of_byte [of "CHR 0xBF" 191] char_of_byte [of "CHR 0xBD" 189]
    char_of_byte [of "CHR 0xE2" 226] char_of_byte [of "CHR 0x80" 128] char_of_byte [of "CHR 0xA8" 168]
    char_of_byte [of "CHR 0xA9" 169]
  by (simp_all add: encode_rune_def replacement_def)

lemma unquote_fffd: "unquote (backslash # ''ufffd'' @ r) = replacement @ unquote r"
  by (subst unquote_u [where r = "0xFFFD"]) (simp_all add: hex4_def encode_rune_lit)

lemma line_sep_cases:
  assumes "line_sep s"
  obtains x where "s = CHR 0xE2 # CHR 0x80 # x # drop 3 s" "x = CHR 0xA8 \<or> x = CHR 0xA9"
proof -
  obtain x where "take 3 s = [CHR 0xE2, CHR 0x80, x]" "x = CHR 0xA8 \<or> x = CHR 0xA9"
    using assms by (auto simp: line_sep_def)
  then show thesis using that append_take_drop_id [of 3 s] by (metis append_Cons append_Nil)
qed

lemma unquote_line_sep:
  assumes "line_sep s"
  shows "unquote (backslash # ''u202'' @ [hex_digit (byte (s ! 2) mod 16)] @ r) = take 3 s @ unquote r" "utf8_len s = 3"
proof -
  obtain x t where s: "s = CHR 0xE2 # CHR 0x80 # x # t" "x = CHR 0xA8 \<or> x = CHR 0xA9"
    using line_sep_cases [OF assms] by metis
  let ?e = "backslash # ''u202'' @ [hex_digit (byte (s ! 2) mod 16)]"
  have "hex4 (drop 2 (?e @ r)) = (if x = CHR 0xA8 then 0x2028 else 0x2029)"
    using s by (auto simp: hex4_def)
  then show "unquote (backslash # ''u202'' @ [hex_digit (byte (s ! 2) mod 16)] @ r) = take 3 s @ unquote r"
    using s by (subst unquote_u [where r = "if x = CHR 0xA8 then 0x2028 else 0x2029"])
      (auto simp: encode_rune_lit)
  show "utf8_len s = 3"
    using s by (auto simp: utf8_len_def utf8_need_def second_ok_def is_cont_def Let_def)
qed

lemma backslash_ascii: "byte backslash = 92"
  by simp

text \<open>The string round trip.\<close>

lemma unquote_escape: "unquote (escape s) = to_valid s"
proof (induction s rule: escape.induct)
  case (1 s)
  consider "s = []" | "s \<noteq> []" "byte (hd s) < 0x80" | "s \<noteq> []" "\<not> byte (hd s) < 0x80" "utf8_len s = 0"
    | "s \<noteq> []" "\<not> byte (hd s) < 0x80" "utf8_len s \<noteq> 0" "line_sep s"
    | "s \<noteq> []" "\<not> byte (hd s) < 0x80" "utf8_len s \<noteq> 0" "\<not> line_sep s" by blast
  then show ?case
  proof cases
    case 1
    then show ?thesis
      by (simp add: escape.simps [of "[]"] unquote.simps [of "[]"] to_valid.simps [of "[]"])
  next
    case 2
    then obtain c cs where s: "s = c # cs" by (cases s) auto
    with 2 have "utf8_len s = 1" by (simp add: utf8_len_ascii)
    with 2 s "1.IH"(1) show ?thesis
      by (simp add: escape.simps [of "c # cs"] to_valid.simps [of "c # cs"] unquote_escape_ascii)
  next
    case 3
    with "1.IH"(2) show ?thesis
      by (simp add: escape.simps [of s] to_valid.simps [of s] unquote_fffd [simplified])
  next
    case 4
    with "1.IH"(3) show ?thesis
      using unquote_line_sep(1) [OF 4(4), of "escape (drop 3 s)"] unquote_line_sep(2) [OF 4(4)]
      by (simp add: escape.simps [of s] to_valid.simps [of s])
  next
    case 5
    let ?n = "utf8_len s" and ?t = "take (utf8_len s) s @ escape (drop (utf8_len s) s)"
    have e: "escape s = ?t" using 5 by (simp add: escape.simps [of s])
    have len: "utf8_len ?t = ?n" using utf8_len_prefix [OF 5(3)] .
    have "hd ?t = hd s" using 5(1,3) by (cases s) (auto simp: hd_append)
    with 5(2) have "hd ?t \<noteq> backslash" by auto
    with len 5(3) have "unquote ?t = take ?n ?t @ unquote (drop ?n ?t)"
      by (metis unquote_raw)
    with utf8_len_le [of s] e "1.IH"(4) 5 show ?thesis
      by (simp add: to_valid.simps [of s])
  qed
qed

lemma scan_plain:
  "\<lbrakk>\<And>c. c \<in> set a \<Longrightarrow> c \<noteq> quote \<and> c \<noteq> backslash \<and> \<not> byte c < 0x20\<rbrakk> \<Longrightarrow>
   scan_string (a @ r) = map_option (\<lambda>(b, t). (a @ b, t)) (scan_string r)"
  by (induction a; cases "scan_string r") auto

lemma scan_simple:
  "simple_escape e \<Longrightarrow> scan_string (backslash # e # r) = map_option (\<lambda>(b, t). (backslash # e # b, t)) (scan_string r)"
  by simp

lemma scan_u:
  assumes "length h = 4" "list_all (\<lambda>c. hex_val c \<noteq> None) h" "\<And>c. c \<in> set h \<Longrightarrow> c \<noteq> quote \<and> c \<noteq> backslash \<and> \<not> byte c < 0x20"
  shows "scan_string (backslash # CHR ''u'' # h @ r) =
    map_option (\<lambda>(b, t). (backslash # CHR ''u'' # h @ b, t)) (scan_string r)"
  using assms scan_plain [of h r]
  by (cases "scan_string r") (auto simp: is_hex4_def)

lemma scan_escape_ascii:
  assumes "byte c < 0x80"
  shows "scan_string (escape_ascii c @ r) = map_option (\<lambda>(b, t). (escape_ascii c @ b, t)) (scan_string r)"
proof (cases "\<not> html_safe c \<and> c \<noteq> backslash \<and> c \<noteq> quote \<and> c \<notin> {CHR 0x08, CHR 0x0C, CHR 0x0A, CHR 0x0D, CHR 0x09}")
  case True
  have h: "byte c div 16 < 16" "byte c mod 16 < 16"
    using ascii_byte_bound [of c] by (simp_all add: less_mult_imp_div_less)
  let ?h = "[CHR ''0'', CHR ''0'', hex_digit (byte c div 16), hex_digit (byte c mod 16)]"
  have "escape_ascii c = backslash # CHR ''u'' # ?h" using True by (simp add: escape_ascii_def)
  moreover have "scan_string (backslash # CHR ''u'' # ?h @ r) =
      map_option (\<lambda>(b, t). (backslash # CHR ''u'' # ?h @ b, t)) (scan_string r)"
    using h hex_digit_plain by (intro scan_u) auto
  ultimately show ?thesis by simp
next
  case False
  then show ?thesis
    by (auto simp: escape_ascii_def simple_escape_def html_safe_def simp del: scan_string.simps
        simp: scan_simple scan_plain [of "[c]", simplified])
qed

lemma utf8_bytes_high:
  assumes "utf8_len s \<noteq> 0" "\<not> byte (hd s) < 0x80" "c \<in> set (take (utf8_len s) s)"
  shows "0x80 \<le> byte c"
proof -
  obtain a r where s: "s = a # r" using assms(1) by (cases s) (auto simp: utf8_len_def)
  have "\<not> utf8_need a \<le> 1"
    using assms s by (auto simp: utf8_len_def utf8_need_def Let_def split: if_splits)
  with assms(1) s have n: "utf8_len s = utf8_need a" "second_ok a (hd r)" "list_all is_cont (take (utf8_need a - 2) (tl r))"
    "utf8_need a \<le> Suc (length r)"
    by (auto simp: utf8_len_def Let_def split: if_splits)
  obtain b r' where r: "r = b # r'" using n(4) \<open>\<not> utf8_need a \<le> 1\<close> by (cases r) auto
  have "take (utf8_need a) s = a # b # take (utf8_need a - 2) r'"
    using \<open>\<not> utf8_need a \<le> 1\<close> by (cases "utf8_need a"; cases "utf8_need a - 1") (auto simp: s r)
  moreover have "0x80 \<le> byte b" using n(2) r by (auto simp: second_ok_def split: if_splits)
  ultimately show ?thesis
    using assms(2,3) n(1,3) s r by (auto simp: list_all_iff is_cont_def)
qed

text \<open>The scanner finds the end of a marshalled string.\<close>

lemma scan_escape: "scan_string (escape s @ quote # r) = Some (escape s, r)"
proof (induction s rule: escape.induct)
  case (1 s)
  consider "s = []" | "s \<noteq> []" "byte (hd s) < 0x80" | "s \<noteq> []" "\<not> byte (hd s) < 0x80" "utf8_len s = 0"
    | "s \<noteq> []" "\<not> byte (hd s) < 0x80" "utf8_len s \<noteq> 0" "line_sep s"
    | "s \<noteq> []" "\<not> byte (hd s) < 0x80" "utf8_len s \<noteq> 0" "\<not> line_sep s" by blast
  then show ?case
  proof cases
    case 1
    then show ?thesis by (simp add: escape.simps [of "[]"])
  next
    case 2
    with "1.IH"(1) show ?thesis
      by (simp add: escape.simps [of s] scan_escape_ascii del: scan_string.simps)
  next
    case 3
    have "scan_string (backslash # CHR ''u'' # ''fffd'' @ t) =
        map_option (\<lambda>(b, t). (backslash # CHR ''u'' # ''fffd'' @ b, t)) (scan_string t)" for t
      by (rule scan_u) auto
    with 3 "1.IH"(2) show ?thesis
      by (simp add: escape.simps [of s] del: scan_string.simps)
  next
    case 4
    let ?h = "''202'' @ [hex_digit (byte (s ! 2) mod 16)]"
    have "byte (s ! 2) mod 16 < 16" by simp
    with hex_digit_plain have "scan_string (backslash # CHR ''u'' # ?h @ t) =
        map_option (\<lambda>(b, t). (backslash # CHR ''u'' # ?h @ b, t)) (scan_string t)" for t
      by (intro scan_u) auto
    with 4 "1.IH"(3) show ?thesis
      by (simp add: escape.simps [of s] del: scan_string.simps)
  next
    case 5
    have "c \<noteq> quote \<and> c \<noteq> backslash \<and> \<not> byte c < 0x20" if "c \<in> set (take (utf8_len s) s)" for c
      using utf8_bytes_high [OF 5(3,2) that] by auto
    from scan_plain [OF this] 5 "1.IH"(4) show ?thesis
      by (simp add: escape.simps [of s] del: scan_string.simps)
  qed
qed

end
