(* ===== verification/Go_Json.thy ===== *)
theory Go_Json
  imports Go_Json_String Go_Strconv
begin

text \<open>
  \<open>encoding/json\<close> on trees: the compact text \<open>json.Marshal\<close> writes for a tree, and the reader,
  a lexer followed by a stack machine over the tokens, which is the shape of Go's scanner
  (one state for what may come next, one stack entry per open array or object). Objects
  keep the order and the duplicates of their keys.
\<close>

section \<open>Trees and their text\<close>

datatype json =
    JNull
  | JBool bool
  | JNum string
  | JStr string
  | JArr "json list"
  | JObj "(string \<times> json) list"

definition json_quote :: "string \<Rightarrow> string" where
  "json_quote s = quote # escape s @ [quote]"

fun commas :: "string list \<Rightarrow> string" where
  "commas [] = []"
| "commas [t] = t"
| "commas (t # u # ts) = t @ '','' @ commas (u # ts)"

fun print_json :: "json \<Rightarrow> string" where
  "print_json JNull = ''null''"
| "print_json (JBool b) = (if b then ''true'' else ''false'')"
| "print_json (JNum n) = n"
| "print_json (JStr s) = json_quote s"
| "print_json (JArr vs) = ''['' @ commas (map print_json vs) @ '']''"
| "print_json (JObj es) = ''{'' @ commas (map (\<lambda>(k, v). json_quote k @ '':'' @ print_json v) es) @ ''}''"

section \<open>Tokens\<close>

datatype token =
    TLBrace | TRBrace | TLBrack | TRBrack | TColon | TComma
  | TStr string | TNum string | TTrue | TFalse | TNull

definition json_space :: "char \<Rightarrow> bool" where
  "json_space c \<longleftrightarrow> c = CHR '' '' \<or> c = CHR 0x09 \<or> c = CHR 0x0A \<or> c = CHR 0x0D"

definition num_char :: "char \<Rightarrow> bool" where
  "num_char c \<longleftrightarrow> is_digit c \<or> c \<in> set ''+-.eE''"

definition strip_exp :: "string \<Rightarrow> string option" where
  "strip_exp s =
     (if s \<noteq> [] \<and> hd s \<in> set ''eE'' then
        (let t = (if tl s \<noteq> [] \<and> hd (tl s) \<in> set ''+-'' then tl (tl s) else tl s)
         in if t \<noteq> [] \<and> is_digit (hd t) then Some (dropWhile is_digit t) else None)
      else Some s)"

definition strip_frac :: "string \<Rightarrow> string option" where
  "strip_frac s =
     (if s \<noteq> [] \<and> hd s = CHR ''.'' then
        (if tl s \<noteq> [] \<and> is_digit (hd (tl s)) then Some (dropWhile is_digit (tl s)) else None)
      else Some s)"

definition strip_int :: "string \<Rightarrow> string option" where
  "strip_int s =
     (let t = (if s \<noteq> [] \<and> hd s = CHR ''-'' then tl s else s)
      in if t = [] \<or> \<not> is_digit (hd t) then None
         else if hd t = CHR ''0'' then Some (tl t) else Some (dropWhile is_digit t))"

text \<open>The number literals of JSON.\<close>

definition valid_number :: "string \<Rightarrow> bool" where
  "valid_number s \<longleftrightarrow> s \<noteq> [] \<and> list_all num_char s \<and>
     Option.bind (Option.bind (strip_int s) strip_frac) strip_exp = Some []"

lemma scan_string_shorter: "scan_string s = Some (b, t) \<Longrightarrow> length t < length s"
proof (induction s arbitrary: b t rule: scan_string.induct)
  case (2 c cs)
  show ?case
  proof (cases "c = backslash \<and> \<not> byte c < 0x20 \<and> c \<noteq> quote")
    case True
    with "2.prems" obtain e r b' where "cs = e # r" "scan_string r = Some (b', t)"
      by (auto split: list.splits if_splits)
    with "2.IH"(1) [of e r b' t] "2.prems" True show ?thesis by (fastforce split: if_splits)
  next
    case False
    with 2 show ?thesis by (fastforce split: if_splits)
  qed
qed simp

function tokenize :: "string \<Rightarrow> token list option" where
  "tokenize s =
     (if s = [] then Some []
      else if json_space (hd s) then tokenize (tl s)
      else if hd s = CHR ''{'' then map_option ((#) TLBrace) (tokenize (tl s))
      else if hd s = CHR ''}'' then map_option ((#) TRBrace) (tokenize (tl s))
      else if hd s = CHR ''['' then map_option ((#) TLBrack) (tokenize (tl s))
      else if hd s = CHR '']'' then map_option ((#) TRBrack) (tokenize (tl s))
      else if hd s = CHR '':'' then map_option ((#) TColon) (tokenize (tl s))
      else if hd s = CHR '','' then map_option ((#) TComma) (tokenize (tl s))
      else if hd s = quote then
        (case scan_string (tl s) of
           None \<Rightarrow> None
         | Some (b, t) \<Rightarrow> map_option ((#) (TStr (unquote b))) (tokenize t))
      else if num_char (hd s) then
        (if valid_number (takeWhile num_char s)
         then map_option ((#) (TNum (takeWhile num_char s))) (tokenize (dropWhile num_char s)) else None)
      else if take 4 s = ''true'' then map_option ((#) TTrue) (tokenize (drop 4 s))
      else if take 5 s = ''false'' then map_option ((#) TFalse) (tokenize (drop 5 s))
      else if take 4 s = ''null'' then map_option ((#) TNull) (tokenize (drop 4 s))
      else None)"
  by pat_completeness auto
termination
proof (relation "measure length")
  show "(t, s) \<in> measure length" if "s \<noteq> []" "scan_string (tl s) = Some x" "(b, t) = x" for s x b t
    using that scan_string_shorter [of "tl s" b t] by (cases s) auto
  show "(dropWhile num_char s, s) \<in> measure length" if "s \<noteq> []" "num_char (hd s)" for s
    using that length_dropWhile_le [of num_char "tl s"] by (cases s) auto
qed auto

declare tokenize.simps [simp del]

section \<open>The parser\<close>

text \<open>Open containers with what they hold so far, and what may come next.\<close>

datatype frame = FArr "json list" | FObj "(string \<times> json) list" string

datatype mode = MValue | MFirst | MKeyOrEnd | MKey | MColon | MComma | MEnd json

fun complete :: "json \<Rightarrow> frame list \<Rightarrow> mode \<times> frame list" where
  "complete v [] = (MEnd v, [])"
| "complete v (FArr acc # st) = (MComma, FArr (acc @ [v]) # st)"
| "complete v (FObj acc k # st) = (MComma, FObj (acc @ [(k, v)]) k # st)"

definition maxNestingDepth :: nat where "maxNestingDepth = 10000"

definition push_frame :: "mode \<Rightarrow> frame \<Rightarrow> frame list \<Rightarrow> (mode \<times> frame list) option" where
  "push_frame m f st = (if Suc (length st) \<le> maxNestingDepth then Some (m, f # st) else None)"

fun begin_value :: "token \<Rightarrow> frame list \<Rightarrow> (mode \<times> frame list) option" where
  "begin_value TNull st = Some (complete JNull st)"
| "begin_value TTrue st = Some (complete (JBool True) st)"
| "begin_value TFalse st = Some (complete (JBool False) st)"
| "begin_value (TNum n) st = Some (complete (JNum n) st)"
| "begin_value (TStr s) st = Some (complete (JStr s) st)"
| "begin_value TLBrack st = push_frame MFirst (FArr []) st"
| "begin_value TLBrace st = push_frame MKeyOrEnd (FObj [] []) st"
| "begin_value _ st = None"

fun read_key :: "token \<Rightarrow> frame list \<Rightarrow> (mode \<times> frame list) option" where
  "read_key (TStr k) (FObj acc _ # st) = Some (MColon, FObj acc k # st)"
| "read_key _ _ = None"

fun pstep :: "token \<Rightarrow> mode \<times> frame list \<Rightarrow> (mode \<times> frame list) option" where
  "pstep t (MValue, st) = begin_value t st"
| "pstep t (MFirst, st) =
     (case (t, st) of (TRBrack, FArr acc # st') \<Rightarrow> Some (complete (JArr acc) st') | _ \<Rightarrow> begin_value t st)"
| "pstep t (MKeyOrEnd, st) =
     (case (t, st) of (TRBrace, FObj acc _ # st') \<Rightarrow> Some (complete (JObj acc) st') | _ \<Rightarrow> read_key t st)"
| "pstep t (MKey, st) = read_key t st"
| "pstep t (MColon, st) = (if t = TColon then Some (MValue, st) else None)"
| "pstep t (MComma, st) =
     (case (t, st) of
        (TComma, FArr acc # st') \<Rightarrow> Some (MValue, st)
      | (TRBrack, FArr acc # st') \<Rightarrow> Some (complete (JArr acc) st')
      | (TComma, FObj acc k # st') \<Rightarrow> Some (MKey, st)
      | (TRBrace, FObj acc k # st') \<Rightarrow> Some (complete (JObj acc) st')
      | _ \<Rightarrow> None)"
| "pstep t (MEnd v, st) = None"

fun prun :: "token list \<Rightarrow> mode \<times> frame list \<Rightarrow> (mode \<times> frame list) option" where
  "prun [] c = Some c"
| "prun (t # ts) c = Option.bind (pstep t c) (prun ts)"

definition parse_json :: "string \<Rightarrow> json option" where
  "parse_json s =
     (case Option.bind (tokenize s) (\<lambda>ts. prun ts (MValue, [])) of
        Some (MEnd v, _) \<Rightarrow> Some v | _ \<Rightarrow> None)"

section \<open>Reading back what was printed\<close>

text \<open>Numbers well-formed, nesting within the limit; strings as they come back.\<close>

fun wf_json :: "json \<Rightarrow> bool" where
  "wf_json (JNum n) = valid_number n"
| "wf_json (JArr vs) = (\<forall>v \<in> set vs. wf_json v)"
| "wf_json (JObj es) = (\<forall>(k, v) \<in> set es. wf_json v)"
| "wf_json v = True"

fun jdepth :: "json \<Rightarrow> nat" where
  "jdepth (JArr vs) = Suc (foldr max (map jdepth vs) 0)"
| "jdepth (JObj es) = Suc (foldr max (map (\<lambda>(k, v). jdepth v) es) 0)"
| "jdepth v = 0"

fun jvalid :: "json \<Rightarrow> json" where
  "jvalid (JStr s) = JStr (to_valid s)"
| "jvalid (JArr vs) = JArr (map jvalid vs)"
| "jvalid (JObj es) = JObj (map (\<lambda>(k, v). (to_valid k, jvalid v)) es)"
| "jvalid v = v"

fun tcommas :: "token list list \<Rightarrow> token list" where
  "tcommas [] = []"
| "tcommas [t] = t"
| "tcommas (t # u # ts) = t @ TComma # tcommas (u # ts)"

fun toks :: "json \<Rightarrow> token list" where
  "toks JNull = [TNull]"
| "toks (JBool b) = [if b then TTrue else TFalse]"
| "toks (JNum n) = [TNum n]"
| "toks (JStr s) = [TStr (to_valid s)]"
| "toks (JArr vs) = TLBrack # tcommas (map toks vs) @ [TRBrack]"
| "toks (JObj es) = TLBrace # tcommas (map (\<lambda>(k, v). TStr (to_valid k) # TColon # toks v) es) @ [TRBrace]"

lemma foldr_max_le: "foldr max (map f xs) 0 \<le> (n::nat) \<longleftrightarrow> (\<forall>x \<in> set xs. f x \<le> n)"
  by (induction xs) auto

lemma digit_num_char [simp]: "is_digit c \<Longrightarrow> num_char c"
  by (simp add: num_char_def)

text \<open>The lexer on one token and the rest of the input.\<close>

lemma lex_punct:
  "tokenize (CHR ''{'' # r) = map_option ((#) TLBrace) (tokenize r)" "tokenize (CHR ''}'' # r) = map_option ((#) TRBrace) (tokenize r)"
  "tokenize (CHR ''['' # r) = map_option ((#) TLBrack) (tokenize r)" "tokenize (CHR '']'' # r) = map_option ((#) TRBrack) (tokenize r)"
  "tokenize (CHR '':'' # r) = map_option ((#) TColon) (tokenize r)" "tokenize (CHR '','' # r) = map_option ((#) TComma) (tokenize r)"
  by (subst tokenize.simps, simp add: json_space_def)+

lemma lex_quote: "tokenize (json_quote s @ r) = map_option ((#) (TStr (to_valid s))) (tokenize r)"
  using scan_escape [of s r] unquote_escape [of s]
  by (subst tokenize.simps) (simp add: json_quote_def json_space_def)

lemma lex_words:
  "tokenize (''true'' @ r) = map_option ((#) TTrue) (tokenize r)" "tokenize (''false'' @ r) = map_option ((#) TFalse) (tokenize r)"
  "tokenize (''null'' @ r) = map_option ((#) TNull) (tokenize r)"
  by (subst tokenize.simps, simp add: json_space_def num_char_def is_digit_def)+

definition ends_num :: "string \<Rightarrow> bool" where
  "ends_num r \<longleftrightarrow> r = [] \<or> \<not> num_char (hd r)"

lemma num_char_neq:
  "num_char c \<Longrightarrow> \<not> json_space c \<and> c \<notin> set ''{}[]:,'' \<and> c \<noteq> quote"
  by (auto simp: num_char_def json_space_def is_digit_def)

lemma lex_num:
  assumes "valid_number n" "ends_num r"
  shows "tokenize (n @ r) = map_option ((#) (TNum n)) (tokenize r)"
proof -
  have n: "n \<noteq> []" "list_all num_char n" using assms(1) by (auto simp: valid_number_def)
  have "takeWhile num_char (n @ r) = n" "dropWhile num_char (n @ r) = r"
    using n(2) assms(2) by (auto simp: list_all_iff ends_num_def takeWhile_append dropWhile_append
        takeWhile_eq_Nil_iff dropWhile_eq_self_iff)
  moreover have "num_char (hd (n @ r))" using n by (cases n) auto
  ultimately show ?thesis
    using assms(1) n(1) num_char_neq [of "hd (n @ r)"] by (subst tokenize.simps) auto
qed

lemma ends_num_punct [simp]: "c \<in> set ''}],:'' \<Longrightarrow> ends_num (c # r)"
  by (auto simp: ends_num_def num_char_def is_digit_def)

lemma map_option_app: "map_option f (map_option g x) = map_option (\<lambda>y. f (g y)) x"
  by (simp add: option.map_comp comp_def)

lemma map_option_Nil: "map_option ((@) []) x = x"
  by (cases x) auto

lemma append_single: "(@) [x] = (#) x"
  by (rule ext) simp

lemma lex_commas:
  assumes "\<And>x r. x \<in> set xs \<Longrightarrow> ends_num r \<Longrightarrow> tokenize (f x @ r) = map_option ((@) (g x)) (tokenize r)" "ends_num r"
  shows "tokenize (commas (map f xs) @ r) = map_option ((@) (tcommas (map g xs))) (tokenize r)"
  using assms
proof (induction xs rule: induct_list012)
  case (3 x y zs)
  have "tokenize (commas (map f (y # zs)) @ r) = map_option ((@) (tcommas (map g (y # zs)))) (tokenize r)"
    using 3 by auto
  moreover have "tokenize (f x @ CHR '','' # t) = map_option ((@) (g x)) (tokenize (CHR '','' # t))" for t
    using 3 by auto
  ultimately show ?case by (simp add: lex_punct map_option_app)
qed (simp_all add: map_option_Nil)

lemma lex_print: "wf_json v \<Longrightarrow> ends_num r \<Longrightarrow> tokenize (print_json v @ r) = map_option ((@) (toks v)) (tokenize r)"
proof (induction v arbitrary: r rule: print_json.induct)
  case (5 vs)
  have "tokenize (commas (map print_json vs) @ CHR '']'' # r) =
      map_option ((@) (tcommas (map toks vs))) (tokenize (CHR '']'' # r))"
    using 5 by (intro lex_commas) auto
  then show ?case by (simp add: lex_punct map_option_app)
next
  case (6 es)
  have "tokenize (commas (map (\<lambda>(k, v). json_quote k @ '':'' @ print_json v) es) @ CHR ''}'' # r) =
      map_option ((@) (tcommas (map (\<lambda>(k, v). TStr (to_valid k) # TColon # toks v) es))) (tokenize (CHR ''}'' # r))"
  proof (rule lex_commas)
    fix x t assume x: "x \<in> set es" "ends_num t"
    obtain k v where kv: "x = (k, v)" by fastforce
    with 6 x have "tokenize (print_json v @ t) = map_option ((@) (toks v)) (tokenize t)" by fastforce
    with kv show "tokenize ((case x of (k, v) \<Rightarrow> json_quote k @ '':'' @ print_json v) @ t) =
        map_option ((@) (case x of (k, v) \<Rightarrow> TStr (to_valid k) # TColon # toks v)) (tokenize t)"
      by (cases "tokenize t") (auto simp: lex_quote lex_punct map_option_app)
  qed simp
  then show ?case by (simp add: lex_punct map_option_app)
qed (use lex_words lex_num lex_quote in \<open>auto simp: append_single\<close>)

text \<open>The machine reads the tokens of a tree as one value.\<close>

lemma toks_first: "\<exists>t ts. toks v = t # ts \<and> t \<noteq> TRBrack"
  by (cases v) auto

lemma prun_append: "prun (ts @ us) c = Option.bind (prun ts c) (prun us)"
  by (induction ts arbitrary: c) (auto split: bind_splits)

lemma prun_toks_first:
  "prun (toks v) (MFirst, st) = prun (toks v) (MValue, st)"
proof -
  obtain t ts where "toks v = t # ts" "t \<noteq> TRBrack" using toks_first by blast
  then show ?thesis by (auto split: token.splits list.splits frame.splits)
qed

text \<open>A list of elements, each of which takes the machine from \<open>m\<close> to the next comma.\<close>

lemma prun_commas:
  assumes "\<And>x acc c. x \<in> set xs \<Longrightarrow> R acc c \<Longrightarrow> \<exists>c'. prun (g x) (m, c) = Some (MComma, c') \<and> R (acc @ [h x]) c'"
    and "\<And>acc c. R acc c \<Longrightarrow> pstep TComma (MComma, c) = Some (m', c)"
    and "\<And>x acc c. x \<in> set xs \<Longrightarrow> R acc c \<Longrightarrow> prun (g x) (m', c) = prun (g x) (m, c)"
    and "xs \<noteq> []" "R acc c"
  shows "\<exists>c'. prun (tcommas (map g xs)) (m, c) = Some (MComma, c') \<and> R (acc @ map h xs) c'"
  using assms
proof (induction xs arbitrary: acc c rule: induct_list012)
  case (2 x)
  then show ?case by simp
next
  case (3 x y zs)
  obtain c1 where c1: "prun (g x) (m, c) = Some (MComma, c1)" "R (acc @ [h x]) c1"
    using 3 by (metis list.set_intros(1))
  have "\<exists>c'. prun (tcommas (map g (y # zs))) (m, c1) = Some (MComma, c') \<and> R ((acc @ [h x]) @ map h (y # zs)) c'"
    using 3 c1(2) by (intro "3.IH"(2)) auto
  then obtain c2 where c2: "prun (tcommas (map g (y # zs))) (m, c1) = Some (MComma, c2)"
    "R (acc @ map h (x # y # zs)) c2" by auto
  have "prun (tcommas (map g (y # zs))) (m', c1) = prun (tcommas (map g (y # zs))) (m, c1)"
    using "3.prems"(3) [of y, OF _ c1(2)] by (cases zs) (simp_all add: prun_append)
  with c1 c2 "3.prems"(2) show ?case by (simp add: prun_append)
qed simp

lemma prun_toks:
  "length st + jdepth v \<le> maxNestingDepth \<Longrightarrow> prun (toks v) (MValue, st) = Some (complete (jvalid v) st)"
proof (induction v arbitrary: st rule: jvalid.induct)
  case (2 vs)
  have d: "Suc (length st) + jdepth v \<le> maxNestingDepth" if "v \<in> set vs" for v
    using 2(2) that foldr_max_le [of jdepth vs "foldr max (map jdepth vs) 0"] by fastforce
  have "Suc (length st) \<le> maxNestingDepth" using 2(2) by simp
  show ?case
  proof (cases "vs = []")
    case False
    have "\<exists>c'. prun (tcommas (map toks vs)) (MFirst, FArr [] # st) = Some (MComma, c') \<and> c' = FArr ([] @ map jvalid vs) # st"
      using False 2(1) d
      by (intro prun_commas [where m' = MValue and R = "\<lambda>acc c. c = FArr acc # st"])
        (auto simp: prun_toks_first)
    with \<open>Suc (length st) \<le> maxNestingDepth\<close> show ?thesis by (auto simp: prun_append push_frame_def)
  qed (use \<open>Suc (length st) \<le> maxNestingDepth\<close> in \<open>simp add: push_frame_def\<close>)
next
  case (3 es)
  have d: "Suc (length st) + jdepth v \<le> maxNestingDepth" if "(k, v) \<in> set es" for k v
    using 3(2) that foldr_max_le [of "\<lambda>(k, v). jdepth v" es "foldr max (map (\<lambda>(k, v). jdepth v) es) 0"] by fastforce
  have "Suc (length st) \<le> maxNestingDepth" using 3(2) by simp
  show ?case
  proof (cases "es = []")
    case False
    have "\<exists>c'. prun (tcommas (map (\<lambda>(k, v). TStr (to_valid k) # TColon # toks v) es)) (MKeyOrEnd, FObj [] [] # st) =
        Some (MComma, c') \<and> (\<exists>k. c' = FObj ([] @ map (\<lambda>(k, v). (to_valid k, jvalid v)) es) k # st)"
      using False 3(1) d
      by (intro prun_commas [where m' = MKey and R = "\<lambda>acc c. \<exists>k. c = FObj acc k # st"]) fastforce+
    with \<open>Suc (length st) \<le> maxNestingDepth\<close> show ?thesis by (auto simp: prun_append push_frame_def)
  qed (use \<open>Suc (length st) \<le> maxNestingDepth\<close> in \<open>simp add: push_frame_def\<close>)
qed auto

text \<open>The round trip of a tree through its text.\<close>

lemma parse_print:
  assumes "wf_json v" "jdepth v \<le> maxNestingDepth"
  shows "parse_json (print_json v) = Some (jvalid v)"
proof -
  have "tokenize (print_json v) = Some (toks v)"
    using lex_print [OF assms(1), of "[]"] by (simp add: ends_num_def tokenize.simps [of "[]"])
  with prun_toks [of "[]" v] assms(2) show ?thesis by (simp add: parse_json_def)
qed

end
