(* ===== verification/Go_Json_Values.thy ===== *)
theory Go_Json_Values
  imports Go_Json Php_Spec
begin

text \<open>
  \<open>encoding/json\<close> between trees and Go values: the text of a \<open>float64\<close>, the tree
  \<open>json.Marshal\<close> writes for an \<open>any\<close>, and the \<open>any\<close> that \<open>json.Unmarshal\<close> builds from a
  tree. Slices and maps inside an \<open>any\<close> are non-nil.
\<close>

section \<open>Numbers\<close>

text \<open>The constants \<open>1e-6\<close> and \<open>1e21\<close> between which a float is written positionally.\<close>

definition f64_1em6 :: float64 where "f64_1em6 = F64 False 1003 218766855499149"
definition f64_1e21 :: float64 where "f64_1e21 = F64 False 1092 3125794903879504"

definition positional :: "float64 \<Rightarrow> bool" where
  "positional f \<longleftrightarrow> funits f = 0 \<or> funits f64_1em6 \<le> funits f \<and> funits f < funits f64_1e21"

definition fmt_scientific :: "nat \<Rightarrow> int \<Rightarrow> string" where
  "fmt_scientific c t =
     (let ds = FormatUint c; x = t + int (length ds) - 1
      in [hd ds] @ (if tl ds = [] then [] else CHR ''.'' # tl ds) @ ''e'' @
         (if x < 0 then ''-'' else ''+'') @ FormatUint (nat \<bar>x\<bar>))"

text \<open>\<open>floatEncoder\<close>: NaN and the infinities are errors.\<close>

definition json_float :: "float64 \<Rightarrow> string option" where
  "json_float f =
     (if \<not> is_finite f then None
      else if positional f then Some (FormatFloat f)
      else Some ((if fsign f then ''-'' else []) @ (case shortest f of (c, t) \<Rightarrow> fmt_scientific c t)))"

text \<open>\<open>json.Number.Int64\<close> with its error dropped: out of range gives the nearest \<open>int64\<close>.\<close>

definition number_Int64 :: "string \<Rightarrow> int" where
  "number_Int64 s =
     (case ParseInt s of
        Inr n \<Rightarrow> n
      | Inl ErrSyntax \<Rightarrow> 0
      | Inl ErrRange \<Rightarrow> (if hd s = CHR ''-'' then min_int64 else max_int64))"

section \<open>Values to trees\<close>

text \<open>
  \<open>oth\<close> is the encoding of the values of the remaining types, which \<open>encoding/json\<close>
  reaches by reflection (structs behind pointers, \<open>float32\<close>, byte slices and so on).
\<close>

definition json_int :: "int \<Rightarrow> json" where "json_int n = JNum (FormatInt n)"

fun json_of_any :: "(any \<Rightarrow> json option) \<Rightarrow> any \<Rightarrow> json option" where
  "json_of_any oth VNil = Some JNull"
| "json_of_any oth (VBool b) = Some (JBool b)"
| "json_of_any oth (VInt n) = Some (json_int (sint n))"
| "json_of_any oth (VInt8 n) = Some (json_int (sint n))"
| "json_of_any oth (VInt16 n) = Some (json_int (sint n))"
| "json_of_any oth (VInt32 n) = Some (json_int (sint n))"
| "json_of_any oth (VInt64 n) = Some (json_int (sint n))"
| "json_of_any oth (VUint n) = Some (json_int (uint n))"
| "json_of_any oth (VUint8 n) = Some (json_int (uint n))"
| "json_of_any oth (VUint16 n) = Some (json_int (uint n))"
| "json_of_any oth (VUint32 n) = Some (json_int (uint n))"
| "json_of_any oth (VUint64 n) = Some (json_int (uint n))"
| "json_of_any oth (VFloat64 f) = map_option JNum (json_float f)"
| "json_of_any oth (VString s) = Some (JStr s)"
| "json_of_any oth (VNumber n) = (if n = [] then Some (JNum ''0'') else if valid_number n then Some (JNum n) else None)"
| "json_of_any oth (VSlice vs) = map_option JArr (those (map (json_of_any oth) vs))"
| "json_of_any oth (VStrings ss) = Some (JArr (map JStr ss))"
| "json_of_any oth (VInts ns) = Some (JArr (map (\<lambda>n. json_int (sint n)) ns))"
| "json_of_any oth (VMap m) =
     map_option (\<lambda>es. JObj (sorted_entries es)) (those (map (\<lambda>(k, v). map_option (Pair k) (json_of_any oth v)) m))"
| "json_of_any oth v = oth v"

section \<open>Trees to values\<close>

text \<open>Numbers become \<open>float64\<close>; of equal keys the last one stays.\<close>

fun any_of_json :: "json \<Rightarrow> any option" where
  "any_of_json JNull = Some VNil"
| "any_of_json (JBool b) = Some (VBool b)"
| "any_of_json (JNum n) = (case ParseFloat n of Inr f \<Rightarrow> Some (VFloat64 f) | Inl _ \<Rightarrow> None)"
| "any_of_json (JStr s) = Some (VString s)"
| "any_of_json (JArr vs) = map_option VSlice (those (map any_of_json vs))"
| "any_of_json (JObj es) =
     map_option (\<lambda>m. VMap (fold (\<lambda>(k, v). AList.update k v) m []))
       (those (map (\<lambda>(k, v). map_option (Pair k) (any_of_json v)) es))"

text \<open>\<open>json.Unmarshal\<close> into a nil \<open>map[string]any\<close>; JSON's null leaves it nil (\<open>Some None\<close>).\<close>

definition unmarshal_map :: "string \<Rightarrow> any gomap option option" where
  "unmarshal_map s =
     (case parse_json s of
        Some JNull \<Rightarrow> Some None
      | Some (JObj es) \<Rightarrow> (case any_of_json (JObj es) of Some (VMap m) \<Rightarrow> Some (Some m) | _ \<Rightarrow> None)
      | _ \<Rightarrow> None)"

section \<open>Number texts are JSON\<close>

text \<open>The two constants: the second is exact, the first within half a unit in the last place.\<close>

lemma f64_1e21_exact: "funits f64_1e21 = 10 ^ 21 * 2 ^ unit_exp"
proof -
  have "(2::nat) ^ 1091 = 2 ^ 17 * 2 ^ 1074" by (simp flip: power_add)
  moreover have "(2 ^ 52 + 3125794903879504) * 2 ^ 17 = (10::nat) ^ 21" by simp
  ultimately have "(2 ^ 52 + 3125794903879504) * 2 ^ 1091 = (10::nat) ^ 21 * 2 ^ 1074"
    by (simp only: mult.assoc [symmetric])
  then show ?thesis by (simp add: funits_def f64_1e21_def unit_exp_def del: power_numeral)
qed

lemma f64_1em6_nearest:
  "funits f64_1em6 = (2 ^ 52 + ffrac f64_1em6) * 2 ^ 1002" "unit_exp = 72 + 1002"
  "2 * \<bar>(2 ^ 52 + int (ffrac f64_1em6)) * 10 ^ 6 - 2 ^ 72\<bar> < 10 ^ 6"
proof -
  show "2 * \<bar>(2 ^ 52 + int (ffrac f64_1em6)) * 10 ^ 6 - 2 ^ 72\<bar> < 10 ^ 6" by (simp add: f64_1em6_def)
qed (simp_all add: funits_def f64_1em6_def unit_exp_def del: power_numeral)

lemma char_of_lit: "char_of (48::nat) = CHR ''0''"
  by code_simp

lemma hd_FormatUint_nonzero: "0 < n \<Longrightarrow> hd (FormatUint n) \<noteq> CHR ''0''"
proof (induction n rule: FormatUint.induct)
  case (1 n)
  show ?case
  proof (cases "n < 10")
    case True
    have "digit_char n \<noteq> CHR ''0''"
    proof
      assume "digit_char n = CHR ''0''"
      then have "digit_val (digit_char n) = digit_val (CHR ''0'')" by simp
      with True "1.prems" show False by (simp add: digit_val_def [of "CHR ''0''"])
    qed
    with True show ?thesis by (simp add: FormatUint.simps [of n])
  next
    case False
    then have "0 < n div 10" by simp
    with 1 False show ?thesis by (simp add: FormatUint.simps [of n])
  qed
qed

text \<open>Digits without a leading zero, then perhaps a point and digits.\<close>

definition json_decimal :: "string \<Rightarrow> bool" where
  "json_decimal s \<longleftrightarrow>
     (\<exists>a b. all_digits a \<and> a \<noteq> [] \<and> (hd a = CHR ''0'' \<longrightarrow> tl a = []) \<and> all_digits b \<and>
        (s = a \<and> b = [] \<or> b \<noteq> [] \<and> s = a @ CHR ''.'' # b))"

lemma dropWhile_digits: "all_digits a \<Longrightarrow> dropWhile is_digit (a @ r) = dropWhile is_digit r"
  by (induction a) auto

lemma valid_number_decimal:
  assumes "json_decimal s"
  shows "valid_number ((if neg then ''-'' else []) @ s)"
proof -
  from assms obtain a b where ab: "all_digits a" "a \<noteq> []" "hd a = CHR ''0'' \<longrightarrow> tl a = []" "all_digits b"
    "s = a \<and> b = [] \<or> b \<noteq> [] \<and> s = a @ CHR ''.'' # b"
    by (auto simp: json_decimal_def)
  obtain c cs where a: "a = c # cs" "is_digit c" "all_digits cs" using ab(1,2) by (cases a) auto
  have dig: "c \<noteq> CHR ''-''" using a(2) by (auto simp: is_digit_def)
  have int: "strip_int ((if neg then ''-'' else []) @ a @ r) = Some r" if "r = [] \<or> hd r = CHR ''.''" for r
  proof -
    have "dropWhile is_digit r = r" using that by (cases r) (auto simp: is_digit_def)
    then show ?thesis
      using a dig ab(3) dropWhile_digits [OF a(3), of r] by (auto simp: strip_int_def Let_def)
  qed
  have frac: "strip_frac (CHR ''.'' # b) = Some []" if "b \<noteq> []"
    using that ab(4) dropWhile_digits [of "tl b" "[]"] by (cases b) (auto simp: strip_frac_def)
  have chars: "list_all num_char ((if neg then ''-'' else []) @ s)"
    using ab by (auto simp: list_all_iff all_digits_def num_char_def)
  show ?thesis
    using chars int [of "[]"] int [of "CHR ''.'' # b"] frac ab(5)
    by (auto simp: valid_number_def strip_exp_def strip_frac_def a)
qed

lemma json_decimal_FormatUint: "json_decimal (FormatUint n)"
proof -
  have "hd (FormatUint n) = CHR ''0'' \<longrightarrow> tl (FormatUint n) = []"
    using hd_FormatUint_nonzero [of n] by (cases "n = 0") (auto simp: FormatUint.simps [of 0])
  then show ?thesis
    unfolding json_decimal_def by (intro exI [of _ "FormatUint n"] exI [of _ "[]"]) auto
qed

lemma valid_number_FormatInt [simp]: "valid_number (FormatInt n)"
  using valid_number_decimal [OF json_decimal_FormatUint, of True "nat (- n)"]
    valid_number_decimal [OF json_decimal_FormatUint, of False "nat n"]
  by (simp add: FormatInt_def)

lemma json_decimal_fmt:
  assumes "0 < c"
  shows "json_decimal (fmt_decimal c t)"
proof -
  define ds k where "ds = FormatUint c" and "k = nat (- t)"
  have ds: "all_digits ds" "ds \<noteq> []" "hd ds \<noteq> CHR ''0''"
    using hd_FormatUint_nonzero [OF assms] by (simp_all add: ds_def)
  have eq: "fmt_decimal c t = (if 0 \<le> t then ds @ replicate (nat t) (CHR ''0'')
      else if k < length ds then take (length ds - k) ds @ CHR ''.'' # drop (length ds - k) ds
      else CHR ''0'' # CHR ''.'' # replicate (k - length ds) (CHR ''0'') @ ds)"
    by (simp add: fmt_decimal_def Let_def ds_def k_def)
  consider "0 \<le> t" | "t < 0" "k < length ds" | "t < 0" "\<not> k < length ds" by linarith
  then show ?thesis
  proof cases
    case 1
    then show ?thesis unfolding json_decimal_def eq
      using ds by (intro exI [of _ "ds @ replicate (nat t) (CHR ''0'')"] exI [of _ "[]"]) auto
  next
    case 2
    then have "hd (take (length ds - k) ds) = hd ds" "0 < k" by (simp_all add: k_def hd_take)
    with 2 show ?thesis unfolding json_decimal_def eq
      using ds by (intro exI [of _ "take (length ds - k) ds"] exI [of _ "drop (length ds - k) ds"])
        (auto simp: all_digits_take_drop)
  next
    case 3
    then show ?thesis unfolding json_decimal_def eq
      using ds by (intro exI [of _ "''0''"] exI [of _ "replicate (k - length ds) (CHR ''0'') @ ds"])
        (auto simp: is_digit_def)
  qed
qed

lemma round_f64_zero: "round_f64 s 0 d = Some (F64 s 0 0)"
  by (simp add: round_f64_def round_div_def Let_def bitlen.simps [of 0]) auto

lemma valid_number_FormatFloat:
  assumes "wf_float f" "is_finite f"
  shows "valid_number (FormatFloat f)"
proof (cases "funits f = 0")
  case True
  have "json_decimal ''0''" using json_decimal_FormatUint [of 0] by (simp add: FormatUint.simps [of 0] digit_char_def char_of_lit)
  from valid_number_decimal [OF this, of "fsign f"] show ?thesis
    using finite_not_special [OF assms(2)] True by (simp add: FormatFloat_def)
next
  case False
  obtain c t where ct: "shortest f = (c, t)" by fastforce
  have "rounds_to f (c, t)" using shortest_rounds [OF assms] by (simp add: ct)
  then have "0 < c" using False by (cases "c = 0") (cases f, auto simp: rounds_to_def round_f64_zero funits_def)
  from valid_number_decimal [OF json_decimal_fmt [OF this], of "fsign f" t] show ?thesis
    using finite_not_special [OF assms(2)] False ct by (simp add: FormatFloat_def)
qed

section \<open>Values that come back\<close>

text \<open>
  The values JSON gives back as they were: finite floats written positionally, valid
  UTF-8, maps listed by key.
\<close>

fun settled :: "any \<Rightarrow> bool" where
  "settled VNil = True"
| "settled (VBool b) = True"
| "settled (VFloat64 f) = (wf_float f \<and> is_finite f \<and> positional f)"
| "settled (VString s) = valid_utf8 s"
| "settled (VSlice vs) = list_all settled vs"
| "settled (VMap m) = (sorted (map fst m) \<and> distinct (map fst m) \<and> list_all (\<lambda>(k, v). valid_utf8 k \<and> settled v) m)"
| "settled v = False"

fun adepth :: "any \<Rightarrow> nat" where
  "adepth (VSlice vs) = Suc (foldr max (map adepth vs) 0)"
| "adepth (VMap m) = Suc (foldr max (map (\<lambda>(k, v). adepth v) m) 0)"
| "adepth v = 0"

lemma fold_update_fresh:
  "distinct (map fst m) \<Longrightarrow> fst ` set m \<inter> fst ` set acc = {} \<Longrightarrow>
   fold (\<lambda>(k, v). AList.update k v) m acc = acc @ m"
proof (induction m arbitrary: acc)
  case (Cons x m)
  obtain k v where x: "x = (k, v)" by fastforce
  have "AList.update k v acc = acc @ [(k, v)]" using Cons.prems x by (intro update_fresh) auto
  with Cons x show ?case by auto
qed simp

lemma those_map_Some:
  assumes "\<And>x. x \<in> set xs \<Longrightarrow> f x = Some (g x)"
  shows "those (map f xs) = Some (map g xs)"
  using assms by (induction xs) auto

lemma valid_utf8_id: "valid_utf8 s \<Longrightarrow> to_valid s = s"
  by (simp add: valid_utf8_def)

text \<open>What the round trip says of one value with its tree.\<close>

definition comes_back :: "(any \<Rightarrow> json option) \<Rightarrow> any \<Rightarrow> json \<Rightarrow> bool" where
  "comes_back oth v j \<longleftrightarrow>
     json_of_any oth v = Some j \<and> wf_json j \<and> any_of_json (jvalid j) = Some v \<and> jdepth j = adepth v"

lemma settled_comes_back: "settled v \<Longrightarrow> \<exists>j. comes_back oth v j"
proof (induction v rule: settled.induct)
  case (3 f)
  then show ?case
    using valid_number_FormatFloat [of f] ParseFloat_FormatFloat [of f]
    by (simp add: comes_back_def json_float_def)
next
  case (5 vs)
  then have "\<forall>v \<in> set vs. \<exists>j. comes_back oth v j" by (auto simp: list_all_iff)
  then obtain g where g: "\<And>v. v \<in> set vs \<Longrightarrow> comes_back oth v (g v)" by metis
  have "those (map (json_of_any oth) vs) = Some (map g vs)"
    using g by (intro those_map_Some) (simp add: comes_back_def)
  moreover have "those (map any_of_json (map jvalid (map g vs))) = Some (map id vs)"
    using g unfolding map_map by (intro those_map_Some) (simp add: comes_back_def)
  moreover have "jdepth (JArr (map g vs)) = adepth (VSlice vs)"
  proof -
    have "map jdepth (map g vs) = map adepth vs" using g by (simp add: comes_back_def)
    then show ?thesis by (simp del: map_map map_eq_conv)
  qed
  ultimately show ?case
    using g by (intro exI [of _ "JArr (map g vs)"]) (simp add: comes_back_def del: jdepth.simps adepth.simps)
next
  case (6 m)
  then have "\<forall>x \<in> set m. \<exists>j. comes_back oth (snd x) j" by (fastforce simp: list_all_iff)
  then obtain g where g: "\<And>x. x \<in> set m \<Longrightarrow> comes_back oth (snd x) (g x)" by metis
  let ?es = "map (\<lambda>x. (fst x, g x)) m"
  have enc: "those (map (\<lambda>(k, v). map_option (Pair k) (json_of_any oth v)) m) = Some ?es"
    using g by (intro those_map_Some) (auto simp: comes_back_def)
  have keys: "map fst ?es = map fst m" by (simp add: comp_def)
  have srt: "sorted_entries ?es = ?es"
    using "6.prems" by (intro sorted_entries_sorted) (simp_all only: keys settled.simps)
  have "those (map (\<lambda>(k, v). map_option (Pair k) (any_of_json v)) (map (\<lambda>(k, v). (to_valid k, jvalid v)) ?es)) =
      Some (map id m)"
    unfolding map_map using g "6.prems"
    by (intro those_map_Some) (auto simp: comes_back_def list_all_iff valid_utf8_id)
  then have "any_of_json (jvalid (JObj ?es)) = Some (VMap m)"
    using "6.prems" fold_update_fresh [of m "[]"] by simp
  moreover have "jdepth (JObj ?es) = adepth (VMap m)"
  proof -
    have "map (\<lambda>(k, v). jdepth v) ?es = map (\<lambda>(k, v). adepth v) m" using g by (auto simp: comes_back_def)
    then show ?thesis by (simp del: map_map map_eq_conv)
  qed
  ultimately show ?case
    using enc srt g
    by (intro exI [of _ "JObj ?es"])
      (auto simp: comes_back_def simp del: jvalid.simps any_of_json.simps jdepth.simps adepth.simps)
qed (simp_all add: comes_back_def [abs_def] valid_utf8_id)

section \<open>Integers through JSON\<close>

lemma ParseFloat_FormatInt:
  "ParseFloat (FormatInt n) = mk_float False (n < 0) (nat \<bar>n\<bar>) 0 0"
proof -
  have "plain_decimal (FormatUint m) m 0" for m
    unfolding plain_decimal_def by (intro exI [of _ "FormatUint m"] exI [of _ "[]"]) simp
  from ParseFloat_plain [OF this, of "n < 0" "nat \<bar>n\<bar>"] show ?thesis
    by (auto simp: FormatInt_def split: if_splits)
qed

text \<open>Up to \<open>2 ^ 53\<close> an integer is a float and comes back as the same integer.\<close>

lemma nat_is_float:
  assumes "m < 2 ^ 53"
  obtains f where "wf_float f" "is_finite f" "fsign f = s" "funits f = m * 2 ^ unit_exp"
proof (cases "m = 0")
  case True
  then show thesis by (intro that [of "F64 s 0 0"]) (simp_all add: wf_float_def is_finite_def funits_def)
next
  case False
  define b where "b = bitlen m"
  have b: "2 ^ b \<le> m" "m < 2 ^ Suc b" using bitlen_bounds [of m] False by (auto simp: b_def)
  have b52: "b \<le> 52" using bitlen_less [OF assms] by (simp add: b_def)
  have split: "(2::nat) ^ b * 2 ^ (52 - b) = 2 ^ 52" "(2::nat) ^ Suc b * 2 ^ (52 - b) = 2 ^ 53"
    using b52 by (simp_all flip: power_add)
  have lo: "2 ^ 52 \<le> m * 2 ^ (52 - b)" using mult_right_mono [OF b(1), of "2 ^ (52 - b)"] split(1) by simp
  have "m * 2 ^ (52 - b) < 2 ^ Suc b * 2 ^ (52 - b)" using b(2) by simp
  then have hi: "m * 2 ^ (52 - b) < 2 ^ 53" unfolding split(2) .
  define f where "f = F64 s (1023 + b) (m * 2 ^ (52 - b) - 2 ^ 52)"
  have "m * 2 ^ (52 - b) * 2 ^ (1022 + b) = m * 2 ^ unit_exp"
    using b52 by (simp add: unit_exp_def mult.assoc flip: power_add)
  then have "funits f = m * 2 ^ unit_exp" using lo by (simp add: funits_def f_def)
  with lo hi b52 show thesis by (intro that [of f]) (simp_all add: f_def wf_float_def is_finite_def)
qed

lemma int64_of_float_exact:
  assumes "is_finite f" "funits f = m * 2 ^ unit_exp" "m < 2 ^ 53"
  shows "int64_of_float f = (if fsign f then - int m else int m)"
proof -
  have "funits f div 2 ^ unit_exp = m" using assms(2) by simp
  moreover have "int m < 2 ^ 53" using assms(3) by (simp only: of_nat_less_numeral_power_cancel_iff)
  ultimately show ?thesis using assms(1) by (simp add: int64_of_float_def Let_def)
qed

lemma int_through_float:
  assumes "\<bar>n\<bar> < 2 ^ 53"
  obtains f where "ParseFloat (FormatInt n) = Inr f" "int64_of_float f = n" "float_of_int64 n = f"
    "wf_float f" "is_finite f" "funits f = nat \<bar>n\<bar> * 2 ^ unit_exp"
proof -
  have m: "nat \<bar>n\<bar> < 2 ^ 53" using assms by (simp add: nat_less_iff)
  obtain f where f: "wf_float f" "is_finite f" "fsign f = (n < 0)" "funits f = nat \<bar>n\<bar> * 2 ^ unit_exp"
    using nat_is_float [OF m] by metis
  have "round_f64 (n < 0) (nat \<bar>n\<bar>) 1 = Some f"
    using round_f64_exact [OF f(1,2), of 1 "nat \<bar>n\<bar>"] f(3,4) by simp
  moreover have "int64_of_float f = n"
    using int64_of_float_exact [OF f(2,4) m] f(3) by auto
  ultimately show thesis using f by (intro that) (simp_all add: ParseFloat_FormatInt mk_float_def float_of_int64_def)
qed

text \<open>Such an integer, read as a float, is again written in digits.\<close>

lemma positional_int:
  assumes "funits f = m * 2 ^ unit_exp" "m < 10 ^ 21"
  shows "positional f"
proof (cases "m = 0")
  case True
  with assms(1) show ?thesis by (simp add: positional_def)
next
  case False
  have "2 ^ 52 + ffrac f64_1em6 \<le> 2 ^ 72" by (simp add: f64_1em6_def)
  then have "funits f64_1em6 \<le> 2 ^ 72 * 2 ^ 1002" unfolding f64_1em6_nearest(1) by (rule mult_right_mono) simp
  also have "\<dots> = 1 * 2 ^ unit_exp" unfolding f64_1em6_nearest(2) power_add by (simp only: mult_1)
  also have "\<dots> \<le> funits f" unfolding assms(1) using False by (intro mult_right_mono) simp_all
  finally have "funits f64_1em6 \<le> funits f" .
  moreover have "funits f < funits f64_1e21"
    unfolding assms(1) f64_1e21_exact by (rule mult_strict_right_mono [OF assms(2)]) simp
  ultimately show ?thesis by (simp add: positional_def)
qed

text \<open>The first integer that is not: \<open>2 ^ 53 + 1\<close> is rounded to \<open>2 ^ 53\<close>.\<close>

lemma float_of_odd: "float_of_int64 (2 ^ 53 + 1) = F64 False 1076 0"
proof -
  define D :: nat where "D = 2 ^ unit_exp"
  have D: "0 < D" by (simp add: D_def)
  have u: "nat \<bar>2 ^ 53 + 1\<bar> * D = (2 ^ 53 + 1) * D" by simp
  have "bitlen ((2 ^ 53 + 1) * D) = 53 + unit_exp"
  proof (rule bitlen_eqI)
    show "2 ^ (53 + unit_exp) \<le> (2 ^ 53 + 1) * D" by (simp add: D_def power_add)
    have "(2 ^ 53 + 1) * D < 2 ^ 54 * D" using D by (intro mult_strict_right_mono) simp_all
    then show "(2 ^ 53 + 1) * D < 2 ^ Suc (53 + unit_exp)" by (simp add: D_def power_add)
  qed
  then have j: "bitlen ((2 ^ 53 + 1) * D) - 52 = Suc unit_exp" by simp
  have "((2 ^ 53 + 1) * D) div (2 * D) = 2 ^ 52" "((2 ^ 53 + 1) * D) mod (2 * D) = D"
    using D by (simp_all add: div_mult_mult2 mult_mod_left [symmetric] del: mult_Suc)
  then have q: "round_div ((2 ^ 53 + 1) * D) (2 * D) = 2 ^ 52" by (simp add: round_div_def)
  show ?thesis
    using j q unfolding float_of_int64_def round_f64_def Let_def D_def [symmetric] u
    by (simp add: D_def unit_exp_def)
qed

section \<open>Maps of values that are read back\<close>

lemma map_of_sorted_entries:
  assumes "wf_map m"
  shows "map_of (sorted_entries m) = map_of m" "distinct (map fst (sorted_entries m))"
proof -
  show "distinct (map fst (sorted_entries m))" using assms by (simp add: wf_map_def)
  show "map_of (sorted_entries m) = map_of m"
    by (rule ext) (auto simp: sorted_entries_def map_of_map_restrict restrict_map_def
        dom_map_of_conv_image_fst [symmetric] domIff split: if_splits)
qed

text \<open>\<open>rd v\<close> is what \<open>v\<close> is read back as; the entries of a map come back sorted.\<close>

definition reads_back :: "(any \<Rightarrow> json option) \<Rightarrow> (any \<Rightarrow> any) \<Rightarrow> any \<Rightarrow> bool" where
  "reads_back oth rd v \<longleftrightarrow>
     (\<exists>j. json_of_any oth v = Some j \<and> wf_json j \<and> jdepth j < maxNestingDepth \<and> any_of_json (jvalid j) = Some (rd v))"

lemma map_reads_back:
  assumes m: "wf_map m" "\<And>k v. (k, v) \<in> set m \<Longrightarrow> valid_utf8 k \<and> reads_back oth rd v"
  obtains j where "json_of_any oth (VMap m) = Some j"
    "unmarshal_map (print_json j) = Some (Some (map (\<lambda>(k, v). (k, rd v)) (sorted_entries m)))"
    "hd (print_json j) = CHR ''{''" "print_json j \<noteq> []" "wf_json j"
proof -
  have "\<forall>v. \<exists>j. reads_back oth rd v \<longrightarrow> json_of_any oth v = Some j \<and> wf_json j \<and> jdepth j < maxNestingDepth \<and>
      any_of_json (jvalid j) = Some (rd v)"
    by (auto simp: reads_back_def)
  then obtain g where "\<forall>v. reads_back oth rd v \<longrightarrow> json_of_any oth v = Some (g v) \<and> wf_json (g v) \<and>
      jdepth (g v) < maxNestingDepth \<and> any_of_json (jvalid (g v)) = Some (rd v)"
    by metis
  with m(2) have g: "json_of_any oth v = Some (g v)" "wf_json (g v)" "jdepth (g v) < maxNestingDepth"
      "any_of_json (jvalid (g v)) = Some (rd v)" "valid_utf8 k" if "(k, v) \<in> set m" for k v
    using that by blast+
  let ?s = "sorted_entries m"
  let ?es = "map (\<lambda>(k, v). (k, g v)) ?s"
  have sub: "(k, v) \<in> set m" if "(k, v) \<in> set ?s" for k v
    using that map_of_sorted_entries [OF m(1)] by (metis map_of_SomeD map_of_is_SomeI)
  have "those (map (\<lambda>(k, v). map_option (Pair k) (json_of_any oth v)) m) = Some (map (\<lambda>(k, v). (k, g v)) m)"
    using g(1) by (intro those_map_Some) auto
  moreover have "sorted_entries (map (\<lambda>(k, v). (k, g v)) m) = ?es"
    unfolding sorted_entries_def map_map using m(1)
    by (auto simp: comp_def case_prod_beta' map_of_map_snd [unfolded case_prod_beta'] wf_map_def intro!: map_cong)
  ultimately have enc: "json_of_any oth (VMap m) = Some (JObj ?es)" by simp
  have wf: "wf_json (JObj ?es)" using g(2) sub by auto
  have "jdepth (g v) \<le> maxNestingDepth - 1" if "(k, v) \<in> set ?s" for k v using g(3) [OF sub [OF that]] by simp
  then have "foldr max (map (\<lambda>(k, v). jdepth v) ?es) 0 \<le> maxNestingDepth - 1" by (auto simp: foldr_max_le)
  then have dep: "jdepth (JObj ?es) \<le> maxNestingDepth" by (simp add: maxNestingDepth_def)
  have "those (map (\<lambda>(k, v). map_option (Pair k) (any_of_json v)) (map (\<lambda>(k, v). (to_valid k, jvalid v)) ?es)) =
      Some (map (\<lambda>(k, v). (k, rd v)) ?s)"
    unfolding map_map
  proof (rule those_map_Some)
    fix x assume x: "x \<in> set ?s"
    obtain k v where kv: "x = (k, v)" by fastforce
    with g(4,5) [OF sub [of k v]] x show "((\<lambda>(k, v). map_option (Pair k) (any_of_json v)) \<circ>
        ((\<lambda>(k, v). (to_valid k, jvalid v)) \<circ> (\<lambda>(k, v). (k, g v)))) x = Some (case x of (k, v) \<Rightarrow> (k, rd v))"
      by (simp add: valid_utf8_id)
  qed
  moreover have "fold (\<lambda>(k, v). AList.update k v) (map (\<lambda>(k, v). (k, rd v)) ?s) [] = map (\<lambda>(k, v). (k, rd v)) ?s"
    using fold_update_fresh [of "map (\<lambda>(k, v). (k, rd v)) ?s" "[]"] map_of_sorted_entries(2) [OF m(1)]
    by (simp add: comp_def case_prod_beta)
  ultimately have "any_of_json (jvalid (JObj ?es)) = Some (VMap (map (\<lambda>(k, v). (k, rd v)) ?s))" by simp
  moreover obtain es' where "jvalid (JObj ?es) = JObj es'" by simp
  ultimately have "unmarshal_map (print_json (JObj ?es)) = Some (Some (map (\<lambda>(k, v). (k, rd v)) ?s))"
    using parse_print [OF wf dep] by (simp add: unmarshal_map_def del: print_json.simps jvalid.simps any_of_json.simps)
  from that [OF enc this] wf show thesis by simp
qed

end
