(* ===== verification/Queue_Payload.thy ===== *)
theory Queue_Payload
  imports Go_Json_Values
begin

text \<open>
  \<open>payload.go\<close> and the payload options of \<open>options.go\<close>: the struct \<open>LaravelPayload\<close>, its
  construction, its JSON form both ways, and the backoff of an attempt. Pointers to
  integers are options, a nil slice is \<open>None\<close>. The random identifier, the UUID and the clock
  reading of \<open>NewPayload\<close> are arguments.
\<close>

section \<open>The payload\<close>

record payloadData =
  CommandName :: string
  Command :: string

record laravelPayload =
  UUID :: string
  DisplayName :: string
  PJob :: string
  MaxTries :: "int option"
  MaxExceptions :: "int option"
  FailOnTimeout :: bool
  Backoff :: any
  Timeout :: "int option"
  RetryUntil :: "int option"
  Tags :: "string list option"
  Data :: payloadData
  PID :: string
  Attempts :: int
  PushedAt :: float64

definition zero_payload :: laravelPayload where
  "zero_payload =
     \<lparr>UUID = [], DisplayName = [], PJob = [], MaxTries = None, MaxExceptions = None, FailOnTimeout = False,
      Backoff = VNil, Timeout = None, RetryUntil = None, Tags = None, Data = \<lparr>CommandName = [], Command = []\<rparr>,
      PID = [], Attempts = 0, PushedAt = F64 False 0 0\<rparr>"

definition LaravelCallQueuedHandler :: string where
  "LaravelCallQueuedHandler =
     ''Illuminate'' @ [CHR 0x5C] @ ''Queue'' @ [CHR 0x5C] @ ''CallQueuedHandler@call''"

definition DefaultQueueName :: string where "DefaultQueueName = ''default''"
definition DefaultConnection :: string where "DefaultConnection = ''redis''"

type_synonym payloadOption = "laravelPayload \<Rightarrow> laravelPayload"

definition WithMaxTries :: "int \<Rightarrow> payloadOption" where "WithMaxTries n p = p\<lparr>MaxTries := Some n\<rparr>"
definition WithMaxExceptions :: "int \<Rightarrow> payloadOption" where "WithMaxExceptions n p = p\<lparr>MaxExceptions := Some n\<rparr>"
definition WithFailOnTimeout :: "bool \<Rightarrow> payloadOption" where "WithFailOnTimeout v p = p\<lparr>FailOnTimeout := v\<rparr>"
definition WithBackoff :: "any \<Rightarrow> payloadOption" where "WithBackoff v p = p\<lparr>Backoff := v\<rparr>"
definition WithTimeout :: "int \<Rightarrow> payloadOption" where "WithTimeout n p = p\<lparr>Timeout := Some n\<rparr>"
definition WithRetryUntil :: "int \<Rightarrow> payloadOption" where "WithRetryUntil t p = p\<lparr>RetryUntil := Some t\<rparr>"
text \<open>A variadic call without arguments passes a nil slice.\<close>

definition WithTags :: "string list \<Rightarrow> payloadOption" where
  "WithTags tags p = p\<lparr>Tags := (if tags = [] then None else Some tags)\<rparr>"

text \<open>\<open>hex.EncodeToString\<close> of the random bytes.\<close>

definition generateID :: "string \<Rightarrow> string" where
  "generateID b = concat (map (\<lambda>c. [hex_digit (byte c div 16), hex_digit (byte c mod 16)]) b)"

text \<open>Division of a float by a small integer constant: the quotient, rounded once.\<close>

definition float_div :: "float64 \<Rightarrow> nat \<Rightarrow> float64" where
  "float_div f d = (case round_f64 (fsign f) (funits f) (2 ^ unit_exp * d) of Some q \<Rightarrow> q | None \<Rightarrow> NaN)"

text \<open>What \<open>NewPayload\<close> reads from outside: a UUID, 16 random bytes, the clock in microseconds.\<close>

record fresh =
  fresh_uuid :: string
  fresh_bytes :: string
  fresh_micros :: int

definition NewPayload :: "fresh \<Rightarrow> string \<Rightarrow> string \<Rightarrow> payloadOption list \<Rightarrow> laravelPayload" where
  "NewPayload fr jobName command opts =
     fold (\<lambda>opt p. opt p) opts
       (zero_payload
          \<lparr>UUID := fresh_uuid fr, DisplayName := jobName, PJob := LaravelCallQueuedHandler,
           Data := \<lparr>CommandName = jobName, Command = command\<rparr>, PID := generateID (fresh_bytes fr), Attempts := 0,
           PushedAt := float_div (float_of_int64 (fresh_micros fr)) 1000000\<rparr>)"

section \<open>The backoff of an attempt\<close>

definition backoff_index :: "int \<Rightarrow> nat \<Rightarrow> nat" where
  "backoff_index attempt len =
     (let idx = wrap64 (attempt - 1); idx = (if idx < 0 then 0 else idx)
      in if int len \<le> idx then len - 1 else nat idx)"

text \<open>The three numeric types the code accepts, alone or inside a list.\<close>

definition backoff_number :: "any \<Rightarrow> int" where
  "backoff_number v =
     (case v of VFloat64 f \<Rightarrow> int64_of_float f | VNumber n \<Rightarrow> number_Int64 n | VInt n \<Rightarrow> sint n | _ \<Rightarrow> 0)"

definition BackoffSeconds :: "laravelPayload \<Rightarrow> int \<Rightarrow> int" where
  "BackoffSeconds p attempt =
     (case Backoff p of
        VNil \<Rightarrow> 0
      | VFloat64 f \<Rightarrow> int64_of_float f
      | VNumber n \<Rightarrow> number_Int64 n
      | VInt n \<Rightarrow> sint n
      | VSlice v \<Rightarrow> if v = [] then 0 else backoff_number (v ! backoff_index attempt (length v))
      | VInts v \<Rightarrow> if v = [] then 0 else sint (v ! backoff_index attempt (length v))
      | _ \<Rightarrow> 0)"

section \<open>json.Marshal of a payload\<close>

definition json_opt :: "int option \<Rightarrow> json" where
  "json_opt x = (case x of None \<Rightarrow> JNull | Some n \<Rightarrow> json_int n)"

definition data_json :: "payloadData \<Rightarrow> json" where
  "data_json d = JObj [(''commandName'', JStr (CommandName d)), (''command'', JStr (Command d))]"

definition payload_json :: "(any \<Rightarrow> json option) \<Rightarrow> laravelPayload \<Rightarrow> json option" where
  "payload_json oth p =
     (case (json_of_any oth (Backoff p), json_float (PushedAt p)) of
        (Some b, Some t) \<Rightarrow>
          Some (JObj
            [(''uuid'', JStr (UUID p)), (''displayName'', JStr (DisplayName p)), (''job'', JStr (PJob p)),
             (''maxTries'', json_opt (MaxTries p)), (''maxExceptions'', json_opt (MaxExceptions p)),
             (''failOnTimeout'', JBool (FailOnTimeout p)), (''backoff'', b), (''timeout'', json_opt (Timeout p)),
             (''retryUntil'', json_opt (RetryUntil p)),
             (''tags'', case Tags p of None \<Rightarrow> JNull | Some ts \<Rightarrow> JArr (map JStr ts)),
             (''data'', data_json (Data p)), (''id'', JStr (PID p)), (''attempts'', json_int (Attempts p)),
             (''pushedAt'', JNum t)])
      | _ \<Rightarrow> None)"

definition marshal_payload :: "(any \<Rightarrow> json option) \<Rightarrow> laravelPayload \<Rightarrow> string option" where
  "marshal_payload oth p = map_option print_json (payload_json oth p)"

section \<open>json.Unmarshal into a payload\<close>

text \<open>
  A key selects a field when the two agree up to case: ASCII letters, and the two other
  runes that fold to an ASCII letter (the long s and the Kelvin sign).
\<close>

fun fold_name :: "string \<Rightarrow> string" where
  "fold_name [] = []"
| "fold_name (c # cs) =
     (if c = CHR 0xC5 \<and> take 1 cs = [CHR 0xBF] then CHR ''S'' # fold_name (drop 1 cs)
      else if c = CHR 0xE2 \<and> take 2 cs = [CHR 0x84, CHR 0xAA] then CHR ''K'' # fold_name (drop 2 cs)
      else to_upper_byte c # fold_name cs)"

definition into_string :: "json \<Rightarrow> string \<Rightarrow> string option" where
  "into_string v old = (case v of JNull \<Rightarrow> Some old | JStr s \<Rightarrow> Some s | _ \<Rightarrow> None)"

definition into_bool :: "json \<Rightarrow> bool \<Rightarrow> bool option" where
  "into_bool v old = (case v of JNull \<Rightarrow> Some old | JBool b \<Rightarrow> Some b | _ \<Rightarrow> None)"

definition into_int :: "json \<Rightarrow> int \<Rightarrow> int option" where
  "into_int v old =
     (case v of JNull \<Rightarrow> Some old | JNum n \<Rightarrow> (case ParseInt n of Inr i \<Rightarrow> Some i | Inl _ \<Rightarrow> None) | _ \<Rightarrow> None)"

definition into_float :: "json \<Rightarrow> float64 \<Rightarrow> float64 option" where
  "into_float v old =
     (case v of JNull \<Rightarrow> Some old | JNum n \<Rightarrow> (case ParseFloat n of Inr f \<Rightarrow> Some f | Inl _ \<Rightarrow> None) | _ \<Rightarrow> None)"

definition into_int_ptr :: "json \<Rightarrow> int option option" where
  "into_int_ptr v = (case v of JNull \<Rightarrow> Some None | _ \<Rightarrow> map_option Some (into_int v 0))"

text \<open>
  A slice is filled in place: a null element keeps what the backing array (\<open>mem\<close>) holds at its
  index, which only a second occurrence of the key can make visible.
\<close>

fun into_elems :: "json list \<Rightarrow> string list \<Rightarrow> string list option" where
  "into_elems [] mem = Some []"
| "into_elems (v # vs) mem =
     (case (into_string v (if mem = [] then [] else hd mem), into_elems vs (tl mem)) of
        (Some s, Some ss) \<Rightarrow> Some (s # ss) | _ \<Rightarrow> None)"

definition into_strings :: "json \<Rightarrow> string list \<Rightarrow> (string list option \<times> string list) option" where
  "into_strings v mem =
     (case v of
        JNull \<Rightarrow> Some (None, [])
      | JArr vs \<Rightarrow>
          if vs = [] then Some (Some [], [])
          else map_option (\<lambda>ss. (Some ss, ss @ drop (length ss) mem)) (into_elems vs mem)
      | _ \<Rightarrow> None)"

definition set_data_field :: "string \<Rightarrow> json \<Rightarrow> payloadData \<Rightarrow> payloadData option" where
  "set_data_field k v d =
     (let n = fold_name k
      in if n = fold_name ''commandName'' then map_option (\<lambda>s. d\<lparr>CommandName := s\<rparr>) (into_string v (CommandName d))
         else if n = fold_name ''command'' then map_option (\<lambda>s. d\<lparr>Command := s\<rparr>) (into_string v (Command d))
         else Some d)"

fun set_data_fields :: "(string \<times> json) list \<Rightarrow> payloadData \<Rightarrow> payloadData option" where
  "set_data_fields [] d = Some d"
| "set_data_fields ((k, v) # es) d = Option.bind (set_data_field k v d) (set_data_fields es)"

definition into_data :: "json \<Rightarrow> payloadData \<Rightarrow> payloadData option" where
  "into_data v d = (case v of JNull \<Rightarrow> Some d | JObj es \<Rightarrow> set_data_fields es d | _ \<Rightarrow> None)"

text \<open>The struct being filled, with the backing array of its \<open>Tags\<close>.\<close>

type_synonym filling = "laravelPayload \<times> string list"

definition set_field :: "string \<Rightarrow> json \<Rightarrow> filling \<Rightarrow> filling option" where
  "set_field k v st =
     (case st of (p, mem) \<Rightarrow>
      let n = fold_name k
      in if n = fold_name ''uuid'' then map_option (\<lambda>x. (p\<lparr>UUID := x\<rparr>, mem)) (into_string v (UUID p))
         else if n = fold_name ''displayName'' then map_option (\<lambda>x. (p\<lparr>DisplayName := x\<rparr>, mem)) (into_string v (DisplayName p))
         else if n = fold_name ''job'' then map_option (\<lambda>x. (p\<lparr>PJob := x\<rparr>, mem)) (into_string v (PJob p))
         else if n = fold_name ''maxTries'' then map_option (\<lambda>x. (p\<lparr>MaxTries := x\<rparr>, mem)) (into_int_ptr v)
         else if n = fold_name ''maxExceptions'' then map_option (\<lambda>x. (p\<lparr>MaxExceptions := x\<rparr>, mem)) (into_int_ptr v)
         else if n = fold_name ''failOnTimeout'' then map_option (\<lambda>x. (p\<lparr>FailOnTimeout := x\<rparr>, mem)) (into_bool v (FailOnTimeout p))
         else if n = fold_name ''backoff'' then map_option (\<lambda>x. (p\<lparr>Backoff := x\<rparr>, mem)) (any_of_json v)
         else if n = fold_name ''timeout'' then map_option (\<lambda>x. (p\<lparr>Timeout := x\<rparr>, mem)) (into_int_ptr v)
         else if n = fold_name ''retryUntil'' then map_option (\<lambda>x. (p\<lparr>RetryUntil := x\<rparr>, mem)) (into_int_ptr v)
         else if n = fold_name ''tags'' then map_option (\<lambda>(x, mem'). (p\<lparr>Tags := x\<rparr>, mem')) (into_strings v mem)
         else if n = fold_name ''data'' then map_option (\<lambda>x. (p\<lparr>Data := x\<rparr>, mem)) (into_data v (Data p))
         else if n = fold_name ''id'' then map_option (\<lambda>x. (p\<lparr>PID := x\<rparr>, mem)) (into_string v (PID p))
         else if n = fold_name ''attempts'' then map_option (\<lambda>x. (p\<lparr>Attempts := x\<rparr>, mem)) (into_int v (Attempts p))
         else if n = fold_name ''pushedAt'' then map_option (\<lambda>x. (p\<lparr>PushedAt := x\<rparr>, mem)) (into_float v (PushedAt p))
         else Some st)"

fun set_fields :: "(string \<times> json) list \<Rightarrow> filling \<Rightarrow> filling option" where
  "set_fields [] st = Some st"
| "set_fields ((k, v) # es) st = Option.bind (set_field k v st) (set_fields es)"

definition unmarshal_payload :: "string \<Rightarrow> laravelPayload option" where
  "unmarshal_payload s =
     (case parse_json s of
        Some JNull \<Rightarrow> Some zero_payload
      | Some (JObj es) \<Rightarrow> map_option fst (set_fields es (zero_payload, []))
      | _ \<Rightarrow> None)"

section \<open>The round trip of a payload\<close>

text \<open>The payloads Go can hold that JSON can carry: ints in range, valid UTF-8, a finite time stamp.\<close>

definition int_ok :: "int \<Rightarrow> bool" where
  "int_ok n \<longleftrightarrow> min_int64 \<le> n \<and> n \<le> max_int64"

definition wf_payload :: "laravelPayload \<Rightarrow> bool" where
  "wf_payload p \<longleftrightarrow>
     valid_utf8 (UUID p) \<and> valid_utf8 (DisplayName p) \<and> valid_utf8 (PJob p) \<and> valid_utf8 (PID p) \<and>
     valid_utf8 (CommandName (Data p)) \<and> valid_utf8 (Command (Data p)) \<and>
     pred_option (list_all valid_utf8) (Tags p) \<and>
     pred_option int_ok (MaxTries p) \<and> pred_option int_ok (MaxExceptions p) \<and> pred_option int_ok (Timeout p) \<and>
     pred_option int_ok (RetryUntil p) \<and> int_ok (Attempts p) \<and>
     wf_float (PushedAt p) \<and> is_finite (PushedAt p) \<and> positional (PushedAt p)"

lemma into_json_opt: "pred_option int_ok x \<Longrightarrow> into_int_ptr (json_opt x) = Some x"
  by (cases x) (auto simp: into_int_ptr_def json_opt_def json_int_def into_int_def int_ok_def ParseInt_FormatInt)

lemma into_elems_map: "list_all valid_utf8 ts \<Longrightarrow> into_elems (map (\<lambda>s. JStr (to_valid s)) ts) mem = Some ts"
  by (induction ts arbitrary: mem) (auto simp: into_string_def valid_utf8_id)

lemma jvalid_simple [simp]: "jvalid (json_opt x) = json_opt x" "jvalid (json_int n) = json_int n"
  "wf_json (json_opt x)" "wf_json (json_int n)" "jdepth (json_opt x) = 0" "jdepth (json_int n) = 0"
  by (auto simp: json_opt_def json_int_def split: option.splits)

text \<open>Field by field: no two names of the struct fold together.\<close>

lemma fold_names:
  "fold_name ''uuid'' = ''UUID''" "fold_name ''displayName'' = ''DISPLAYNAME''" "fold_name ''job'' = ''JOB''"
  "fold_name ''maxTries'' = ''MAXTRIES''" "fold_name ''maxExceptions'' = ''MAXEXCEPTIONS''"
  "fold_name ''failOnTimeout'' = ''FAILONTIMEOUT''" "fold_name ''backoff'' = ''BACKOFF''"
  "fold_name ''timeout'' = ''TIMEOUT''" "fold_name ''retryUntil'' = ''RETRYUNTIL''" "fold_name ''tags'' = ''TAGS''"
  "fold_name ''data'' = ''DATA''" "fold_name ''id'' = ''ID''" "fold_name ''attempts'' = ''ATTEMPTS''"
  "fold_name ''pushedAt'' = ''PUSHEDAT''" "fold_name ''commandName'' = ''COMMANDNAME''"
  "fold_name ''command'' = ''COMMAND''"
  by code_simp+

declare fold_name.simps [simp del]

lemma to_valid_names:
  "to_valid ''uuid'' = ''uuid''" "to_valid ''displayName'' = ''displayName''" "to_valid ''job'' = ''job''"
  "to_valid ''maxTries'' = ''maxTries''" "to_valid ''maxExceptions'' = ''maxExceptions''"
  "to_valid ''failOnTimeout'' = ''failOnTimeout''" "to_valid ''backoff'' = ''backoff''"
  "to_valid ''timeout'' = ''timeout''" "to_valid ''retryUntil'' = ''retryUntil''" "to_valid ''tags'' = ''tags''"
  "to_valid ''data'' = ''data''" "to_valid ''id'' = ''id''" "to_valid ''attempts'' = ''attempts''"
  "to_valid ''pushedAt'' = ''pushedAt''" "to_valid ''commandName'' = ''commandName''"
  "to_valid ''command'' = ''command''"
  by code_simp+

lemma into_data_json:
  assumes "valid_utf8 (CommandName d)" "valid_utf8 (Command d)"
  shows "into_data (jvalid (data_json d)) d0 = Some d"
  using assms
  by (cases d, cases d0) (simp add: data_json_def into_data_def set_data_field_def fold_names to_valid_names
      into_string_def valid_utf8_id)

lemma into_tags:
  assumes "pred_option (list_all valid_utf8) ts"
  obtains mem' where
    "into_strings (jvalid (case ts of None \<Rightarrow> JNull | Some ss \<Rightarrow> JArr (map JStr ss))) mem = Some (ts, mem')"
  using assms into_elems_map [of "the ts" mem]
  by (cases ts; cases "ts = Some []") (auto simp: into_strings_def comp_def)

lemma into_simple:
  "valid_utf8 s \<Longrightarrow> into_string (jvalid (JStr s)) old = Some s" "into_bool (JBool b) b0 = Some b"
  "int_ok n \<Longrightarrow> into_int (json_int n) n0 = Some n"
  "wf_float f \<Longrightarrow> is_finite f \<Longrightarrow> into_float (JNum (FormatFloat f)) f0 = Some f"
  by (simp_all add: into_string_def into_bool_def into_int_def into_float_def json_int_def int_ok_def
      valid_utf8_id ParseInt_FormatInt ParseFloat_FormatFloat)

lemma set_field_at:
  "set_field ''uuid'' v (p, mem) = map_option (\<lambda>x. (p\<lparr>UUID := x\<rparr>, mem)) (into_string v (UUID p))"
  "set_field ''displayName'' v (p, mem) = map_option (\<lambda>x. (p\<lparr>DisplayName := x\<rparr>, mem)) (into_string v (DisplayName p))"
  "set_field ''job'' v (p, mem) = map_option (\<lambda>x. (p\<lparr>PJob := x\<rparr>, mem)) (into_string v (PJob p))"
  "set_field ''maxTries'' v (p, mem) = map_option (\<lambda>x. (p\<lparr>MaxTries := x\<rparr>, mem)) (into_int_ptr v)"
  "set_field ''maxExceptions'' v (p, mem) = map_option (\<lambda>x. (p\<lparr>MaxExceptions := x\<rparr>, mem)) (into_int_ptr v)"
  "set_field ''failOnTimeout'' v (p, mem) = map_option (\<lambda>x. (p\<lparr>FailOnTimeout := x\<rparr>, mem)) (into_bool v (FailOnTimeout p))"
  "set_field ''backoff'' v (p, mem) = map_option (\<lambda>x. (p\<lparr>Backoff := x\<rparr>, mem)) (any_of_json v)"
  "set_field ''timeout'' v (p, mem) = map_option (\<lambda>x. (p\<lparr>Timeout := x\<rparr>, mem)) (into_int_ptr v)"
  "set_field ''retryUntil'' v (p, mem) = map_option (\<lambda>x. (p\<lparr>RetryUntil := x\<rparr>, mem)) (into_int_ptr v)"
  "set_field ''tags'' v (p, mem) = map_option (\<lambda>(x, mem'). (p\<lparr>Tags := x\<rparr>, mem')) (into_strings v mem)"
  "set_field ''data'' v (p, mem) = map_option (\<lambda>x. (p\<lparr>Data := x\<rparr>, mem)) (into_data v (Data p))"
  "set_field ''id'' v (p, mem) = map_option (\<lambda>x. (p\<lparr>PID := x\<rparr>, mem)) (into_string v (PID p))"
  "set_field ''attempts'' v (p, mem) = map_option (\<lambda>x. (p\<lparr>Attempts := x\<rparr>, mem)) (into_int v (Attempts p))"
  "set_field ''pushedAt'' v (p, mem) = map_option (\<lambda>x. (p\<lparr>PushedAt := x\<rparr>, mem)) (into_float v (PushedAt p))"
  by (simp_all add: set_field_def fold_names Let_def)

lemma wf_json_tags: "wf_json (case ts of None \<Rightarrow> JNull | Some ss \<Rightarrow> JArr (map JStr ss))"
  "jdepth (case ts of None \<Rightarrow> JNull | Some ss \<Rightarrow> JArr (map JStr ss)) \<le> 1"
  "wf_json (data_json d)" "jdepth (data_json d) = 1"
proof -
  have "foldr max (map (jdepth \<circ> JStr) ss) 0 = 0" for ss by (induction ss) auto
  then show "jdepth (case ts of None \<Rightarrow> JNull | Some ss \<Rightarrow> JArr (map JStr ss)) \<le> 1"
    by (simp split: option.splits)
qed (auto simp: data_json_def split: option.splits)

lemma payload_json_wf:
  assumes "wf_payload p" "json_of_any oth (Backoff p) = Some b" "wf_json b"
  shows "\<exists>j. payload_json oth p = Some j \<and> wf_json j"
proof -
  have "json_float (PushedAt p) = Some (FormatFloat (PushedAt p))" "valid_number (FormatFloat (PushedAt p))"
    using assms(1) by (auto simp: wf_payload_def json_float_def valid_number_FormatFloat)
  with assms(2,3) wf_json_tags(1) [of "Tags p"] wf_json_tags(3) [of "Data p"] show ?thesis by (auto simp: payload_json_def)
qed

text \<open>
  What was marshalled is read back field by field; only \<open>Backoff\<close> changes its type on the way,
  to the value JSON reads from its text.
\<close>

lemma unmarshal_marshal:
  assumes wf: "wf_payload p"
    and b: "json_of_any oth (Backoff p) = Some b" "wf_json b" "jdepth b < maxNestingDepth"
    and v: "any_of_json (jvalid b) = Some v"
  shows "\<exists>s. marshal_payload oth p = Some s \<and> unmarshal_payload s = Some (p\<lparr>Backoff := v\<rparr>)"
proof -
  let ?tags = "case Tags p of None \<Rightarrow> JNull | Some ss \<Rightarrow> JArr (map JStr ss)"
  have t: "json_float (PushedAt p) = Some (FormatFloat (PushedAt p))" "valid_number (FormatFloat (PushedAt p))"
    using wf by (auto simp: wf_payload_def json_float_def valid_number_FormatFloat)
  obtain j where j: "payload_json oth p = Some j" and wj: "wf_json j" using payload_json_wf [OF wf b(1,2)] by blast
  have "jdepth j \<le> maxNestingDepth"
    using j b t wf_json_tags(2) [of "Tags p"] wf_json_tags(4) [of "Data p"]
    by (auto simp: payload_json_def foldr_max_le maxNestingDepth_def)
  with wj have parse: "parse_json (print_json j) = Some (jvalid j)" by (rule parse_print)
  obtain mem where mem: "into_strings (jvalid ?tags) [] = Some (Tags p, mem)"
    using wf by (auto simp: wf_payload_def intro: into_tags [of "Tags p"])
  note w = wf [unfolded wf_payload_def]
  have "unmarshal_payload (print_json j) = Some (p\<lparr>Backoff := v\<rparr>)"
    using j b t w v mem
    by (auto simp: unmarshal_payload_def parse payload_json_def to_valid_names set_field_at into_simple into_json_opt
        into_data_json zero_payload_def simp del: jvalid.simps(1,2) )
  with j show ?thesis by (simp add: marshal_payload_def)
qed

section \<open>The backoff survives the round trip\<close>

text \<open>The backoffs a caller sets in Go: none, seconds, or a list of seconds; below \<open>2 ^ 53\<close>.\<close>

definition exact_int :: "int64 \<Rightarrow> bool" where
  "exact_int n \<longleftrightarrow> \<bar>sint n\<bar> < 2 ^ 53"

fun plain_backoff :: "any \<Rightarrow> bool" where
  "plain_backoff VNil = True"
| "plain_backoff (VInt n) = exact_int n"
| "plain_backoff (VInts ns) = list_all exact_int ns"
| "plain_backoff _ = False"

lemma backoff_index_less: "0 < len \<Longrightarrow> backoff_index attempt len < len"
  by (auto simp: backoff_index_def Let_def)

lemma read_back_int:
  assumes "exact_int n"
  shows "\<exists>f. any_of_json (json_int (sint n)) = Some (VFloat64 f) \<and> int64_of_float f = sint n"
proof -
  from assms obtain f where "ParseFloat (FormatInt (sint n)) = Inr f" "int64_of_float f = sint n"
    unfolding exact_int_def by (rule int_through_float)
  then show ?thesis by (simp add: json_int_def)
qed

lemma plain_backoff_json:
  assumes "plain_backoff v"
  obtains b w where "json_of_any oth v = Some b" "wf_json b" "jdepth b \<le> 1" "any_of_json (jvalid b) = Some w"
    "\<And>p attempt. BackoffSeconds (p\<lparr>Backoff := w\<rparr>) attempt = BackoffSeconds (p\<lparr>Backoff := v\<rparr>) attempt"
  using assms
proof (cases v rule: plain_backoff.cases)
  case (2 n)
  with assms read_back_int [of n] obtain f where
    "any_of_json (json_int (sint n)) = Some (VFloat64 f)" "int64_of_float f = sint n" by auto
  with 2 show thesis by (intro that [of "json_int (sint n)" "VFloat64 f"]) (simp_all add: BackoffSeconds_def)
next
  case (3 ns)
  with assms have "\<forall>n \<in> set ns. \<exists>f. any_of_json (json_int (sint n)) = Some (VFloat64 f) \<and> int64_of_float f = sint n"
    by (simp add: list_all_iff read_back_int)
  then obtain g where g: "\<And>n. n \<in> set ns \<Longrightarrow> any_of_json (json_int (sint n)) = Some (VFloat64 (g n))"
    "\<And>n. n \<in> set ns \<Longrightarrow> int64_of_float (g n) = sint n" by metis
  have "those (map (\<lambda>n. any_of_json (json_int (sint n))) ns) = Some (map (\<lambda>n. VFloat64 (g n)) ns)"
    using g(1) by (rule those_map_Some)
  moreover have "foldr max (map (\<lambda>n. jdepth (json_int (sint n))) ns) 0 = 0" by (induction ns) auto
  moreover have "BackoffSeconds (p\<lparr>Backoff := VSlice (map (\<lambda>n. VFloat64 (g n)) ns)\<rparr>) attempt =
      BackoffSeconds (p\<lparr>Backoff := v\<rparr>) attempt" for p attempt
    using 3 g(2) backoff_index_less [of "length ns" attempt]
    by (simp add: BackoffSeconds_def backoff_number_def)
  ultimately show thesis
    using 3 by (intro that [of "JArr (map (\<lambda>n. json_int (sint n)) ns)" "VSlice (map (\<lambda>n. VFloat64 (g n)) ns)"])
      (auto simp: comp_def)
qed (use that in auto)

end
