(* ===== verification/Queue_Job.thy ===== *)
theory Queue_Job
  imports Queue_Payload Queue_Driver Php_Helpers
begin

text \<open>
  \<open>job.go\<close> and the interface of \<open>driver.go\<close>: parsing a raw job, the accessors that work on
  PHP and on JSON commands, and the life cycle methods. A job carries its raw body, its
  payload and the decoded command: an address (or nil) in a heap of its own. The methods
  that mutate the job return it.
\<close>

section \<open>The driver interface\<close>

text \<open>
  The methods of \<open>Driver\<close> on the state of the world \<open>'s\<close>, in which the server, the driver's
  own fields and the clock live; \<open>time_now\<close> is \<open>time.Now()\<close> in nanoseconds.
\<close>

record 's driver =
  drv_push :: "string \<Rightarrow> string \<Rightarrow> 's \<Rightarrow> (driver_error + string) \<times> 's"
  drv_later :: "string \<Rightarrow> int \<Rightarrow> string \<Rightarrow> 's \<Rightarrow> (driver_error + string) \<times> 's"
  drv_pop :: "string \<Rightarrow> 's \<Rightarrow> (driver_error + RawJob option) \<times> 's"
  drv_delete :: "RawJob \<Rightarrow> 's \<Rightarrow> driver_error option \<times> 's"
  drv_release :: "RawJob \<Rightarrow> int \<Rightarrow> 's \<Rightarrow> driver_error option \<times> 's"
  drv_size :: "string \<Rightarrow> 's \<Rightarrow> (driver_error + int) \<times> 's"
  drv_clear :: "string \<Rightarrow> 's \<Rightarrow> (driver_error + int) \<times> 's"
  drv_migrate :: "string \<Rightarrow> 's \<Rightarrow> driver_error option \<times> 's"
  drv_close :: "'s \<Rightarrow> driver_error option \<times> 's"
  time_now :: "'s \<Rightarrow> int \<times> 's"

section \<open>Jobs\<close>

datatype CommandFormat = FormatPHP | FormatJSON

record jobT =
  jraw :: RawJob
  jpayload :: laravelPayload
  jheap :: heap
  jdata :: "addr option"
  jformat :: CommandFormat

datatype job_fault = EParsePayload | EMarshalRelease | EDriver driver_error

definition stringFromAny :: "any \<Rightarrow> string" where
  "stringFromAny v = (case v of VString s \<Rightarrow> s | _ \<Rightarrow> [])"

text \<open>\<open>m[key]\<close> on a \<open>map[string]any\<close>\<close>

definition map_get :: "any gomap \<Rightarrow> string \<Rightarrow> any" where
  "map_get m key = (case map_of m key of Some v \<Rightarrow> v | None \<Rightarrow> VNil)"

definition decodeCommandJSON :: "string \<Rightarrow> (heap \<times> addr option) \<times> CommandFormat" where
  "decodeCommandJSON command =
     (case unmarshal_map command of
        Some (Some props) \<Rightarrow>
          if 0 < length props
          then (([CObj \<lparr>ObjClassName = stringFromAny (map_get props ''commandName''), Properties = props\<rparr>], Some 0),
                FormatJSON)
          else (([], None), FormatPHP)
      | _ \<Rightarrow> (([], None), FormatPHP))"

text \<open>A decoded \<open>*Object\<close> is never nil. The fuel is the decoder's.\<close>

definition decodeCommand :: "nat \<Rightarrow> string \<Rightarrow> (job_fault, (heap \<times> addr option) \<times> CommandFormat) outcome" where
  "decodeCommand fuel command =
     (if command = [] then Ok (([], None), FormatPHP)
      else if hd command = CHR ''{'' then Ok (decodeCommandJSON command)
      else case Decode fuel command of
             Ok (VObject obj, h) \<Rightarrow> Ok ((h, obj), FormatPHP)
           | Ok _ \<Rightarrow> Ok (decodeCommandJSON command)
           | Err _ \<Rightarrow> Ok (decodeCommandJSON command)
           | Panic p \<Rightarrow> Panic p
           | Fuel \<Rightarrow> Fuel)"

definition ParseJob :: "nat \<Rightarrow> RawJob \<Rightarrow> (job_fault, jobT) outcome" where
  "ParseJob fuel raw =
     (case unmarshal_payload (Body raw) of
        None \<Rightarrow> Err EParsePayload
      | Some payload \<Rightarrow>
          map_ok (\<lambda>((h, d), fmt). \<lparr>jraw = raw, jpayload = payload, jheap = h, jdata = d, jformat = fmt\<rparr>)
            (decodeCommand fuel (Command (Data payload))))"

section \<open>Accessors\<close>

text \<open>The accessors of single fields.\<close>

definition Format :: "jobT \<Rightarrow> CommandFormat" where "Format j = jformat j"
definition Job_UUID :: "jobT \<Rightarrow> string" where "Job_UUID j = UUID (jpayload j)"
definition Job_DisplayName :: "jobT \<Rightarrow> string" where "Job_DisplayName j = DisplayName (jpayload j)"
definition Job_CommandName :: "jobT \<Rightarrow> string" where "Job_CommandName j = CommandName (Data (jpayload j))"
definition Job_Attempts :: "jobT \<Rightarrow> int" where "Job_Attempts j = Attempts (jpayload j)"
definition Job_Queue :: "jobT \<Rightarrow> string" where "Job_Queue j = Queue (jraw j)"
definition Job_MaxTries :: "jobT \<Rightarrow> int option" where "Job_MaxTries j = MaxTries (jpayload j)"
definition Job_MaxExceptions :: "jobT \<Rightarrow> int option" where "Job_MaxExceptions j = MaxExceptions (jpayload j)"
definition Job_Timeout :: "jobT \<Rightarrow> int option" where "Job_Timeout j = Timeout (jpayload j)"
definition Job_Tags :: "jobT \<Rightarrow> string list option" where "Job_Tags j = Tags (jpayload j)"

lemmas job_fields = Format_def Job_UUID_def Job_DisplayName_def Job_CommandName_def Job_Attempts_def Job_Queue_def
  Job_MaxTries_def Job_MaxExceptions_def Job_Timeout_def Job_Tags_def

definition Job_GetString :: "jobT \<Rightarrow> string \<Rightarrow> ('e, string) outcome" where
  "Job_GetString j key = (if jdata j = None then Ok [] else GetString (jheap j) (jdata j) key)"

text \<open>\<open>j.data.Properties[key]\<close> once \<open>j.data\<close> is known not to be nil.\<close>

definition job_prop :: "jobT \<Rightarrow> string \<Rightarrow> any option" where
  "job_prop j key = Option.bind (deref (jheap j) (jdata j)) (\<lambda>obj. map_of (Properties obj) key)"

definition job_value :: "jobT \<Rightarrow> string \<Rightarrow> any" where
  "job_value j key = (case job_prop j key of Some v \<Rightarrow> v | None \<Rightarrow> VNil)"

definition Job_GetInt :: "jobT \<Rightarrow> string \<Rightarrow> int64" where
  "Job_GetInt j key =
     (if jdata j = None then 0
      else if jformat j = FormatJSON then
        (case job_value j key of
           VFloat64 n \<Rightarrow> word_of_int (int64_of_float n)
         | VInt64 n \<Rightarrow> n
         | VNumber n \<Rightarrow> word_of_int (number_Int64 n)
         | _ \<Rightarrow> 0)
      else GetInt (jheap j) (jdata j) key)"

definition Job_GetFloat :: "jobT \<Rightarrow> string \<Rightarrow> float64" where
  "Job_GetFloat j key = (if jdata j = None then F64 False 0 0 else GetFloat (jheap j) (jdata j) key)"

definition Job_GetBool :: "jobT \<Rightarrow> string \<Rightarrow> bool" where
  "Job_GetBool j key = (if jdata j = None then False else GetBool (jheap j) (jdata j) key)"

definition Job_GetSlice :: "jobT \<Rightarrow> string \<Rightarrow> ('e, any list option) outcome" where
  "Job_GetSlice j key =
     (if jdata j = None then Ok None
      else if jformat j = FormatJSON then Ok (case job_value j key of VSlice s \<Rightarrow> Some s | _ \<Rightarrow> None)
      else GetSlice (jheap j) (jdata j) key)"

definition Job_GetMap :: "jobT \<Rightarrow> string \<Rightarrow> ('e, any gomap option) outcome" where
  "Job_GetMap j key =
     (if jdata j = None then Ok None
      else if jformat j = FormatJSON then Ok (case job_value j key of VMap m \<Rightarrow> Some m | _ \<Rightarrow> None)
      else GetMap (jheap j) (jdata j) key)"

text \<open>The \<open>ModelIdentifier\<close> of a nested JSON object.\<close>

definition json_model_id :: "any gomap \<Rightarrow> modelIdentifier" where
  "json_model_id m =
     \<lparr>MClass = stringFromAny (map_get m ''class''), MID = map_get m ''id'',
      Relations = (case map_get m ''relations'' of VSlice rels \<Rightarrow> string_values rels | _ \<Rightarrow> []),
      MConnection = stringFromAny (map_get m ''connection''),
      CollectionClass = (case map_get m ''collectionClass'' of VString cc \<Rightarrow> Some cc | _ \<Rightarrow> None)\<rparr>"

definition GetModelID :: "jobT \<Rightarrow> string \<Rightarrow> ('e, modelIdentifier option) outcome" where
  "GetModelID j key =
     (if jdata j = None then Ok None
      else case job_prop j key of
             None \<Rightarrow> Ok None
           | Some v \<Rightarrow>
               bind_ok (AsModelIdentifier (jheap j) v) (\<lambda>mid.
                 Ok (case mid of
                       Some m \<Rightarrow> Some m
                     | None \<Rightarrow> (case v of VMap m \<Rightarrow> Some (json_model_id m) | _ \<Rightarrow> None))))"

text \<open>\<open>None\<close> is a nil slice. A nil \<open>*Array\<close> is dereferenced.\<close>

definition ChainedJobs :: "jobT \<Rightarrow> ('e, string list option) outcome" where
  "ChainedJobs j =
     (if jdata j = None then Ok None
      else case job_value j ''chained'' of
             VArray p \<Rightarrow>
               (case Option.bind p (get_arr (jheap j)) of
                  None \<Rightarrow> Panic NilDeref | Some arr \<Rightarrow> Ok (Some (string_values (Values arr))))
           | VSlice arr \<Rightarrow> Ok (Some (string_values arr))
           | _ \<Rightarrow> Ok None)"

definition BatchID :: "jobT \<Rightarrow> string" where
  "BatchID j = (if jdata j = None then [] else stringFromAny (job_value j ''batchId''))"

section \<open>Life cycle\<close>

definition Job_Delete :: "'s driver \<Rightarrow> jobT \<Rightarrow> 's \<Rightarrow> job_fault option \<times> 's" where
  "Job_Delete drv j s = (case drv_delete drv (jraw j) s of (e, s') \<Rightarrow> (map_option EDriver e, s'))"

text \<open>The attempt is counted and the body rewritten before the driver is called.\<close>

definition Job_Release ::
  "'s driver \<Rightarrow> (any \<Rightarrow> json option) \<Rightarrow> jobT \<Rightarrow> int \<Rightarrow> 's \<Rightarrow> job_fault option \<times> jobT \<times> 's" where
  "Job_Release drv oth j delay s =
     (let p = (jpayload j)\<lparr>Attempts := wrap64 (Attempts (jpayload j) + 1)\<rparr>; j1 = j\<lparr>jpayload := p\<rparr>
      in case marshal_payload oth p of
           None \<Rightarrow> (Some EMarshalRelease, j1, s)
         | Some body \<Rightarrow>
             let j2 = j1\<lparr>jraw := (jraw j)\<lparr>Body := body\<rparr>\<rparr>
             in case drv_release drv (jraw j2) delay s of (e, s') \<Rightarrow> (map_option EDriver e, j2, s'))"

definition HasFailed :: "'s driver \<Rightarrow> jobT \<Rightarrow> 's \<Rightarrow> bool \<times> 's" where
  "HasFailed drv j s =
     (if (case MaxTries (jpayload j) of None \<Rightarrow> False | Some n \<Rightarrow> n \<le> Attempts (jpayload j)) then (True, s)
      else case RetryUntil (jpayload j) of
             None \<Rightarrow> (False, s)
           | Some t \<Rightarrow> (case time_now drv s of (now, s') \<Rightarrow> (t \<le> Unix now, s')))"

definition BackoffDuration :: "jobT \<Rightarrow> int" where
  "BackoffDuration j = wrap64 (BackoffSeconds (jpayload j) (Attempts (jpayload j)) * second)"

section \<open>The Redis driver as a driver\<close>

text \<open>The world of a \<open>RedisDriver\<close>: its fields, the clock readings to come, the server.\<close>

record 's rworld =
  rdriver :: RedisDriver
  rclock :: "nat \<Rightarrow> int"
  rstore :: 's

text \<open>Run an operation on the server; it may use the next five clock readings.\<close>

definition on_store :: "(RedisDriver \<Rightarrow> (nat \<Rightarrow> int) \<Rightarrow> 's \<Rightarrow> 'a \<times> 's) \<Rightarrow> 's rworld \<Rightarrow> 'a \<times> 's rworld" where
  "on_store f w =
     (case f (rdriver w) (rclock w) (rstore w) of
        (r, s) \<Rightarrow> (r, w\<lparr>rstore := s, rclock := (\<lambda>i. rclock w (i + 5))\<rparr>))"

definition redis_driver :: "'s client \<Rightarrow> 's rworld driver" where
  "redis_driver cl =
     \<lparr>drv_push = (\<lambda>q p. on_store (\<lambda>d now. Push cl d q p)),
      drv_later = (\<lambda>q dl p. on_store (\<lambda>d now. Later cl d now q dl p)),
      drv_pop = (\<lambda>q w. case Pop cl (rdriver w) (rclock w) q (rstore w) of
         (r, d, s) \<Rightarrow> (r, w\<lparr>rdriver := d, rstore := s, rclock := (\<lambda>i. rclock w (i + 5))\<rparr>)),
      drv_delete = (\<lambda>j. on_store (\<lambda>d now. Delete cl d j)),
      drv_release = (\<lambda>j dl. on_store (\<lambda>d now. Release cl d now j dl)),
      drv_size = (\<lambda>q. on_store (\<lambda>d now. Size cl d q)),
      drv_clear = (\<lambda>q. on_store (\<lambda>d now. Clear cl d q)),
      drv_migrate = (\<lambda>q. on_store (\<lambda>d now. MigrateExpiredJobs cl d now q)),
      drv_close = (\<lambda>w. (Close (rdriver w), w)),
      time_now = (\<lambda>w. (rclock w 0, w\<lparr>rclock := (\<lambda>i. rclock w (i + 1))\<rparr>))\<rparr>"

end
