(* ===== verification/Queue_Contract.thy ===== *)
theory Queue_Contract
  imports Queue_Job Queue_Ledger
begin

text \<open>
  What the clients of the \<open>Driver\<close> interface (jobs, dispatcher, worker) rely on, as a locale
  over the abstract queue, with the Redis driver as its provider on every reliable server;
  and the job life cycle on top of it.
\<close>

section \<open>The contract\<close>

locale driver_contract =
  fixes drv :: "'s driver" and q_at :: "string \<Rightarrow> 's \<Rightarrow> queue_state option"
  assumes push_law: "q_at q s = Some Q \<Longrightarrow>
      \<exists>r s'. drv_push drv q p s = (Inr r, s') \<and> q_at q s' = Some (q_push p Q)"
    and later_law: "q_at q s = Some Q \<Longrightarrow>
      \<exists>r s' t. drv_later drv q dl p s = (Inr r, s') \<and> q_at q s' = Some (q_later t p Q)"
    and pop_law: "q_at q s = Some Q \<Longrightarrow>
      \<exists>r s' Q1 t. drv_pop drv q s = (Inr r, s') \<and> q_at q s' = Some (snd (q_pop t Q1)) \<and>
        map_option Body r = fst (q_pop t Q1) \<and> (\<forall>j. r = Some j \<longrightarrow> Queue j = q) \<and>
        (wf_queue Q \<longrightarrow> wf_queue Q1 \<and> jobs Q1 = jobs Q) \<and> (\<exists>later. ready Q1 = ready Q @ later)"
    and delete_law: "q_at (Queue j) s = Some Q \<Longrightarrow>
      \<exists>s'. drv_delete drv j s = (None, s') \<and> q_at (Queue j) s' = Some (q_delete (Body j) Q)"
    and release_law: "q_at (Queue j) s = Some Q \<Longrightarrow>
      \<exists>s' t. drv_release drv j dl s = (None, s') \<and> q_at (Queue j) s' = Some (q_release t (Body j) Q)"
    and clock_law: "q_at q (snd (time_now drv s)) = q_at q s"
begin

text \<open>
  Releasing a job writes a new body into the delayed set and removes only that new body from
  the reserved set: whatever was reserved under the old body stays there.
\<close>

lemma Job_Release_step:
  assumes "q_at (Queue (jraw j)) s = Some Q"
    "marshal_payload oth ((jpayload j)\<lparr>Attempts := wrap64 (Attempts (jpayload j) + 1)\<rparr>) = Some body"
  shows "\<exists>j' s' t. Job_Release drv oth j dl s = (None, j', s') \<and> Body (jraw j') = body \<and>
    Queue (jraw j') = Queue (jraw j) \<and> q_at (Queue (jraw j)) s' = Some (q_release t body Q)"
  using release_law [of "(jraw j)\<lparr>Body := body\<rparr>" s Q dl] assms by (auto simp: Job_Release_def Let_def)

lemma Job_Delete_step:
  assumes "q_at (Queue (jraw j)) s = Some Q"
  shows "\<exists>s'. Job_Delete drv j s = (None, s') \<and> q_at (Queue (jraw j)) s' = Some (q_delete (Body (jraw j)) Q)"
  using delete_law [OF assms] by (auto simp: Job_Delete_def)

lemma HasFailed_q_at: "q_at q (snd (HasFailed drv j s)) = q_at q s"
  using clock_law [of q s] by (auto simp: HasFailed_def split: option.splits prod.splits)

end

section \<open>The Redis driver keeps it\<close>

definition redis_queue :: "('s \<Rightarrow> store) \<Rightarrow> string \<Rightarrow> 's rworld \<Rightarrow> queue_state option" where
  "redis_queue view q w = queue_of (keys (rdriver w)) q (view (rstore w))"

lemma q_wait_migrate_ready: "\<exists>later. ready (q_wait b (if m then q_migrate t n Q else Q)) = ready Q @ later"
  by (auto simp: q_wait_def q_migrate_def q_migrate_delayed_def q_migrate_reserved_def q_arrive_def Let_def)

lemma wf_q_wait [simp]: "wf_queue Q \<Longrightarrow> wf_queue (q_wait b Q)"
  by (simp add: wf_queue_def q_wait_def)

context redis_reliable
begin

lemma redis_pop_law:
  assumes Q: "redis_queue view q w = Some Q"
  shows "\<exists>r w' Q1 t. drv_pop (redis_driver cl) q w = (Inr r, w') \<and> redis_queue view q w' = Some (snd (q_pop t Q1)) \<and>
    map_option Body r = fst (q_pop t Q1) \<and> (\<forall>j. r = Some j \<longrightarrow> Queue j = q) \<and>
    (wf_queue Q \<longrightarrow> wf_queue Q1 \<and> jobs Q1 = jobs Q) \<and> (\<exists>later. ready Q1 = ready Q @ later)"
proof -
  let ?d = "rdriver w" and ?now = "rclock w"
  obtain m d' where m: "shouldMigrate ?d ?now q = (m, d')" by fastforce
  define Q1 where "Q1 = q_wait (blockFor ?d) (if m then q_migrate (Unix (?now 2)) (batchSize ?d) Q else Q)"
  have Q1: "wf_queue Q \<longrightarrow> wf_queue Q1 \<and> jobs Q1 = jobs Q" "\<exists>later. ready Q1 = ready Q @ later"
    using q_wait_migrate_ready by (auto simp: Q1_def)
  have "queue_of (keys ?d) q (view (rstore w)) = Some Q" using Q by (simp add: redis_queue_def)
  from Pop_step [OF this m Q1_def] obtain s' t where s':
    "Pop cl ?d ?now q (rstore w) = (Inr (map_option (\<lambda>b. \<lparr>Body = b, Queue = q, ReservedUntil = ?now 4 + retryAfter ?d\<rparr>)
       (fst (q_pop t Q1))), d', s')" "queue_of (keys ?d) q (view s') = Some (snd (q_pop t Q1))"
    by (auto simp: q_step_def)
  let ?r = "map_option (\<lambda>b. \<lparr>Body = b, Queue = q, ReservedUntil = ?now 4 + retryAfter ?d\<rparr>) (fst (q_pop t Q1))"
  let ?w = "w\<lparr>rdriver := d', rstore := s', rclock := (\<lambda>i. rclock w (i + 5))\<rparr>"
  have "drv_pop (redis_driver cl) q w = (Inr ?r, ?w)" using s'(1) by (simp add: redis_driver_def)
  moreover have "redis_queue view q ?w = Some (snd (q_pop t Q1))"
    using s'(2) shouldMigrate_keys [OF m] by (simp add: redis_queue_def)
  moreover have "map_option Body ?r = fst (q_pop t Q1)" "\<forall>j. ?r = Some j \<longrightarrow> Queue j = q"
    by (auto simp: option.map_comp comp_def map_option.id [unfolded id_def])
  ultimately show ?thesis using Q1 by blast
qed

end

sublocale redis_reliable \<subseteq> contract: driver_contract "redis_driver cl" "redis_queue view"
proof
  fix q p dl and w :: "'a rworld" and Q and j :: RawJob
  show "\<exists>r s'. drv_push (redis_driver cl) q p w = (Inr r, s') \<and> redis_queue view q s' = Some (q_push p Q)"
    if "redis_queue view q w = Some Q"
    using that Push_step [of "rdriver w" q "rstore w" Q p]
    by (auto simp: redis_driver_def on_store_def redis_queue_def q_step_def)
  show "\<exists>r s' t. drv_later (redis_driver cl) q dl p w = (Inr r, s') \<and> redis_queue view q s' = Some (q_later t p Q)"
    if "redis_queue view q w = Some Q"
    using that Later_step [of "rdriver w" q "rstore w" Q "rclock w" dl p]
    by (auto simp: redis_driver_def on_store_def redis_queue_def q_step_def)
  show "\<exists>r s' Q1 t. drv_pop (redis_driver cl) q w = (Inr r, s') \<and> redis_queue view q s' = Some (snd (q_pop t Q1)) \<and>
      map_option Body r = fst (q_pop t Q1) \<and> (\<forall>j. r = Some j \<longrightarrow> Queue j = q) \<and>
      (wf_queue Q \<longrightarrow> wf_queue Q1 \<and> jobs Q1 = jobs Q) \<and> (\<exists>later. ready Q1 = ready Q @ later)"
    if "redis_queue view q w = Some Q"
    using that by (rule redis_pop_law)
  show "\<exists>s'. drv_delete (redis_driver cl) j w = (None, s') \<and> redis_queue view (Queue j) s' = Some (q_delete (Body j) Q)"
    if "redis_queue view (Queue j) w = Some Q"
    using that Delete_step [of "rdriver w" j "rstore w" Q]
    by (auto simp: redis_driver_def on_store_def redis_queue_def q_step_def)
  show "\<exists>s' t. drv_release (redis_driver cl) j dl w = (None, s') \<and>
      redis_queue view (Queue j) s' = Some (q_release t (Body j) Q)"
    if "redis_queue view (Queue j) w = Some Q"
    using that Release_step [of "rdriver w" j "rstore w" Q "rclock w" dl]
    by (auto simp: redis_driver_def on_store_def redis_queue_def q_step_def)
  show "redis_queue view q (snd (time_now (redis_driver cl) w)) = redis_queue view q w"
    by (simp add: redis_driver_def redis_queue_def)
qed

context redis_reliable
begin

lemma contract_holds: "driver_contract (redis_driver cl) (redis_queue view)"
  by (rule contract.driver_contract_axioms)

end

end
