(* ===== verification/Queue_Dispatcher.thy ===== *)
theory Queue_Dispatcher
  imports Queue_Contract Php_Encoder
begin

text \<open>
  \<open>dispatcher.go\<close> and the dispatch options of \<open>options.go\<close>: serializing the command in
  either format, building and injecting chains, pushing the payload. The identifiers and
  clock readings of the payloads are the argument \<open>fr\<close>, one per payload; the heap in which
  the arguments' objects live and the fuel of the PHP codec are arguments too.
\<close>

section \<open>The dispatcher\<close>

record dispatcher =
  dqueue :: string
  dformat :: CommandFormat

type_synonym dispatcherOption = "dispatcher \<Rightarrow> dispatcher"

definition WithDefaultQueue :: "string \<Rightarrow> dispatcherOption" where
  "WithDefaultQueue queue d = d\<lparr>dqueue := queue\<rparr>"

definition WithCommandFormat :: "CommandFormat \<Rightarrow> dispatcherOption" where
  "WithCommandFormat f d = d\<lparr>dformat := f\<rparr>"

definition NewDispatcher :: "dispatcherOption list \<Rightarrow> dispatcher" where
  "NewDispatcher opts = fold (\<lambda>opt d. opt d) opts \<lparr>dqueue = DefaultQueueName, dformat = FormatPHP\<rparr>"

datatype dispatch_error =
    ESerialize dispatch_error | EPhp encode_error | EJsonCommand | EMarshalPayload
  | EBuildChain dispatch_error | EInjectChain dispatch_error
  | EChainUnmarshal | EChainMarshal | EChainDecode decode_error | EChainNotObject | EDriverCall driver_error

record codec =
  other_json :: "any \<Rightarrow> json option"
  args_heap :: heap
  php_fuel :: nat

fun map_err :: "('e \<Rightarrow> 'f) \<Rightarrow> ('e, 'a) outcome \<Rightarrow> ('f, 'a) outcome" where
  "map_err f (Ok a) = Ok a"
| "map_err f (Err e) = Err (f e)"
| "map_err f (Panic p) = Panic p"
| "map_err f Fuel = Fuel"

section \<open>Commands\<close>

definition marshalCommandJSON :: "codec \<Rightarrow> string \<Rightarrow> any gomap \<Rightarrow> (dispatch_error, string) outcome" where
  "marshalCommandJSON cd jobName args =
     (let payload = fold (\<lambda>(k, v). AList.update k v) args [(''commandName'', VString jobName)]
      in case json_of_any (other_json cd) (VMap payload) of
           None \<Rightarrow> Err EJsonCommand
         | Some b \<Rightarrow> Ok (print_json b))"

definition marshalCommand :: "codec \<Rightarrow> dispatcher \<Rightarrow> string \<Rightarrow> any gomap \<Rightarrow> (dispatch_error, string) outcome" where
  "marshalCommand cd d jobName args =
     (case dformat d of
        FormatJSON \<Rightarrow> marshalCommandJSON cd jobName args
      | FormatPHP \<Rightarrow> map_err EPhp (MarshalObject (php_fuel cd) (args_heap cd) jobName args))"

section \<open>Chains\<close>

record chainedJob =
  CJob :: string
  CArgs :: "any gomap"

text \<open>\<open>json.Marshal(payload)\<close> with its error\<close>

definition marshal_or :: "codec \<Rightarrow> dispatch_error \<Rightarrow> laravelPayload \<Rightarrow> (dispatch_error, string) outcome" where
  "marshal_or cd e p = (case marshal_payload (other_json cd) p of None \<Rightarrow> Err e | Some s \<Rightarrow> Ok s)"

fun buildChainPayloads ::
  "codec \<Rightarrow> dispatcher \<Rightarrow> fresh list \<Rightarrow> chainedJob list \<Rightarrow> (dispatch_error, string list) outcome" where
  "buildChainPayloads cd d frs [] = Ok []"
| "buildChainPayloads cd d frs (cj # chain) =
     bind_ok (marshalCommand cd d (CJob cj) (CArgs cj)) (\<lambda>command.
     bind_ok (marshal_or cd EMarshalPayload (NewPayload (hd frs) (CJob cj) command [])) (\<lambda>data.
     map_ok ((#) data) (buildChainPayloads cd d (tl frs) chain)))"

text \<open>The decoded command is a fresh object, written to in place and encoded again.\<close>

definition injectChain :: "codec \<Rightarrow> dispatcher \<Rightarrow> string \<Rightarrow> string list \<Rightarrow> (dispatch_error, string) outcome" where
  "injectChain cd d command chain =
     (let chainStrs = VSlice (map VString chain)
      in case dformat d of
           FormatJSON \<Rightarrow>
             (case unmarshal_map command of
                None \<Rightarrow> Err EChainUnmarshal
              | Some None \<Rightarrow> Panic NilMapWrite
              | Some (Some obj) \<Rightarrow>
                  (case json_of_any (other_json cd) (VMap (AList.update ''chained'' chainStrs obj)) of
                     None \<Rightarrow> Err EChainMarshal
                   | Some b \<Rightarrow> Ok (print_json b)))
         | FormatPHP \<Rightarrow>
             bind_ok (map_err EChainDecode (Decode (php_fuel cd) command)) (\<lambda>(decoded, h).
               case decoded of
                 VObject p \<Rightarrow>
                   (case Option.bind p (get_obj h) of
                      None \<Rightarrow> Panic NilDeref
                    | Some ob \<Rightarrow>
                        map_err EPhp (Encode (php_fuel cd)
                          (h[the p := CObj (ob\<lparr>Properties := AList.update ''chained'' chainStrs (Properties ob)\<rparr>)])
                          decoded))
               | _ \<Rightarrow> Err EChainNotObject))"

section \<open>Dispatching\<close>

text \<open>Lift a computation without effects into the call, then go on.\<close>

definition before ::
  "('e, 'a) outcome \<Rightarrow> ('a \<Rightarrow> 's \<Rightarrow> ('e, 'b) outcome \<times> 's) \<Rightarrow> 's \<Rightarrow> ('e, 'b) outcome \<times> 's" where
  "before m f s = (case m of Ok a \<Rightarrow> f a s | Err e \<Rightarrow> (Err e, s) | Panic p \<Rightarrow> (Panic p, s) | Fuel \<Rightarrow> (Fuel, s))"

definition send :: "'s driver \<Rightarrow> string \<Rightarrow> int \<Rightarrow> string \<Rightarrow> 's \<Rightarrow> (dispatch_error, unit) outcome \<times> 's" where
  "send drv queue delay body s =
     (case (if 0 < delay then drv_later drv queue delay body s else drv_push drv queue body s) of
        (Inl e, s') \<Rightarrow> (Err (EDriverCall e), s')
      | (Inr _, s') \<Rightarrow> (Ok (), s'))"

definition dispatch ::
  "'s driver \<Rightarrow> codec \<Rightarrow> dispatcher \<Rightarrow> fresh \<Rightarrow> string \<Rightarrow> any gomap \<Rightarrow> int \<Rightarrow> payloadOption list \<Rightarrow>
   's \<Rightarrow> (dispatch_error, unit) outcome \<times> 's" where
  "dispatch drv cd d fr jobName args delay opts =
     before (map_err ESerialize (marshalCommand cd d jobName args)) (\<lambda>command.
     before (marshal_or cd EMarshalPayload (NewPayload fr jobName command opts)) (\<lambda>data.
     send drv (dqueue d) delay data))"

definition Dispatch where
  "Dispatch drv cd d fr jobName args opts = dispatch drv cd d fr jobName args 0 opts"

definition Dispatcher_Later where
  "Dispatcher_Later drv cd d fr delay jobName args opts = dispatch drv cd d fr jobName args delay opts"

record dispatchOptions =
  OJob :: string
  OQueue :: string
  ODelay :: int
  OMaxTries :: "int option"
  OMaxExceptions :: "int option"
  OFailOnTimeout :: bool
  OBackoff :: any
  OTimeout :: "int option"
  ORetryUntil :: "int option"
  OTags :: "string list"
  OUniqueFor :: int
  OArgs :: "any gomap"
  OChain :: "chainedJob list"

text \<open>The options that are set, in the order of the code.\<close>

definition opt_list :: "('a \<Rightarrow> payloadOption) \<Rightarrow> 'a option \<Rightarrow> payloadOption list" where
  "opt_list f x = (case x of None \<Rightarrow> [] | Some a \<Rightarrow> [f a])"

definition payload_opts :: "dispatchOptions \<Rightarrow> payloadOption list" where
  "payload_opts dopts =
     opt_list WithMaxTries (OMaxTries dopts) @ opt_list WithMaxExceptions (OMaxExceptions dopts) @
     (if OFailOnTimeout dopts then [WithFailOnTimeout True] else []) @
     (if OBackoff dopts \<noteq> VNil then [WithBackoff (OBackoff dopts)] else []) @
     opt_list WithTimeout (OTimeout dopts) @ opt_list WithRetryUntil (ORetryUntil dopts) @
     (if 0 < length (OTags dopts) then [WithTags (OTags dopts)] else [])"

text \<open>The first fresh value is the job's, the others are the chain's.\<close>

definition DispatchWithOptions ::
  "'s driver \<Rightarrow> codec \<Rightarrow> dispatcher \<Rightarrow> fresh list \<Rightarrow> dispatchOptions \<Rightarrow> 's \<Rightarrow>
   (dispatch_error, unit) outcome \<times> 's" where
  "DispatchWithOptions drv cd d frs dopts =
     before (map_err ESerialize (marshalCommand cd d (OJob dopts) (OArgs dopts))) (\<lambda>command.
       let payload = NewPayload (hd frs) (OJob dopts) command (payload_opts dopts) in
       before (if 0 < length (OChain dopts)
               then bind_ok (map_err EBuildChain (buildChainPayloads cd d (tl frs) (OChain dopts))) (\<lambda>chain.
                    map_ok (\<lambda>c. payload\<lparr>Data := (Data payload)\<lparr>Command := c\<rparr>\<rparr>)
                      (map_err EInjectChain (injectChain cd d (Command (Data payload)) chain)))
               else Ok payload) (\<lambda>payload.
       before (marshal_or cd EMarshalPayload payload) (\<lambda>data.
       send drv (if OQueue dopts = [] then dqueue d else OQueue dopts) (ODelay dopts) data)))"

end
