(* ===== verification/Php_Typing.thy ===== *)
theory Php_Typing
  imports Php_Safety
begin

text \<open>
  What the decoder can build, on any input: values of eight dynamic types only, pointers
  that are never nil and always point to a cell of their kind, arrays with one value per
  key and keys that are integers or strings, property maps with distinct names. The proof
  is an invariant of the decoder's state (heap and reference table) kept by every method,
  in the style of a Hoare logic for the methods.
\<close>

section \<open>Typed values and heaps\<close>

fun typed :: "heap \<Rightarrow> any \<Rightarrow> bool" where
  "typed h (VObject p) = (case p of None \<Rightarrow> False | Some a \<Rightarrow> has_obj a h)"
| "typed h (VArray p) = (case p of None \<Rightarrow> False | Some a \<Rightarrow> has_arr a h)"
| "typed h (VEnum e) = (e \<noteq> None)"
| "typed h v = (case v of VNil \<Rightarrow> True | VBool _ \<Rightarrow> True | VInt64 _ \<Rightarrow> True | VFloat64 _ \<Rightarrow> True
     | VString _ \<Rightarrow> True | _ \<Rightarrow> False)"

definition is_key :: "any \<Rightarrow> bool" where
  "is_key v \<longleftrightarrow> (\<exists>n. v = VInt64 n) \<or> (\<exists>s. v = VString s)"

definition typed_arr :: "heap \<Rightarrow> arrayT \<Rightarrow> bool" where
  "typed_arr h ar \<longleftrightarrow>
     length (Keys ar) = length (Values ar) \<and> (\<forall>k \<in> set (Keys ar). is_key k) \<and> (\<forall>v \<in> set (Values ar). typed h v)"

definition typed_obj :: "heap \<Rightarrow> objectT \<Rightarrow> bool" where
  "typed_obj h ob \<longleftrightarrow> wf_map (Properties ob) \<and> (\<forall>(k, v) \<in> set (Properties ob). typed h v)"

definition typed_heap :: "heap \<Rightarrow> bool" where
  "typed_heap h \<longleftrightarrow> (\<forall>c \<in> set h. case c of CArr ar \<Rightarrow> typed_arr h ar | CObj ob \<Rightarrow> typed_obj h ob)"

definition typed_decoder :: "decoder \<Rightarrow> bool" where
  "typed_decoder d \<longleftrightarrow> typed_heap (hp d) \<and> (\<forall>v \<in> set (refs d). typed (hp d) v)"

lemma typed_mono:
  assumes "hext h h'" "typed h v"
  shows "typed h' v"
proof -
  have "has_obj a h'" if "has_obj a h" for a using kept_has_obj [of a] assms(1) that by (auto simp: kept_def)
  moreover have "has_arr a h'" if "has_arr a h" for a using kept_has_arr [of a] assms(1) that by (auto simp: kept_def)
  ultimately show ?thesis using assms(2) by (cases v) (auto split: option.splits)
qed

lemma typed_cells_mono:
  "hext h h' \<Longrightarrow> typed_arr h ar \<Longrightarrow> typed_arr h' ar" "hext h h' \<Longrightarrow> typed_obj h ob \<Longrightarrow> typed_obj h' ob"
  by (auto simp: typed_arr_def typed_obj_def intro: typed_mono)

lemma typed_heap_set:
  assumes "typed_heap h" "hext h h'" "set h' \<subseteq> insert c (set h)"
    "case c of CArr ar \<Rightarrow> typed_arr h' ar | CObj ob \<Rightarrow> typed_obj h' ob"
  shows "typed_heap h'"
  unfolding typed_heap_def
proof
  fix x assume "x \<in> set h'"
  with assms(3) consider "x = c" | "x \<in> set h" by auto
  then show "case x of CArr ar \<Rightarrow> typed_arr h' ar | CObj ob \<Rightarrow> typed_obj h' ob"
    using assms(1,2,4) typed_cells_mono
    by cases (auto simp: typed_heap_def split: cell.splits dest!: bspec)
qed

section \<open>Methods that keep the types\<close>

definition tym :: "(heap \<Rightarrow> bool) \<Rightarrow> 'a dm \<Rightarrow> ('a \<Rightarrow> heap \<Rightarrow> bool) \<Rightarrow> bool" where
  "tym P m Q \<longleftrightarrow>
     (\<forall>d r d'. typed_decoder d \<longrightarrow> P (hp d) \<longrightarrow> m d = (r, d') \<longrightarrow>
        typed_decoder d' \<and> hext (hp d) (hp d') \<and> (\<forall>a. r = Ok a \<longrightarrow> Q a (hp d')))"

named_theorems tym_rules \<open>rules of the typing judgement\<close>

lemma tymD:
  assumes "tym P m Q" "typed_decoder d" "P (hp d)" "m d = (r, d')"
  shows "typed_decoder d'" "hext (hp d) (hp d')" "r = Ok a \<Longrightarrow> Q a (hp d')"
  using assms unfolding tym_def by blast+

lemma tym_bind [tym_rules]:
  assumes "tym P m Q" "kept P" "\<And>a. tym (\<lambda>h. P h \<and> Q a h) (f a) R"
  shows "tym P (dbind m f) R"
  unfolding tym_def
proof (intro allI impI)
  fix d r d' assume d: "typed_decoder d" "P (hp d)" "dbind m f d = (r, d')"
  obtain r1 d1 where m: "m d = (r1, d1)" by fastforce
  note s = tymD [OF assms(1) d(1,2) m]
  show "typed_decoder d' \<and> hext (hp d) (hp d') \<and> (\<forall>a. r = Ok a \<longrightarrow> R a (hp d'))"
  proof (cases r1)
    case (Ok a)
    then have f: "f a d1 = (r, d')" using d(3) m by (simp add: dbind_def)
    have "P (hp d1)" using assms(2) s(2) d(2) by (auto simp: kept_def)
    with tymD [OF assms(3) s(1) _ f] s Ok hext_trans show ?thesis by blast
  qed (use d(3) m s in \<open>auto simp: dbind_def\<close>)
qed

lemma tym_weaken: "tym P m Q \<Longrightarrow> (\<And>h. P' h \<Longrightarrow> P h) \<Longrightarrow> (\<And>a h. Q a h \<Longrightarrow> Q' a h) \<Longrightarrow> tym P' m Q'"
  unfolding tym_def by blast

lemma tym_dret [tym_rules]: "(\<And>h. P h \<Longrightarrow> Q a h) \<Longrightarrow> tym P (dret a) Q"
  by (auto simp: tym_def dret_def)

lemma tym_dfail [tym_rules]: "tym P (dfail e) Q"
  by (auto simp: tym_def dfail_def)

lemma tym_dwrap [tym_rules]: "tym P m Q \<Longrightarrow> tym P (dwrap w m) Q"
  unfolding tym_def dwrap_def by (fastforce split: prod.splits outcome.splits)

lemma tym_push_ref [tym_rules]: "(\<And>h. P h \<Longrightarrow> typed h v) \<Longrightarrow> tym P (push_ref v) (\<lambda>_ _. True)"
  by (auto simp: tym_def push_ref_def typed_decoder_def)

text \<open>Methods that only move the cursor.\<close>

definition moves :: "'a dm \<Rightarrow> bool" where
  "moves m \<longleftrightarrow> (\<forall>d. hp (snd (m d)) = hp d \<and> refs (snd (m d)) = refs d)"

lemma tym_moves [tym_rules]: "moves m \<Longrightarrow> tym P m (\<lambda>_ _. True)"
  unfolding moves_def tym_def typed_decoder_def by (metis hext_refl snd_conv)

lemma moves_bind: "moves m \<Longrightarrow> (\<And>a. moves (f a)) \<Longrightarrow> moves (dbind m f)"
  unfolding moves_def dbind_def by (auto split: prod.splits outcome.splits) (metis snd_conv)+

lemma moves_basic [simp, intro]:
  "moves (skip n)" "moves (expect s)" "moves (readUntil c)" "moves (readBytes e n)" "moves (dret a)" "moves (dfail e)"
  "moves (make_slice_cap n)"
  by (auto simp: moves_def skip_def expect_def readUntil_def readBytes_def dret_def dfail_def make_slice_cap_def Let_def
      split: option.splits)

lemma moves_require [simp, intro]: "moves (require msg s)"
  unfolding require_def by (intro moves_bind) auto

lemma moves_readLength [simp, intro]: "moves readLength"
  unfolding readLength_def by (intro moves_bind) (auto split: sum.splits)

lemma kept_conj [simp, intro]: "kept P \<Longrightarrow> kept Q \<Longrightarrow> kept (\<lambda>h. P h \<and> Q h)"
  by (auto simp: kept_def)

lemma kept_typed [simp, intro]: "kept (\<lambda>h. typed h v)"
  using typed_mono by (auto simp: kept_def)

lemma kept_const [simp, intro]: "kept (\<lambda>h. b)"
  by (simp add: kept_def)

abbreviation tyval :: "any \<Rightarrow> heap \<Rightarrow> bool" where "tyval v h \<equiv> typed h v"

text \<open>The rules for a method in front of the rest; \<open>P\<close> is not disturbed by a move of the cursor.\<close>

lemma tym_moves_then [tym_rules]:
  assumes "moves m" "\<And>a. tym P (f a) R"
  shows "tym P (dbind m f) R"
  unfolding tym_def
proof (intro allI impI)
  fix d r d' assume d: "typed_decoder d" "P (hp d)" "dbind m f d = (r, d')"
  obtain r1 d1 where m: "m d = (r1, d1)" by fastforce
  with assms(1) have hp: "hp d1 = hp d" "refs d1 = refs d" unfolding moves_def by (metis snd_conv)+
  then have d1: "typed_decoder d1" "P (hp d1)" using d by (simp_all add: typed_decoder_def)
  show "typed_decoder d' \<and> hext (hp d) (hp d') \<and> (\<forall>a. r = Ok a \<longrightarrow> R a (hp d'))"
  proof (cases r1)
    case (Ok a)
    then have "f a d1 = (r, d')" using d(3) m by (simp add: dbind_def)
    from tymD [OF assms(2) d1 this] hp show ?thesis by auto
  qed (use d(3) m d1 hp in \<open>auto simp: dbind_def\<close>)
qed

lemma tym_push_then [tym_rules]:
  assumes "\<And>h. P h \<Longrightarrow> typed h v" "tym P (f ()) R"
  shows "tym P (dbind (push_ref v) f) R"
  unfolding tym_def
proof (intro allI impI)
  fix d r d' assume d: "typed_decoder d" "P (hp d)" "dbind (push_ref v) f d = (r, d')"
  let ?d = "d\<lparr>refs := refs d @ [v]\<rparr>"
  have "typed_decoder ?d" "P (hp ?d)" using d(1,2) assms(1) by (auto simp: typed_decoder_def)
  moreover have "f () ?d = (r, d')" using d(3) by (simp add: dbind_def push_ref_def)
  ultimately show "typed_decoder d' \<and> hext (hp d) (hp d') \<and> (\<forall>a. r = Ok a \<longrightarrow> R a (hp d'))"
    using tymD [OF assms(2)] by fastforce
qed

lemma tym_sum [tym_rules]:
  "(\<And>e. tym P (f e) Q) \<Longrightarrow> (\<And>v. tym P (g v) Q) \<Longrightarrow> tym P (case x of Inl e \<Rightarrow> f e | Inr v \<Rightarrow> g v) Q"
  by (cases x) auto

lemma tym_option [tym_rules]:
  "tym P f Q \<Longrightarrow> (\<And>v. tym P (g v) Q) \<Longrightarrow> tym P (case x of None \<Rightarrow> f | Some v \<Rightarrow> g v) Q"
  by (cases x) auto

lemma tym_if: "tym P m Q \<Longrightarrow> tym P m' Q \<Longrightarrow> tym P (\<lambda>d. if b then m d else m' d) Q"
  by (cases b) simp_all

lemma tym_state:
  assumes "\<And>d0. tym P (f d0) Q"
  shows "tym P (\<lambda>d. f d d) Q"
  using assms unfolding tym_def by blast

lemma tym_fails: "tym P (\<lambda>d. (Err e, d)) Q" "tym P (\<lambda>d. (Panic p, d)) Q" "tym P (\<lambda>d. (Fuel, d)) Q"
  by (auto simp: tym_def)

section \<open>Scalars\<close>

lemma tym_readNull: "tym P readNull tyval"
  unfolding readNull_def by (intro tym_rules moves_require) auto

lemma tym_readInt: "tym P readInt (\<lambda>v h. is_key v \<and> typed h v)"
  unfolding readInt_def by (intro tym_rules moves_require moves_basic) (auto simp: is_key_def)

lemma tym_readFloat: "tym P readFloat tyval"
  unfolding readFloat_def by (intro tym_rules moves_require moves_basic) auto

lemma tym_readString: "tym P readString (\<lambda>_ _. True)"
  unfolding readString_def by (intro tym_rules moves_require moves_basic moves_readLength) auto

lemma tym_readEnum: "tym P readEnum tyval"
  unfolding readEnum_def Let_def by (intro tym_rules moves_require moves_basic moves_readLength) auto

lemma tym_readBool: "tym P readBool tyval"
proof -
  define m where "m = (\<lambda>val. dbind (skip 1) (\<lambda>_. dbind (require ''; after bool'' '';'') (\<lambda>_.
    dbind (push_ref (VBool val)) (\<lambda>_. dret (VBool val)))))"
  have m: "tym P (m val) tyval" for val
    unfolding m_def by (intro tym_rules moves_require moves_basic) auto
  have "tym P (\<lambda>d. if int (length (data d0)) \<le> pos d0 then (Err EEndBool, d)
      else if pos d0 < 0 then (Panic IndexRange, d) else m (data d0 ! nat (pos d0) = CHR ''1'') d) tyval" for d0
    by (intro tym_if tym_fails m)
  then have "tym P (\<lambda>d. if int (length (data d)) \<le> pos d then (Err EEndBool, d)
      else if pos d < 0 then (Panic IndexRange, d) else m (data d ! nat (pos d) = CHR ''1'') d) tyval"
    by (rule tym_state)
  then show ?thesis unfolding readBool_def Let_def m_def by (intro tym_moves_then moves_require)
qed

lemma tym_readReference: "tym P readReference tyval"
proof -
  have "tym P (\<lambda>d. if idx < 0 \<or> int (length (refs d)) \<le> idx then (Err (ERefRange (wrap64 (idx + 1))), d)
      else (Ok (refs d ! nat idx), d)) tyval" for idx
    by (auto simp: tym_def typed_decoder_def)
  then show ?thesis
    unfolding readReference_def Let_def by (intro tym_rules moves_require moves_basic) auto
qed

lemma tym_readArrayKey: "tym P readArrayKey (\<lambda>v h. is_key v \<and> typed h v)"
proof -
  have str: "tym P (dbind readString (\<lambda>s. dret (VString s))) (\<lambda>v h. is_key v \<and> typed h v)"
    by (rule tym_weaken [of "\<lambda>_. True", OF tym_bind [OF tym_readString]])
      (auto intro!: tym_dret simp: is_key_def)
  have "tym P (\<lambda>d. if int (length (data d0)) \<le> pos d0 then (Err EEndKey, d)
      else if pos d0 < 0 then (Panic IndexRange, d)
      else if data d0 ! nat (pos d0) = CHR ''i'' then readInt d
      else if data d0 ! nat (pos d0) = CHR ''s'' then dbind readString (\<lambda>s. dret (VString s)) d
      else (Err (EKeyType (data d0 ! nat (pos d0))), d)) (\<lambda>v h. is_key v \<and> typed h v)" for d0
    by (intro tym_if tym_fails str tym_readInt)
  then have "tym P (\<lambda>d. readArrayKey d) (\<lambda>v h. is_key v \<and> typed h v)"
    unfolding readArrayKey_def by (rule tym_state)
  then show ?thesis .
qed

section \<open>Containers\<close>

lemma tym_alloc:
  assumes "\<And>h. case c of CArr ar \<Rightarrow> typed_arr h ar | CObj ob \<Rightarrow> typed_obj h ob" "\<And>h. Q (length h) (h @ [c])"
  shows "tym P (new_cell c) Q"
  unfolding tym_def
proof (intro allI impI)
  fix d r d' assume d: "typed_decoder d" "new_cell c d = (r, d')"
  have d': "d' = d\<lparr>hp := hp d @ [c]\<rparr>" "r = Ok (length (hp d))" using d(2) by (auto simp: new_cell_def alloc_def)
  have "typed_heap (hp d @ [c])"
    using d(1) assms(1) [of "hp d @ [c]"] typed_heap_set [of "hp d" "hp d @ [c]" c]
    by (simp add: typed_decoder_def)
  moreover have "\<forall>v \<in> set (refs d). typed (hp d @ [c]) v"
    using d(1) typed_mono [OF hext_append] by (auto simp: typed_decoder_def)
  ultimately show "typed_decoder d' \<and> hext (hp d) (hp d') \<and> (\<forall>a. r = Ok a \<longrightarrow> Q a (hp d'))"
    using assms(2) by (simp add: d' typed_decoder_def)
qed

lemma tym_new_cell:
  "tym P (new_cell (CArr \<lparr>Keys = [], Values = []\<rparr>)) has_arr"
  "tym P (new_cell (CObj \<lparr>ObjClassName = n, Properties = []\<rparr>)) has_obj"
  by (rule tym_alloc; simp add: typed_arr_def typed_obj_def has_arr_def has_obj_def get_arr_def get_obj_def)+

lemma set_update_insert: "set (AList.update k v m) \<subseteq> insert (k, v) (set m)"
  by (induction m) auto

lemma get_cells: "get_arr h a = Some ar \<Longrightarrow> a < length h \<and> h ! a = CArr ar"
  "get_obj h a = Some ob \<Longrightarrow> a < length h \<and> h ! a = CObj ob"
  by (auto simp: get_arr_def get_obj_def split: if_splits cell.splits)

lemma typed_decoder_update:
  assumes "typed_decoder d" "hext (hp d) ((hp d)[a := c])"
    "case c of CArr ar \<Rightarrow> typed_arr ((hp d)[a := c]) ar | CObj ob \<Rightarrow> typed_obj ((hp d)[a := c]) ob"
  shows "typed_decoder (d\<lparr>hp := (hp d)[a := c]\<rparr>)"
  using assms typed_heap_set [OF _ assms(2) set_update_subset_insert assms(3)] typed_mono [OF assms(2)]
  by (auto simp: typed_decoder_def)

lemma tym_append_entry:
  "tym (\<lambda>h. (P h \<and> is_key k \<and> typed h k) \<and> typed h v) (append_entry a k v) (\<lambda>_ _. True)"
  unfolding tym_def
proof (intro allI impI)
  fix d r d' assume d: "typed_decoder d" "(P (hp d) \<and> is_key k \<and> typed (hp d) k) \<and> typed (hp d) v" "append_entry a k v d = (r, d')"
  show "typed_decoder d' \<and> hext (hp d) (hp d') \<and> (\<forall>a. r = Ok a \<longrightarrow> True)"
  proof (cases "get_arr (hp d) a")
    case (Some ar)
    let ?c = "CArr \<lparr>Keys = Keys ar @ [k], Values = Values ar @ [v]\<rparr>"
    have x: "hext (hp d) ((hp d)[a := ?c])" using Some by (intro hext_update_arr) (simp add: has_arr_def)
    have "typed_arr (hp d) ar"
      using d(1) get_cells(1) [OF Some] nth_mem [of a "hp d"] by (fastforce simp: typed_decoder_def typed_heap_def)
    with typed_cells_mono(1) [OF x] typed_mono [OF x] d(2)
    have "typed_arr ((hp d)[a := ?c]) \<lparr>Keys = Keys ar @ [k], Values = Values ar @ [v]\<rparr>" by (auto simp: typed_arr_def)
    with typed_decoder_update [OF d(1) x] d(3) Some x show ?thesis by (auto simp: append_entry_def)
  qed (use d in \<open>auto simp: append_entry_def\<close>)
qed

lemma tym_set_prop:
  "tym (\<lambda>h. P h \<and> typed h v) (set_prop a k v) (\<lambda>_ _. True)"
  unfolding tym_def
proof (intro allI impI)
  fix d r d' assume d: "typed_decoder d" "P (hp d) \<and> typed (hp d) v" "set_prop a k v d = (r, d')"
  show "typed_decoder d' \<and> hext (hp d) (hp d') \<and> (\<forall>a. r = Ok a \<longrightarrow> True)"
  proof (cases "get_obj (hp d) a")
    case (Some ob)
    let ?ob = "ob\<lparr>Properties := AList.update k v (Properties ob)\<rparr>"
    have x: "hext (hp d) ((hp d)[a := CObj ?ob])" using Some by (intro hext_update_obj) (simp add: has_obj_def)
    have "typed_obj (hp d) ob"
      using d(1) get_cells(2) [OF Some] nth_mem [of a "hp d"] by (fastforce simp: typed_decoder_def typed_heap_def)
    with typed_cells_mono(2) [OF x] typed_mono [OF x] d(2) set_update_insert [of k v "Properties ob"]
    have "typed_obj ((hp d)[a := CObj ?ob]) ?ob" by (fastforce simp: typed_obj_def)
    with typed_decoder_update [OF d(1) x] d(3) Some x show ?thesis by (auto simp: set_prop_def)
  qed (use d in \<open>auto simp: set_prop_def\<close>)
qed

text \<open>The containers, given that the values inside them are typed.\<close>

lemma tym_array_loop:
  assumes "\<And>P. tym P rv tyval"
  shows "kept P \<Longrightarrow> tym P (array_loop rv a n i) (\<lambda>_ _. True)"
proof (induction n arbitrary: i)
  case (Suc n)
  have k: "kept (\<lambda>h. P h \<and> is_key k \<and> typed h k)" for k using Suc.prems by (intro kept_conj kept_const kept_typed)
  show ?case
    unfolding array_loop.simps
    by (rule tym_bind [OF tym_dwrap [OF tym_readArrayKey] Suc.prems],
        rule tym_bind [OF tym_dwrap [OF assms] k],
        rule tym_bind [OF tym_append_entry])
      (auto intro!: kept_conj k Suc.prems tym_weaken [OF Suc.IH [OF Suc.prems]])
qed (auto intro: tym_dret)

lemma tym_object_loop:
  assumes "\<And>P. tym P rv tyval"
  shows "kept P \<Longrightarrow> tym P (object_loop rv a n i) (\<lambda>_ _. True)"
proof (induction n arbitrary: i)
  case (Suc n)
  have k: "kept (\<lambda>h. P h \<and> True)" using Suc.prems by simp
  show ?case
    unfolding object_loop.simps Let_def
    by (rule tym_bind [OF tym_dwrap [OF tym_readString] Suc.prems],
        rule tym_bind [OF tym_dwrap [OF assms] k],
        rule tym_bind [OF tym_set_prop])
      (auto intro!: kept_conj Suc.prems tym_weaken [OF Suc.IH [OF Suc.prems]])
qed (auto intro: tym_dret)

lemma tym_readArray:
  assumes "\<And>P. tym P rv tyval"
  shows "tym P (readArray rv) tyval"
proof -
  have k: "kept (\<lambda>h. True \<and> has_arr a h)" for a by simp
  have core: "tym (\<lambda>h. True \<and> has_arr a h) (dbind (push_ref (VArray (Some a))) (\<lambda>_.
      dbind (array_loop rv a c 0) (\<lambda>_. dbind (require msg ''}'') (\<lambda>_. dret (VArray (Some a)))))) tyval" for a c msg
    by (rule tym_push_then, simp, rule tym_bind [OF _ k], rule tym_array_loop, rule assms, rule k)
      (auto intro!: tym_moves_then tym_dret)
  have "tym (\<lambda>_. True) (readArray rv) tyval"
    unfolding readArray_def
    by ((rule tym_moves_then, rule moves_require moves_readLength moves_basic)+, rule tym_bind [OF tym_new_cell(1) kept_True], rule core)
  then show ?thesis by (rule tym_weaken) auto
qed

lemma tym_readObject:
  assumes "\<And>P. tym P rv tyval"
  shows "tym P (readObject rv) tyval"
proof -
  have k: "kept (\<lambda>h. True \<and> has_obj a h)" for a by simp
  have core: "tym (\<lambda>h. True \<and> has_obj a h) (dbind (push_ref (VObject (Some a))) (\<lambda>_.
      dbind (object_loop rv a c 0) (\<lambda>_. dbind (require msg ''}'') (\<lambda>_. dret (VObject (Some a)))))) tyval" for a c msg
    by (rule tym_push_then, simp, rule tym_bind [OF _ k], rule tym_object_loop, rule assms, rule k)
      (auto intro!: tym_moves_then tym_dret)
  have "tym (\<lambda>_. True) (readObject rv) tyval"
    unfolding readObject_def
    by ((rule tym_moves_then, rule moves_require moves_readLength moves_basic)+, rule tym_bind [OF tym_new_cell(2) kept_True], rule core)
  then show ?thesis by (rule tym_weaken) auto
qed

lemma tym_readCustomObject: "tym P readCustomObject tyval"
proof -
  have sk: "moves (\<lambda>d. if beyond n d then dfail ECustomData d else skip n d)" for n
    by (auto simp: moves_def dfail_def skip_def)
  have "tym (\<lambda>_. True) readCustomObject tyval"
    unfolding readCustomObject_def
    by ((rule tym_moves_then, rule moves_require moves_readLength moves_basic sk)+, rule tym_bind [OF tym_new_cell(2) kept_True])
      (auto intro!: tym_push_then tym_dret)
  then show ?thesis by (rule tym_weaken) auto
qed

section \<open>The decoder\<close>

lemma tym_readValue: "tym P (readValue n) tyval"
proof (induction n arbitrary: P)
  case 0
  show ?case by (simp add: tym_fails)
next
  case (Suc n)
  have str: "tym P (dbind readString (\<lambda>s. dret (VString s))) tyval"
    by (rule tym_weaken [of "\<lambda>_. True", OF tym_bind [OF tym_readString]]) (auto intro!: tym_dret)
  have int: "tym P readInt tyval" by (rule tym_weaken [OF tym_readInt]) auto
  have "tym P (\<lambda>d. if int (length (data d0)) \<le> pos d0 then (Err EUnexpectedEnd, d)
     else if pos d0 < 0 then (Panic IndexRange, d)
     else if data d0 ! nat (pos d0) = CHR ''N'' then readNull d
     else if data d0 ! nat (pos d0) = CHR ''b'' then readBool d
     else if data d0 ! nat (pos d0) = CHR ''i'' then readInt d
     else if data d0 ! nat (pos d0) = CHR ''d'' then readFloat d
     else if data d0 ! nat (pos d0) = CHR ''s'' then dbind readString (\<lambda>s. dret (VString s)) d
     else if data d0 ! nat (pos d0) = CHR ''a'' then readArray (readValue n) d
     else if data d0 ! nat (pos d0) = CHR ''O'' then readObject (readValue n) d
     else if data d0 ! nat (pos d0) = CHR ''r'' \<or> data d0 ! nat (pos d0) = CHR ''R'' then readReference d
     else if data d0 ! nat (pos d0) = CHR ''C'' then readCustomObject d
     else if data d0 ! nat (pos d0) = CHR ''E'' then readEnum d
     else (Err (EUnknownType (data d0 ! nat (pos d0))), d)) tyval" for d0
    by (intro tym_if tym_fails tym_readNull tym_readBool int tym_readFloat str tym_readArray tym_readObject
        tym_readReference tym_readCustomObject tym_readEnum Suc.IH)
  then have "tym P (\<lambda>d. readValue (Suc n) d) tyval"
    unfolding readValue.simps Let_def by (rule tym_state)
  then show ?case .
qed

lemma Decode_typed:
  assumes "Decode n s = Ok (v, h)"
  shows "typed h v" "typed_heap h"
proof -
  obtain d where d: "readValue n (init_decoder s) = (Ok v, d)" "h = hp d"
    using assms by (auto simp: Decode_def split: prod.splits outcome.splits)
  have "typed_decoder (init_decoder s)" by (simp add: typed_decoder_def typed_heap_def init_decoder_def)
  from tymD [OF tym_readValue [of "\<lambda>_. True"] this _ d(1)] d(2) show "typed h v" "typed_heap h"
    by (auto simp: typed_decoder_def)
qed

text \<open>A typed value that stands for a scalar is that scalar, in the one Go type the decoder uses.\<close>

lemma typed_scalar:
  assumes "typed h v"
  shows "absv h n v = Some (PInt k) \<Longrightarrow> \<exists>w. v = VInt64 w \<and> sint w = k"
    "absv h n v = Some (PString s) \<Longrightarrow> v = VString s"
    "absv h n v = Some (PBool b) \<Longrightarrow> v = VBool b"
    "absv h n v = Some (PFloat f) \<Longrightarrow> v = VFloat64 f"
    "absv h n v = Some PNull \<Longrightarrow> v = VNil"
  using assms by (cases n; cases v; auto simp: abs_obj_def abs_arr_def split: option.splits if_splits)+

end
