(* ===== verification/Queue_Commands.thy ===== *)
theory Queue_Commands
  imports Queue_Dispatcher Php_Typing Php_Properties
begin

text \<open>
  What a worker sees of a command that a dispatcher wrote, in both formats: the properties
  of the decoded object, argument by argument, for arguments that are scalars.
\<close>

section \<open>Scalar arguments\<close>

fun scalar :: "any \<Rightarrow> bool" where
  "scalar VNil = True"
| "scalar (VBool b) = True"
| "scalar (VInt n) = exact_int n"
| "scalar (VString s) = valid_utf8 s"
| "scalar (VFloat64 f) = (wf_float f \<and> is_finite f \<and> positional f)"
| "scalar v = False"

text \<open>PHP's format carries every integer.\<close>

fun php_scalar :: "any \<Rightarrow> bool" where
  "php_scalar VNil = True"
| "php_scalar (VBool b) = True"
| "php_scalar (VInt n) = True"
| "php_scalar (VString s) = True"
| "php_scalar (VFloat64 f) = (wf_float f \<and> is_finite f)"
| "php_scalar v = False"

lemma scalar_php_scalar: "scalar v \<Longrightarrow> php_scalar v"
  by (cases v) simp_all

text \<open>The value a job holds after JSON and after PHP's format.\<close>

fun json_read :: "any \<Rightarrow> any" where
  "json_read (VInt n) = VFloat64 (float_of_int64 (sint n))"
| "json_read v = v"

fun php_read :: "any \<Rightarrow> any" where
  "php_read (VInt n) = VInt64 n"
| "php_read v = v"

fun scalar_tree :: "any \<Rightarrow> php" where
  "scalar_tree (VBool b) = PBool b"
| "scalar_tree (VInt n) = PInt (sint n)"
| "scalar_tree (VString s) = PString s"
| "scalar_tree (VFloat64 f) = PFloat f"
| "scalar_tree v = PNull"

lemma scalar_reads_back: "scalar v \<Longrightarrow> reads_back oth json_read v"
proof (cases v rule: scalar.cases)
  case (3 n)
  assume "scalar v"
  with 3 obtain f where "ParseFloat (FormatInt (sint n)) = Inr f" "float_of_int64 (sint n) = f"
    using int_through_float [of "sint n"] by (auto simp: exact_int_def)
  with 3 show ?thesis by (simp add: reads_back_def json_int_def maxNestingDepth_def)
next
  case (5 f)
  assume "scalar v"
  with 5 show ?thesis
    using valid_number_FormatFloat [of f] ParseFloat_FormatFloat [of f]
    by (simp add: reads_back_def json_float_def maxNestingDepth_def)
qed (simp_all add: reads_back_def valid_utf8_id maxNestingDepth_def)

lemma scalar_absv: "php_scalar v \<Longrightarrow> absv h (Suc n) v = Some (scalar_tree v)"
  by (cases v rule: php_scalar.cases) simp_all

lemma scalar_tree_good: "php_scalar v \<Longrightarrow> wf_php (scalar_tree v) \<and> stable (scalar_tree v)"
proof (cases v rule: php_scalar.cases)
  case (3 n)
  with sint_bounds_64 [of n] show ?thesis by simp
next
  case (5 f)
  assume "php_scalar v"
  with 5 finite_not_special(1) [of f] show ?thesis by (simp add: float_stable_def)
qed simp_all

lemma php_read_scalar:
  assumes "php_scalar v" "typed h w" "absv h n w = Some (scalar_tree v)"
  shows "w = php_read v"
proof (cases v rule: php_scalar.cases)
  case (3 k)
  with assms(3) typed_scalar(1) [OF assms(2), of n] show ?thesis by (auto simp: signed_word_eqI)
qed (use assms typed_scalar(2-5) [OF assms(2), of n] in auto)

section \<open>Commands in JSON\<close>

definition good_args :: "any gomap \<Rightarrow> bool" where
  "good_args args \<longleftrightarrow>
     wf_map args \<and> (\<forall>(k, v) \<in> set args. valid_utf8 k \<and> stripVisibility k = k \<and> scalar v \<and> k \<noteq> ''commandName'')"

definition json_args :: "(any \<Rightarrow> json option) \<Rightarrow> any gomap \<Rightarrow> bool" where
  "json_args oth args \<longleftrightarrow>
     wf_map args \<and> (\<forall>(k, v) \<in> set args. valid_utf8 k \<and> reads_back oth json_read v \<and> k \<noteq> ''commandName'')"

definition php_args :: "any gomap \<Rightarrow> bool" where
  "php_args args \<longleftrightarrow> wf_map args \<and> (\<forall>(k, v) \<in> set args. stripVisibility k = k \<and> php_scalar v)"

lemma good_args_formats: "good_args args \<Longrightarrow> json_args oth args \<and> php_args args"
  using scalar_reads_back scalar_php_scalar by (fastforce simp: good_args_def json_args_def php_args_def)

lemma decodeCommand_map:
  assumes "unmarshal_map command = Some (Some m)" "hd command = CHR ''{''" "command \<noteq> []"
    "map_of m ''commandName'' = Some (VString jobName)"
  shows "decodeCommand fuel command = Ok (([CObj \<lparr>ObjClassName = jobName, Properties = m\<rparr>], Some 0), FormatJSON)"
  using assms by (cases m) (simp_all add: decodeCommand_def decodeCommandJSON_def map_get_def stringFromAny_def)

lemma json_command:
  assumes "json_args (other_json cd) args" "valid_utf8 jobName"
  obtains command m where "marshalCommandJSON cd jobName args = Ok command"
    "decodeCommand fuel command = Ok (([CObj \<lparr>ObjClassName = jobName, Properties = m\<rparr>], Some 0), FormatJSON)"
    "\<And>k. k \<noteq> ''commandName'' \<Longrightarrow> map_of m k = map_option json_read (map_of args k)"
    "unmarshal_map command = Some (Some m)" "wf_map m" "map_of m ''commandName'' = Some (VString jobName)"
proof -
  let ?m = "fold (\<lambda>(k, v). AList.update k v) args [(''commandName'', VString jobName)]"
  have "?m = (''commandName'', VString jobName) # args"
    using assms(1) fold_update_fresh [of args "[(''commandName'', VString jobName)]"]
    by (force simp: json_args_def wf_map_def)
  then have m: "wf_map ?m" "set ?m = insert (''commandName'', VString jobName) (set args)"
    "\<And>k. k \<noteq> ''commandName'' \<Longrightarrow> map_of ?m k = map_of args k"
    "map_of ?m ''commandName'' = Some (VString jobName)"
    using assms(1) by (auto simp: json_args_def wf_map_def)
  have cn: "valid_utf8 ''commandName''" by (simp add: valid_utf8_def to_valid_names)
  have "valid_utf8 k \<and> reads_back (other_json cd) json_read v" if "(k, v) \<in> set ?m" for k v
    using that m(2) assms cn scalar_reads_back [of "VString jobName"]
    by (auto simp: json_args_def)
  from map_reads_back [OF m(1) this] obtain j where
    j: "json_of_any (other_json cd) (VMap ?m) = Some j"
      "unmarshal_map (print_json j) = Some (Some (map (\<lambda>(k, v). (k, json_read v)) (sorted_entries ?m)))"
      "hd (print_json j) = CHR ''{''" "print_json j \<noteq> []"
    by blast
  let ?r = "map (\<lambda>(k, v). (k, json_read v)) (sorted_entries ?m)"
  have r: "map_of ?r k = map_option json_read (map_of ?m k)" for k
    using map_of_sorted_entries(1) [OF m(1)] by (simp add: map_of_map_snd)
  have cm: "map_of ?r ''commandName'' = Some (VString jobName)" using r [of "''commandName''"] m(4) by simp
  have w: "wf_map ?r" using map_of_sorted_entries(2) [OF m(1)] by (simp add: wf_map_def comp_def case_prod_beta')
  have "marshalCommandJSON cd jobName args = Ok (print_json j)"
    using j(1) by (simp only: marshalCommandJSON_def Let_def option.simps)
  from that [OF this decodeCommand_map [OF j(2-4) cm] _ j(2) w cm] r m(3) show thesis by simp
qed

section \<open>Commands in PHP's format\<close>

lemma abs_entries_map_of:
  assumes "abs_entries ab m = Some es" "wf_map m"
  shows "rel_option (\<lambda>v t. ab v = Some t) (map_of m k) (map_of es k)"
proof -
  have "list_all2 (\<lambda>(k, v) (k', t). k = k' \<and> ab v = Some t) (sorted_entries m) es"
    using assms(1) unfolding abs_entries_def those_map_Some_iff by (rule list.rel_mono_strong) auto
  then have "ents ab (sorted_entries m) es" by (simp add: ents_def)
  from ents_map_of [OF this, of k] map_of_sorted_entries(1) [OF assms(2)] show ?thesis by simp
qed

text \<open>\<open>carries n t v\<close>: in every heap \<open>v\<close> stands for \<open>t\<close>, a tree that the format gives back.\<close>

definition carries :: "nat \<Rightarrow> php \<Rightarrow> any \<Rightarrow> bool" where
  "carries n t v \<longleftrightarrow> (\<forall>h. absv h n v = Some t) \<and> wf_php t \<and> stable t"

lemma carries_scalar: "php_scalar v \<Longrightarrow> carries (Suc n) (scalar_tree v) v"
  by (simp add: carries_def scalar_absv scalar_tree_good del: absv.simps)

lemma object_tree:
  assumes "wf_map m" "\<And>k v. (k, v) \<in> set m \<Longrightarrow> stripVisibility k = k \<and> carries n (g v) v"
  defines "es \<equiv> map (\<lambda>(k, v). (k, g v)) (sorted_entries m)"
  shows "abs_obj (absv h n) \<lparr>ObjClassName = c, Properties = m\<rparr> = Some (PObj c es)" "wf_php (PObj c es)" "stable (PObj c es)"
    "map_of es k = map_option g (map_of m k)"
proof -
  have sub: "(k, v) \<in> set m" if "(k, v) \<in> set (sorted_entries m)" for k v
    using that map_of_sorted_entries [OF assms(1)] by (metis map_of_SomeD map_of_is_SomeI)
  have arg: "stripVisibility k = k" "absv h n v = Some (g v)" "wf_php (g v)" "stable (g v)"
    if "(k, v) \<in> set (sorted_entries m)" for k v
    using assms(2) [OF sub [OF that]] by (auto simp: carries_def)
  show "abs_obj (absv h n) \<lparr>ObjClassName = c, Properties = m\<rparr> = Some (PObj c es)"
  proof -
    have "those (map (\<lambda>(k, v). map_option (Pair k) (absv h n v)) (sorted_entries m)) = Some es"
      unfolding es_def using arg(2) by (intro those_map_Some) (auto split: prod.splits)
    then show ?thesis by (simp add: abs_obj_def abs_entries_def)
  qed
  have es: "wf_php t" "stripVisibility k = k" "stable t" if "(k, t) \<in> set es" for k t
    using that arg by (auto simp: es_def)
  show "wf_php (PObj c es)" using es(1) by auto
  have "map fst es = sort (map fst m)" by (simp add: es_def comp_def case_prod_beta')
  moreover have "\<forall>(k, t) \<in> set es. stripVisibility k = k \<and> stable t" using es(2,3) by blast
  ultimately show "stable (PObj c es)" using assms(1) by (simp add: wf_map_def)
  show "map_of es k = map_option g (map_of m k)"
    using map_of_sorted_entries(1) [OF assms(1)] by (simp add: es_def map_of_map_snd)
qed

lemma php_command_tree:
  fixes jobName :: string
  assumes "php_args args"
  defines "t \<equiv> PObj jobName (map (\<lambda>(k, v). (k, scalar_tree v)) (sorted_entries args))"
  shows "absv (h @ [CObj \<lparr>ObjClassName = jobName, Properties = args\<rparr>]) (Suc (Suc n)) (VObject (Some (length h))) = Some t"
    "wf_php t" "stable t"
proof -
  have w: "wf_map args" using assms(1) by (simp add: php_args_def)
  have c: "stripVisibility k = k \<and> carries (Suc n) (scalar_tree v) v" if "(k, v) \<in> set args" for k v
    using assms(1) that carries_scalar by (auto simp: php_args_def)
  note t = object_tree [OF w c]
  show "absv (h @ [CObj \<lparr>ObjClassName = jobName, Properties = args\<rparr>]) (Suc (Suc n)) (VObject (Some (length h))) = Some t"
    by (subst absv.simps(2)) (simp add: get_obj_def t_def t(1) del: absv.simps)
  show "wf_php t" "stable t" using t(2,3) by (simp_all only: t_def)
qed

text \<open>The object that the text of a tree is decoded to.\<close>

lemma decode_object:
  assumes "wf_php (PObj c es)" "stable (PObj c es)" "depth (PObj c es) < Suc n" "go_len (ser (PObj c es))"
  obtains h a ob where "Decode (Suc n) (ser (PObj c es)) = Ok (VObject (Some a), h)"
    "get_obj h a = Some ob" "ObjClassName ob = c" "typed_heap h" "typed_obj h ob"
    "abs_entries (absv h n) (Properties ob) = Some es"
proof -
  obtain v h where v: "Decode (Suc n) (ser (PObj c es)) = Ok (v, h)" "absv h (Suc n) v = Some (PObj c es)"
    using Decode_ser [OF assms(1,3), of "[]"] assms(4) norm_stable [OF assms(2)] by auto
  note ty = Decode_typed [OF v(1)]
  obtain a ob where a: "v = VObject (Some a)" "get_obj h a = Some ob" "abs_obj (absv h n) ob = Some (PObj c es)"
    using v(2) ty(1)
    by (cases v) (auto simp: abs_arr_def abs_list_def abs_map_def simp del: absv.simps simp: absv.simps(2) [of h n]
        split: option.splits if_splits bind_splits)
  have "typed_obj h ob" using ty(2) get_cells(2) [OF a(2)] nth_mem [of a h] by (fastforce simp: typed_heap_def)
  with that a v(1) ty(2) show thesis by (auto simp: abs_obj_def)
qed

lemma decodeCommand_object:
  assumes "Decode n (ser (PObj c es)) = Ok (VObject (Some a), h)"
  shows "decodeCommand n (ser (PObj c es)) = Ok ((h, Some a), FormatPHP)"
  using assms by (simp add: decodeCommand_def)

text \<open>A scalar property is read back as what PHP's format makes of it.\<close>

lemma read_scalar_entry:
  assumes "abs_entries (absv h n) (Properties ob) = Some es" "typed_obj h ob" "map_of es k = Some (scalar_tree x)" "php_scalar x"
  shows "map_of (Properties ob) k = Some (php_read x)"
proof -
  obtain w where w: "map_of (Properties ob) k = Some w" "absv h n w = Some (scalar_tree x)"
    using abs_entries_map_of [OF assms(1), of k] assms(2,3) by (cases "map_of (Properties ob) k") (auto simp: typed_obj_def)
  have "typed h w" using assms(2) map_of_SomeD [OF w(1)] by (auto simp: typed_obj_def)
  with w assms(4) php_read_scalar show ?thesis by simp
qed

lemma absent_entry:
  assumes "abs_entries ab (Properties ob) = Some es" "typed_obj h ob" "map_of es k = None"
  shows "map_of (Properties ob) k = None"
  using abs_entries_map_of [OF assms(1), of k] assms(2,3) by (cases "map_of (Properties ob) k") (auto simp: typed_obj_def)

lemma php_command:
  assumes args: "php_args args" and fuel: "2 \<le> php_fuel cd"
    and enc: "MarshalObject (php_fuel cd) (args_heap cd) jobName args = Ok command" and len: "go_len command"
  obtains h a ob where "command = ser (PObj jobName (map (\<lambda>(k, v). (k, scalar_tree v)) (sorted_entries args)))"
    "Decode (php_fuel cd) command = Ok (VObject (Some a), h)" "typed_heap h" "typed_obj h ob"
    "decodeCommand (php_fuel cd) command = Ok ((h, Some a), FormatPHP)"
    "get_obj h a = Some ob" "ObjClassName ob = jobName"
    "\<And>k. map_of (Properties ob) k = map_option php_read (map_of args k)"
proof -
  obtain n where n: "php_fuel cd = Suc (Suc n)" using fuel by (metis add_2_eq_Suc le_Suc_ex)
  let ?es = "map (\<lambda>(k, v). (k, scalar_tree v)) (sorted_entries args)"
  note t = php_command_tree(1) [where h = "args_heap cd" and jobName = jobName and n = n, OF args]
    php_command_tree(2,3) [where jobName = jobName, OF args]
  have c: "command = ser (PObj jobName ?es)"
    using enc t(1) by (simp add: MarshalObject_def alloc_def Encode_iff n del: absv.simps)
  have "depth (PObj jobName ?es) < Suc (Suc n)"
    using below_absv [of "Suc (Suc n)"] t(1) unfolding below_def by (metis option.simps(5))
  from decode_object [OF t(2,3) this len [unfolded c]] obtain h a ob where
    d: "Decode (Suc (Suc n)) (ser (PObj jobName ?es)) = Ok (VObject (Some a), h)" "get_obj h a = Some ob"
      "ObjClassName ob = jobName" "typed_heap h" "typed_obj h ob" "abs_entries (absv h (Suc n)) (Properties ob) = Some ?es"
    by blast
  have w: "wf_map args" using args by (simp add: php_args_def)
  have es: "map_of ?es k = map_option scalar_tree (map_of args k)" for k
    using map_of_sorted_entries(1) [OF w] by (simp add: map_of_map_snd)
  have "map_of (Properties ob) k = map_option php_read (map_of args k)" for k
  proof (cases "map_of args k")
    case (Some x)
    then have "php_scalar x" using args map_of_SomeD [OF Some] by (auto simp: php_args_def)
    with Some es read_scalar_entry [OF d(6,5), of k x] show ?thesis by simp
  next
    case None
    with es absent_entry [OF d(6,5), of k] show ?thesis by simp
  qed
  with that [OF c _ d(4,5) _ d(2,3)] d(1) decodeCommand_object [OF d(1)] show thesis by (simp add: c n)
qed

end
