(* ===== verification/Queue_Job_Properties.thy ===== *)
theory Queue_Job_Properties
  imports Queue_Commands Queue_Properties
begin

text \<open>
  The properties of payloads, jobs and the dispatcher: what travels through JSON and Redis
  comes back, whichever format the command has, and what a release does to the queue.
\<close>

section \<open>Payloads\<close>

lemma backoff_of: "p\<lparr>Backoff := Backoff p\<rparr> = p" for p :: laravelPayload
  by simp

lemma marshal_plain:
  assumes "wf_payload p" "plain_backoff (Backoff p)"
  obtains body w where "marshal_payload oth p = Some body" "unmarshal_payload body = Some (p\<lparr>Backoff := w\<rparr>)"
    "\<And>a. BackoffSeconds (p\<lparr>Backoff := w\<rparr>) a = BackoffSeconds p a"
proof -
  obtain b w where b: "json_of_any oth (Backoff p) = Some b" "wf_json b" "jdepth b \<le> 1" "any_of_json (jvalid b) = Some w"
    and s: "\<And>q a. BackoffSeconds (q\<lparr>Backoff := w\<rparr>) a = BackoffSeconds (q\<lparr>Backoff := Backoff p\<rparr>) a"
    using plain_backoff_json [OF assms(2)] by metis
  have "jdepth b < maxNestingDepth" using b(3) by (simp add: maxNestingDepth_def)
  from unmarshal_marshal [OF assms(1) b(1,2) this b(4)] that s [of p] show thesis by auto
qed

text \<open>
  A payload survives the queue. The job that a worker parses from a marshalled payload has
  the payload's fields, and although the backoff has changed its Go type on the way, it
  gives the same seconds for every attempt.
\<close>

theorem ParseJob_marshal:
  assumes "wf_payload p" "plain_backoff (Backoff p)"
    "decodeCommand fuel (Command (Data p)) = Ok ((h, obj), fmt)"
  shows "\<exists>body w. marshal_payload oth p = Some body \<and>
    (\<forall>q t. ParseJob fuel \<lparr>Body = body, Queue = q, ReservedUntil = t\<rparr> =
       Ok \<lparr>jraw = \<lparr>Body = body, Queue = q, ReservedUntil = t\<rparr>, jpayload = p\<lparr>Backoff := w\<rparr>, jheap = h, jdata = obj,
            jformat = fmt\<rparr>) \<and>
    (\<forall>a. BackoffSeconds (p\<lparr>Backoff := w\<rparr>) a = BackoffSeconds p a)"
proof -
  obtain body w where "marshal_payload oth p = Some body" "unmarshal_payload body = Some (p\<lparr>Backoff := w\<rparr>)"
    "\<And>a. BackoffSeconds (p\<lparr>Backoff := w\<rparr>) a = BackoffSeconds p a"
    using marshal_plain [OF assms(1,2)] by metis
  with assms(3) show ?thesis by (intro exI [of _ body] exI [of _ w]) (simp add: ParseJob_def)
qed

text \<open>A payload with a list of backoffs and a JSON command.\<close>

abbreviation ex_payload :: laravelPayload where
  "ex_payload \<equiv> zero_payload\<lparr>UUID := ''u'', DisplayName := ''Mail'', MaxTries := Some 3, Backoff := VInts [5, 30],
     Data := \<lparr>CommandName = ''Mail'', Command = []\<rparr>\<rparr>"

lemma ex_utf8: "valid_utf8 ''u''" "valid_utf8 ''Mail''" "valid_utf8 []" "valid_utf8 ''to''" "valid_utf8 ''a@b''" "valid_utf8 ''n''"
  by (simp_all add: valid_utf8_def) code_simp+

lemma wf_zero_time: "wf_float (F64 False 0 0)" "is_finite (F64 False 0 0)" "positional (F64 False 0 0)"
  by (simp_all add: wf_float_def is_finite_def positional_def funits_def)

lemma ex_payload_wf: "wf_payload ex_payload" "plain_backoff (Backoff ex_payload)"
proof -
  show "wf_payload ex_payload" by (simp add: wf_payload_def zero_payload_def ex_utf8 wf_zero_time int_ok_def)
  show "plain_backoff (Backoff ex_payload)" by (simp add: exact_int_def)
qed

theorem ParseJob_marshal_witness:
  "\<exists>body w. marshal_payload (\<lambda>_. None) ex_payload = Some body \<and>
     (\<exists>j. ParseJob 0 \<lparr>Body = body, Queue = ''default'', ReservedUntil = 0\<rparr> = Ok j \<and> MaxTries (jpayload j) = Some 3 \<and>
        BackoffSeconds (jpayload j) 2 = 30)"
proof -
  have "decodeCommand 0 (Command (Data ex_payload)) = Ok (([], None), FormatPHP)" by (simp add: decodeCommand_def)
  from ParseJob_marshal [OF ex_payload_wf this, of "\<lambda>_. None"] show ?thesis
    by (auto simp: BackoffSeconds_def backoff_index_def)
qed

section \<open>Accessors\<close>

text \<open>
  C26: the accessors of a job answer alike for both command formats. A job dispatched with
  scalar arguments (integers below \<open>2 ^ 53\<close>) in PHP's format and in JSON gives, for every
  argument and every absent key, the same string, integer, float and boolean, and no slice
  or map.
\<close>

theorem accessors_agree:
  assumes "good_args args" "valid_utf8 jobName" "2 \<le> php_fuel cd" "k \<noteq> ''commandName''"
    "marshalCommand cd \<lparr>dqueue = q, dformat = FormatPHP\<rparr> jobName args = Ok pc" "go_len pc"
    "marshalCommand cd \<lparr>dqueue = q, dformat = FormatJSON\<rparr> jobName args = Ok jc"
  shows "\<exists>ph po jh jo. decodeCommand (php_fuel cd) pc = Ok ((ph, po), FormatPHP) \<and>
    decodeCommand (php_fuel cd) jc = Ok ((jh, jo), FormatJSON) \<and>
    (\<forall>r p. let pj = \<lparr>jraw = r, jpayload = p, jheap = ph, jdata = po, jformat = FormatPHP\<rparr>;
               jj = \<lparr>jraw = r, jpayload = p, jheap = jh, jdata = jo, jformat = FormatJSON\<rparr>
           in Job_GetString pj k = (Job_GetString jj k :: (unit, string) outcome) \<and> Job_GetInt pj k = Job_GetInt jj k \<and>
              Job_GetFloat pj k = Job_GetFloat jj k \<and> Job_GetBool pj k = Job_GetBool jj k \<and>
              Job_GetSlice pj k = (Ok None :: (unit, _) outcome) \<and> Job_GetSlice jj k = (Ok None :: (unit, _) outcome) \<and>
              Job_GetMap pj k = (Ok None :: (unit, _) outcome) \<and> Job_GetMap jj k = (Ok None :: (unit, _) outcome))"
proof -
  have "MarshalObject (php_fuel cd) (args_heap cd) jobName args = Ok pc"
    using assms(5) by (cases "MarshalObject (php_fuel cd) (args_heap cd) jobName args") (simp_all add: marshalCommand_def)
  then obtain h a ob where php: "decodeCommand (php_fuel cd) pc = Ok ((h, Some a), FormatPHP)"
    "get_obj h a = Some ob" "\<And>k. map_of (Properties ob) k = map_option php_read (map_of args k)"
    using php_command [OF good_args_formats [THEN conjunct2, OF assms(1)] assms(3) _ assms(6)] by metis
  obtain m where json:
    "decodeCommand (php_fuel cd) jc = Ok (([CObj \<lparr>ObjClassName = jobName, Properties = m\<rparr>], Some 0), FormatJSON)"
    "map_of m k = map_option json_read (map_of args k)"
    using json_command [OF good_args_formats [THEN conjunct1, OF assms(1)] assms(2), of cd "php_fuel cd"] assms(4,7) by (auto simp: marshalCommand_def)
  let ?jh = "[CObj \<lparr>ObjClassName = jobName, Properties = m\<rparr>]"
  note defs = Job_GetString_def Job_GetInt_def Job_GetFloat_def Job_GetBool_def Job_GetSlice_def Job_GetMap_def
    GetString_def GetInt_def GetFloat_def GetBool_def GetSlice_def GetMap_def deref_def get_prop_def job_value_def job_prop_def
  have obs: "deref h (Some a) = Some ob" "deref ?jh (Some 0) = Some \<lparr>ObjClassName = jobName, Properties = m\<rparr>"
    using php(2) by (simp_all add: deref_def get_obj_def)
  have sc: "scalar v" if "map_of args k = Some v" for v
    using assms(1) map_of_SomeD [OF that] by (auto simp: good_args_def)
  have int: "int64_of_float (float_of_int64 (sint n)) = sint n" if "exact_int n" for n
    using int_through_float [of "sint n"] that by (auto simp: exact_int_def)
  show ?thesis
  proof (intro exI conjI allI)
    fix r p
    show "let pj = \<lparr>jraw = r, jpayload = p, jheap = h, jdata = Some a, jformat = FormatPHP\<rparr>;
        jj = \<lparr>jraw = r, jpayload = p, jheap = ?jh, jdata = Some 0, jformat = FormatJSON\<rparr>
      in Job_GetString pj k = (Job_GetString jj k :: (unit, string) outcome) \<and> Job_GetInt pj k = Job_GetInt jj k \<and>
         Job_GetFloat pj k = Job_GetFloat jj k \<and> Job_GetBool pj k = Job_GetBool jj k \<and>
         Job_GetSlice pj k = (Ok None :: (unit, _) outcome) \<and> Job_GetSlice jj k = (Ok None :: (unit, _) outcome) \<and>
         Job_GetMap pj k = (Ok None :: (unit, _) outcome) \<and> Job_GetMap jj k = (Ok None :: (unit, _) outcome)"
    proof (cases "map_of args k")
      case None
      then show ?thesis using php(3) [of k] json(2) obs by (simp add: defs)
    next
      case (Some v)
      then show ?thesis using php(3) [of k] json(2) obs sc [OF Some] int
        by (cases v rule: scalar.cases) (simp_all add: defs)
    qed
  qed (use php(1) json(1) in auto)
qed

abbreviation ex_codec :: codec where
  "ex_codec \<equiv> \<lparr>other_json = (\<lambda>_. None), args_heap = [], php_fuel = 2\<rparr>"

abbreviation ex_args :: "any gomap" where
  "ex_args \<equiv> [(''to'', VString ''a@b''), (''n'', VInt 7)]"

lemma ex_args_good: "good_args ex_args"
  by (simp add: good_args_def wf_map_def ex_utf8 stripVisibility_def NUL_def exact_int_def)

text \<open>The two texts of the example command.\<close>

abbreviation ex_php :: string where
  "ex_php \<equiv> ''O:4:'' @ [dq] @ ''Mail'' @ [dq] @ '':2:{s:1:'' @ [dq] @ ''n'' @ [dq] @ '';i:7;s:2:'' @ [dq] @ ''to'' @ [dq] @
     '';s:3:'' @ [dq] @ ''a@b'' @ [dq] @ '';}''"

abbreviation ex_json :: string where
  "ex_json \<equiv> ''{'' @ [dq] @ ''commandName'' @ [dq] @ '':'' @ [dq] @ ''Mail'' @ [dq] @ '','' @ [dq] @ ''n'' @ [dq] @ '':7,'' @
     [dq] @ ''to'' @ [dq] @ '':'' @ [dq] @ ''a@b'' @ [dq] @ ''}''"

lemma ex_commands:
  "marshalCommand ex_codec \<lparr>dqueue = ''default'', dformat = FormatPHP\<rparr> ''Mail'' ex_args = Ok ex_php"
  "marshalCommand ex_codec \<lparr>dqueue = ''default'', dformat = FormatJSON\<rparr> ''Mail'' ex_args = Ok ex_json"
  by code_simp+

theorem accessors_agree_witness:
  "\<exists>ph po jh jo. decodeCommand 2 ex_php = Ok ((ph, po), FormatPHP) \<and> decodeCommand 2 ex_json = Ok ((jh, jo), FormatJSON) \<and>
     Job_GetInt \<lparr>jraw = \<lparr>Body = [], Queue = [], ReservedUntil = 0\<rparr>, jpayload = zero_payload, jheap = ph, jdata = po,
       jformat = FormatPHP\<rparr> ''n'' =
     Job_GetInt \<lparr>jraw = \<lparr>Body = [], Queue = [], ReservedUntil = 0\<rparr>, jpayload = zero_payload, jheap = jh, jdata = jo,
       jformat = FormatJSON\<rparr> ''n''"
proof -
  have fuel: "2 \<le> php_fuel ex_codec" and key: "''n'' \<noteq> ''commandName''" and len: "go_len ex_php"
    by (simp_all add: go_len_def maxAlloc_def)
  from accessors_agree [OF ex_args_good ex_utf8(2) fuel key ex_commands(1) len ex_commands(2)] show ?thesis
    by (simp only: codec.simps Let_def) blast
qed

text \<open>An integer that JSON rounds, in both formats.\<close>

abbreviation large_args :: "any gomap" where
  "large_args \<equiv> [(''n'', VInt 9007199254740993)]"

lemma large_int: "sint (9007199254740993 :: int64) = 9007199254740993"
  by (simp add: signed_take_bit_int_eq_self)

lemma large_float: "int64_of_float (float_of_int64 9007199254740993) = 2 ^ 53"
    "ParseFloat (FormatInt 9007199254740993) = Inr (float_of_int64 9007199254740993)"
proof -
  have odd: "float_of_int64 9007199254740993 = F64 False 1076 0" using float_of_odd by simp
  have "funits (F64 False 1076 0) = 2 ^ 53 * 2 ^ unit_exp"
    by (simp add: funits_def unit_exp_def flip: power_add del: power_numeral)
  then show "int64_of_float (float_of_int64 9007199254740993) = 2 ^ 53"
    using odd by (simp add: int64_of_float_def is_finite_def)
  show "ParseFloat (FormatInt 9007199254740993) = Inr (float_of_int64 9007199254740993)"
    using odd by (auto simp: ParseFloat_FormatInt mk_float_def float_of_int64_def NaN_def split: option.splits)
qed

lemma large_formats: "json_args oth large_args" "php_args large_args"
proof -
  have "reads_back oth json_read (VInt 9007199254740993)"
    using large_float(2) by (simp add: reads_back_def json_int_def maxNestingDepth_def large_int)
  then show "json_args oth large_args" by (simp add: json_args_def wf_map_def ex_utf8)
  show "php_args large_args" by (simp add: php_args_def wf_map_def stripVisibility_def NUL_def)
qed

lemma large_json:
  obtains jc jh jo where "marshalCommand ex_codec \<lparr>dqueue = ''default'', dformat = FormatJSON\<rparr> ''A'' large_args = Ok jc"
    "decodeCommand 2 jc = Ok ((jh, jo), FormatJSON)"
    "\<And>r p. Job_GetInt \<lparr>jraw = r, jpayload = p, jheap = jh, jdata = jo, jformat = FormatJSON\<rparr> ''n'' = 2 ^ 53"
proof -
  have u: "valid_utf8 ''A''" by (simp add: valid_utf8_def) code_simp
  obtain jc m where m: "marshalCommandJSON ex_codec ''A'' large_args = Ok jc"
    "decodeCommand 2 jc = Ok (([CObj \<lparr>ObjClassName = ''A'', Properties = m\<rparr>], Some 0), FormatJSON)"
    "map_of m ''n'' = map_option json_read (map_of large_args ''n'')"
    by (rule json_command [OF large_formats(1) u, where cd = ex_codec and fuel = 2]) simp
  then have "Job_GetInt \<lparr>jraw = r, jpayload = p, jheap = [CObj \<lparr>ObjClassName = ''A'', Properties = m\<rparr>], jdata = Some 0,
      jformat = FormatJSON\<rparr> ''n'' = 2 ^ 53" for r p
    using large_float(1)
    by (simp add: Job_GetInt_def job_value_def job_prop_def deref_def get_obj_def large_int)
  with m that show thesis by (simp add: marshalCommand_def)
qed

lemma large_php:
  obtains pc ph po where "marshalCommand ex_codec \<lparr>dqueue = ''default'', dformat = FormatPHP\<rparr> ''A'' large_args = Ok pc"
    "decodeCommand 2 pc = Ok ((ph, po), FormatPHP)"
    "\<And>r p. Job_GetInt \<lparr>jraw = r, jpayload = p, jheap = ph, jdata = po, jformat = FormatPHP\<rparr> ''n'' = 9007199254740993"
proof -
  let ?t = "PObj ''A'' (map (\<lambda>(k, v). (k, scalar_tree v)) (sorted_entries large_args))"
  have enc: "MarshalObject 2 [] ''A'' large_args = Ok (ser ?t)"
    using php_command_tree(1) [OF large_formats(2), of "[]" "''A''" 0]
    by (simp add: MarshalObject_def alloc_def Encode_iff numeral_2_eq_2 del: absv.simps)
  have "?t = PObj ''A'' [(''n'', PInt 9007199254740993)]" by (simp add: sorted_entries_def large_int)
  moreover have "go_len (ser (PObj ''A'' [(''n'', PInt 9007199254740993)]))"
  proof -
    have "FormatInt 9007199254740993 = ''9007199254740993''" "FormatInt 1 = ''1''"
      by (simp_all add: FormatInt_def FormatUint.simps digit_char_def) code_simp+
    then show ?thesis by (simp add: go_len_def maxAlloc_def ser_str_def)
  qed
  ultimately have len: "go_len (ser ?t)" by simp
  obtain ph a ob where ob: "decodeCommand 2 (ser ?t) = Ok ((ph, Some a), FormatPHP)" "get_obj ph a = Some ob"
    "map_of (Properties ob) ''n'' = map_option php_read (map_of large_args ''n'')"
    by (rule php_command [OF large_formats(2), where cd = ex_codec and jobName = "''A''" and command = "ser ?t"])
      (use enc len in simp_all)
  then have "Job_GetInt \<lparr>jraw = r, jpayload = p, jheap = ph, jdata = Some a, jformat = FormatPHP\<rparr> ''n'' = 9007199254740993" for r p
    by (simp add: Job_GetInt_def deref_def GetInt_def get_prop_def)
  with ob(1) enc that show thesis by (simp add: marshalCommand_def)
qed

text \<open>
  C27: the agreement ends at \<open>2 ^ 53\<close>. A job dispatched with the integer argument \<open>9007199254740993\<close>,
  which is \<open>2 ^ 53 + 1\<close>, reads
  it back exactly from a command in PHP's format; from a command in JSON, which carries the
  number through a float, it reads \<open>2 ^ 53\<close>.
\<close>

theorem json_rounds_large_int:
  "\<exists>pc jc ph po jh jo.
     marshalCommand ex_codec \<lparr>dqueue = ''default'', dformat = FormatPHP\<rparr> ''A'' large_args = Ok pc \<and>
     marshalCommand ex_codec \<lparr>dqueue = ''default'', dformat = FormatJSON\<rparr> ''A'' large_args = Ok jc \<and>
     decodeCommand 2 pc = Ok ((ph, po), FormatPHP) \<and> decodeCommand 2 jc = Ok ((jh, jo), FormatJSON) \<and>
     (\<forall>r p. Job_GetInt \<lparr>jraw = r, jpayload = p, jheap = ph, jdata = po, jformat = FormatPHP\<rparr> ''n'' = 9007199254740993) \<and>
     (\<forall>r p. Job_GetInt \<lparr>jraw = r, jpayload = p, jheap = jh, jdata = jo, jformat = FormatJSON\<rparr> ''n'' = 2 ^ 53)"
proof -
  obtain pc ph po where php: "marshalCommand ex_codec \<lparr>dqueue = ''default'', dformat = FormatPHP\<rparr> ''A'' large_args = Ok pc"
    "decodeCommand 2 pc = Ok ((ph, po), FormatPHP)"
    "\<And>r p. Job_GetInt \<lparr>jraw = r, jpayload = p, jheap = ph, jdata = po, jformat = FormatPHP\<rparr> ''n'' = 9007199254740993"
    using large_php by blast
  obtain jc jh jo where json: "marshalCommand ex_codec \<lparr>dqueue = ''default'', dformat = FormatJSON\<rparr> ''A'' large_args = Ok jc"
    "decodeCommand 2 jc = Ok ((jh, jo), FormatJSON)"
    "\<And>r p. Job_GetInt \<lparr>jraw = r, jpayload = p, jheap = jh, jdata = jo, jformat = FormatJSON\<rparr> ''n'' = 2 ^ 53"
    using large_json by blast
  show ?thesis
    by (intro exI [of _ pc] exI [of _ jc] exI [of _ ph] exI [of _ po] exI [of _ jh] exI [of _ jo]) (simp add: php json)
qed

section \<open>Releasing a job\<close>

lemma zremove_other: "p \<in> snd ` set zs \<Longrightarrow> p \<noteq> b \<Longrightarrow> p \<in> snd ` set (zremove b zs)"
  by (auto simp: zremove_def)

text \<open>
  C28: a release leaves the old reservation behind. A job that was popped (its body is reserved)
  and is released is put into the delayed set under a body with one more attempt, but the
  script removes that new body from the reserved set: the old body stays reserved, so the
  queue then holds the job twice.
\<close>

theorem Release_leaves_reservation:
  assumes "redis_reliable cl view" "ParseJob fuel raw = Ok j" "redis_queue view (Queue raw) w = Some Q"
    "Body raw \<in> snd ` set (reserved Q)" "wf_payload (jpayload j)" "Attempts (jpayload j) < max_int64"
    "settled (Backoff (jpayload j))" "adepth (Backoff (jpayload j)) < maxNestingDepth"
  shows "\<exists>j' w' Q'. Job_Release (redis_driver cl) oth j delay w = (None, j', w') \<and>
    redis_queue view (Queue raw) w' = Some Q' \<and> Body (jraw j') \<noteq> Body raw \<and>
    Attempts (jpayload j') = Attempts (jpayload j) + 1 \<and>
    Body raw \<in> snd ` set (reserved Q') \<and> Body (jraw j') \<in> snd ` set (delayed Q')"
proof -
  let ?p = "(jpayload j)\<lparr>Attempts := wrap64 (Attempts (jpayload j) + 1)\<rparr>"
  have j: "jraw j = raw" "unmarshal_payload (Body raw) = Some (jpayload j)"
    using assms(2) by (auto simp: ParseJob_def split: option.splits)
  have w: "wrap64 (Attempts (jpayload j) + 1) = Attempts (jpayload j) + 1"
    using assms(5,6) by (intro wrap64_id) (simp_all add: wf_payload_def int_ok_def)
  have wf: "wf_payload ?p" using assms(5,6) w by (simp add: wf_payload_def int_ok_def)
  obtain b where "comes_back oth (Backoff ?p) b" using settled_comes_back assms(7) by fastforce
  then obtain body where body: "marshal_payload oth ?p = Some body" "unmarshal_payload body = Some ?p"
    using unmarshal_marshal [OF wf, of oth b "Backoff ?p"] assms(8) by (auto simp: comes_back_def)
  have ne: "body \<noteq> Body raw"
  proof
    assume "body = Body raw"
    with body(2) j(2) have "Attempts ?p = Attempts (jpayload j)" by simp
    with w show False by simp
  qed
  obtain j' w' t where r: "Job_Release (redis_driver cl) oth j delay w = (None, j', w')" "Body (jraw j') = body"
    "redis_queue view (Queue raw) w' = Some (q_release t body Q)"
    using driver_contract.Job_Release_step [OF redis_reliable.contract_holds [OF assms(1)]] assms(3) body(1) j(1) by metis
  moreover have "Attempts (jpayload j') = Attempts (jpayload j) + 1"
    using r(1) w body(1) by (auto simp: Job_Release_def Let_def split: prod.splits)
  ultimately show ?thesis
    using ne assms(4) zremove_other [of "Body raw" "reserved Q" body]
    by (auto simp: q_release_def zinsert_def set_insort_key intro!: exI)
qed

text \<open>A world with one job pushed and popped again.\<close>

abbreviation ex_world :: "store rworld" where
  "ex_world \<equiv> \<lparr>rdriver = ex_driver, rclock = (\<lambda>_. 0), rstore = Map.empty\<rparr>"

lemma ex_popped:
  obtains raw :: RawJob and w Q where "Body raw = body" "redis_queue id (Queue raw) w = Some Q" "body \<in> snd ` set (reserved Q)"
proof -
  have e: "redis_queue id ''default'' ex_world = Some q_empty" by (simp add: redis_queue_def list_zset_at_mem)
  obtain s1 where s1: "redis_queue id ''default'' s1 = Some (q_push body q_empty)"
    using mem.contract.push_law [OF e, of body] by blast
  from mem.contract.pop_law [OF s1] obtain r :: "RawJob option" and s2 Q1 t later where
    "redis_queue id ''default'' s2 = Some (snd (q_pop t Q1))" "map_option Body r = fst (q_pop t Q1)"
    "\<forall>j. r = Some j \<longrightarrow> Queue j = ''default''" "ready Q1 = ready (q_push body q_empty) @ later"
    by blast
  then show thesis
    by (intro that [of "the r" s2 "snd (q_pop t Q1)"]) (auto simp: q_push_def q_empty_def q_pop_def zinsert_def set_insort_key)
qed

theorem Release_leaves_reservation_witness:
  "\<exists>raw j w j' w' Q'. ParseJob 0 raw = Ok j \<and>
     Job_Release (redis_driver mem_client) (\<lambda>_. None) j 0 w = (None, j', w') \<and>
     redis_queue id (Queue raw) w' = Some Q' \<and> Body (jraw j') \<noteq> Body raw \<and>
     Body raw \<in> snd ` set (reserved Q') \<and> Body (jraw j') \<in> snd ` set (delayed Q')"
proof -
  let ?p = "ex_payload\<lparr>Backoff := VNil\<rparr>"
  have p: "wf_payload ?p" using ex_payload_wf(1) by (simp add: wf_payload_def)
  obtain body where body: "unmarshal_payload body = Some ?p"
    using unmarshal_marshal [OF p, of "\<lambda>_. None" JNull VNil] by (auto simp: maxNestingDepth_def)
  obtain raw :: RawJob and w Q where raw: "Body raw = body" "redis_queue id (Queue raw) w = Some Q" "body \<in> snd ` set (reserved Q)"
    using ex_popped [of body] by blast
  define j where "j = \<lparr>jraw = raw, jpayload = ?p, jheap = [], jdata = None, jformat = FormatPHP\<rparr>"
  have j: "ParseJob 0 raw = Ok j" by (simp add: ParseJob_def raw(1) body decodeCommand_def j_def)
  have "\<exists>j' w' Q'. Job_Release (redis_driver mem_client) (\<lambda>_. None) j 0 w = (None, j', w') \<and>
      redis_queue id (Queue raw) w' = Some Q' \<and> Body (jraw j') \<noteq> Body raw \<and>
      Attempts (jpayload j') = Attempts (jpayload j) + 1 \<and>
      Body raw \<in> snd ` set (reserved Q') \<and> Body (jraw j') \<in> snd ` set (delayed Q')"
    using p raw(1,3) by (intro Release_leaves_reservation [OF mem.redis_reliable_axioms j raw(2)])
      (simp_all add: j_def zero_payload_def maxNestingDepth_def)
  with j show ?thesis by blast
qed

section \<open>Dispatching\<close>

text \<open>
  A dispatched job is in the queue, ready at once or delayed, under a body from which
  every field of the payload that was built is read back, and nothing else has changed in
  the queue.
\<close>

theorem dispatched_job_arrives:
  assumes "redis_reliable cl view" "redis_queue view (dqueue d) w = Some Q"
    "marshalCommand cd d jobName args = Ok command" "p = NewPayload fr jobName command opts"
    "wf_payload p" "plain_backoff (Backoff p)"
  shows "\<exists>w' body b. dispatch (redis_driver cl) cd d fr jobName args delay opts w = (Ok (), w') \<and>
    unmarshal_payload body = Some (p\<lparr>Backoff := b\<rparr>) \<and>
    (\<forall>a. BackoffSeconds (p\<lparr>Backoff := b\<rparr>) a = BackoffSeconds p a) \<and>
    (delay \<le> 0 \<longrightarrow> redis_queue view (dqueue d) w' = Some (q_push body Q)) \<and>
    (0 < delay \<longrightarrow> (\<exists>t. redis_queue view (dqueue d) w' = Some (q_later t body Q)))"
proof -
  note contract = redis_reliable.contract_holds [OF assms(1)]
  obtain body b where body: "marshal_payload (other_json cd) p = Some body" "unmarshal_payload body = Some (p\<lparr>Backoff := b\<rparr>)"
    "\<And>a. BackoffSeconds (p\<lparr>Backoff := b\<rparr>) a = BackoffSeconds p a"
    using marshal_plain [OF assms(5,6)] by metis
  have d: "dispatch (redis_driver cl) cd d fr jobName args delay opts w = send (redis_driver cl) (dqueue d) delay body w"
    using body(1) assms(3,4) by (simp add: dispatch_def before_def marshal_or_def)
  show ?thesis
  proof (cases "0 < delay")
    case True
    with driver_contract.later_law [OF contract assms(2), of delay body] body d show ?thesis
      by (auto simp: send_def intro!: exI [of _ body] exI [of _ b])
  next
    case False
    with driver_contract.push_law [OF contract assms(2), of body] body d show ?thesis
      by (auto simp: send_def intro!: exI [of _ body] exI [of _ b])
  qed
qed

abbreviation ex_fresh :: fresh where
  "ex_fresh \<equiv> \<lparr>fresh_uuid = ''u'', fresh_bytes = [], fresh_micros = 0\<rparr>"

abbreviation ex_dispatcher :: dispatcher where
  "ex_dispatcher \<equiv> \<lparr>dqueue = ''default'', dformat = FormatPHP\<rparr>"

lemma ex_new_payload:
  "NewPayload ex_fresh ''Mail'' ex_php [WithMaxTries 3] =
     zero_payload\<lparr>UUID := ''u'', DisplayName := ''Mail'', PJob := LaravelCallQueuedHandler, MaxTries := Some 3,
       Data := \<lparr>CommandName = ''Mail'', Command = ex_php\<rparr>\<rparr>"
  by (simp add: NewPayload_def WithMaxTries_def generateID_def float_of_int64_def float_div_def round_f64_zero funits_def
      zero_payload_def)

lemma ex_new_payload_wf:
  "wf_payload (NewPayload ex_fresh ''Mail'' ex_php [WithMaxTries 3])"
  "plain_backoff (Backoff (NewPayload ex_fresh ''Mail'' ex_php [WithMaxTries 3]))"
proof -
  have "valid_utf8 LaravelCallQueuedHandler" "valid_utf8 ex_php"
    by (simp_all add: valid_utf8_def LaravelCallQueuedHandler_def) code_simp+
  then show "wf_payload (NewPayload ex_fresh ''Mail'' ex_php [WithMaxTries 3])"
    "plain_backoff (Backoff (NewPayload ex_fresh ''Mail'' ex_php [WithMaxTries 3]))"
    unfolding ex_new_payload by (simp_all add: wf_payload_def zero_payload_def ex_utf8 wf_zero_time int_ok_def)
qed

theorem dispatched_job_arrives_witness:
  "\<exists>w' body. dispatch (redis_driver mem_client) ex_codec ex_dispatcher ex_fresh ''Mail'' ex_args 0 [WithMaxTries 3] ex_world =
       (Ok (), w') \<and> redis_queue id ''default'' w' = Some (q_push body q_empty)"
proof -
  have q: "redis_queue id (dqueue ex_dispatcher) ex_world = Some q_empty" by (simp add: redis_queue_def list_zset_at_mem)
  from dispatched_job_arrives [OF mem.redis_reliable_axioms q ex_commands(1) refl ex_new_payload_wf, of 0] show ?thesis by auto
qed

section \<open>What the decoder builds\<close>

text \<open>
  C30: on any input, hostile or not, a value that \<open>Decode\<close> returns is well typed: it and everything
  it reaches has one of eight dynamic types, no pointer is nil or points to a cell of
  another kind, arrays have one value per key, keys are integers or strings, and no object
  has a property twice.
\<close>

theorem Decode_well_typed:
  assumes "Decode n s = Ok (v, h)"
  shows "typed h v \<and> typed_heap h"
  using Decode_typed [OF assms] by simp

theorem Decode_well_typed_witness:
  "\<exists>v h. Decode 2 loop_text = Ok (v, h) \<and> typed h v \<and> typed_heap h"
proof -
  have "Decode 2 loop_text = Ok (VArray (Some 0), loop_heap)" using loop_decodes [of 0] by (simp add: numeral_2_eq_2)
  with Decode_well_typed show ?thesis by blast
qed

end
