(* ===== verification/Sql_Service.thy ===== *)
theory Sql_Service
  imports Go_Strconv
begin

text \<open>
  Package \<open>dbutil\<close>, and the parameter that stands for \<open>database/sql\<close> with the database behind
  it: a record with the effect of a statement on the database state \<open>'s\<close>. The conversions
  of \<open>Rows.Scan\<close> for the column types of the two tables are written out.
\<close>

section \<open>Table names\<close>

text \<open>The classes of \<open>^[a-zA-Z_][a-zA-Z0-9_]*$\<close>; without flags \<open>$\<close> is the end of the text.\<close>

definition name_start :: "char \<Rightarrow> bool" where
  "name_start c \<longleftrightarrow>
     (let n = of_char c :: nat in 97 \<le> n \<and> n \<le> 122 \<or> 65 \<le> n \<and> n \<le> 90 \<or> c = CHR ''_'')"

definition validTableName :: "string \<Rightarrow> bool" where
  "validTableName s \<longleftrightarrow>
     (case s of [] \<Rightarrow> False | c # cs \<Rightarrow> name_start c \<and> list_all (\<lambda>c. name_start c \<or> is_digit c) cs)"

datatype table_error = InvalidTableName string

definition ValidateTableName :: "string \<Rightarrow> table_error option" where
  "ValidateTableName name = (if \<not> validTableName name then Some (InvalidTableName name) else None)"

section \<open>The database\<close>

datatype sqlval = SNull | SInt int | SText string | STime int

datatype sql_error = ErrNoRows | ErrScan | ErrSql string

text \<open>
  \<open>ExecContext\<close> gives a result whose \<open>RowsAffected\<close> may fail in turn; \<open>QueryContext\<close> the rows with
  the error that ends the iteration; \<open>QueryRowContext\<close> the first row or \<open>ErrNoRows\<close>. A time read
  into a string takes the form \<open>time_text\<close>.
\<close>

record 's sqldb =
  db_exec :: "string \<Rightarrow> sqlval list \<Rightarrow> 's \<Rightarrow> (sql_error + (sql_error + int)) \<times> 's"
  db_query :: "string \<Rightarrow> sqlval list \<Rightarrow> 's \<Rightarrow> (sql_error + (sqlval list list \<times> sql_error option)) \<times> 's"
  db_query_row :: "string \<Rightarrow> sqlval list \<Rightarrow> 's \<Rightarrow> (sql_error + sqlval list) \<times> 's"
  time_text :: "int \<Rightarrow> string"

definition col_string :: "'s sqldb \<Rightarrow> sqlval \<Rightarrow> string option" where
  "col_string db v =
     (case v of SNull \<Rightarrow> None | SInt n \<Rightarrow> Some (FormatInt n) | SText t \<Rightarrow> Some t | STime t \<Rightarrow> Some (time_text db t))"

definition col_int :: "sqlval \<Rightarrow> int option" where
  "col_int v =
     (case v of SInt n \<Rightarrow> Some n | SText t \<Rightarrow> (case ParseInt t of Inr n \<Rightarrow> Some n | Inl _ \<Rightarrow> None) | _ \<Rightarrow> None)"

definition col_time :: "sqlval \<Rightarrow> int option" where
  "col_time v = (case v of STime t \<Rightarrow> Some t | _ \<Rightarrow> None)"

text \<open>\<open>sql.NullTime\<close>: \<open>None\<close> when it is not valid.\<close>

definition col_null_time :: "sqlval \<Rightarrow> int option option" where
  "col_null_time v = (case v of SNull \<Rightarrow> Some None | _ \<Rightarrow> map_option Some (col_time v))"

text \<open>The error of a statement whose result is not needed.\<close>

definition exec_error :: "('e + 'a) \<times> 's \<Rightarrow> 'e option \<times> 's" where
  "exec_error r = (case r of (Inl e, s) \<Rightarrow> (Some e, s) | (Inr _, s) \<Rightarrow> (None, s))"

text \<open>A column of the tables that may be null.\<close>

definition null_time :: "int option \<Rightarrow> sqlval" where
  "null_time t = (case t of None \<Rightarrow> SNull | Some n \<Rightarrow> STime n)"

lemma col_simps [simp]:
  "col_string db (SText t) = Some t" "col_int (SInt n) = Some n" "col_time (STime n) = Some n"
  "col_null_time (null_time x) = Some x"
  by (simp_all add: col_string_def col_int_def col_time_def col_null_time_def null_time_def split: option.split)

section \<open>Lemmas\<close>

lemma ValidateTableName_iff: "ValidateTableName name = None \<longleftrightarrow> validTableName name"
  by (simp add: ValidateTableName_def)

text \<open>An accepted name is an identifier: no blank, quote, comma, semicolon or comment can be in it.\<close>

lemma validTableName_chars:
  assumes "validTableName name" "c \<in> set name"
  shows "name_start c \<or> is_digit c"
  using assms by (cases name) (auto simp: validTableName_def list_all_iff)

end
