(* ===== verification/Failed_Jobs.thy ===== *)
theory Failed_Jobs
  imports Sql_Service
begin

text \<open>
  Package \<open>failed\<close>: the record of a failed job and the providers, the one over a database that is
  a parameter and the one that does nothing. The clock reading and the fresh UUID are
  arguments. What the provider relies on is a locale over the rows of its table, whose \<open>id\<close> the
  database counts up; an in-memory table satisfies it.
\<close>

section \<open>Providers\<close>

record failedJob =
  FID :: int
  FUUID' :: string
  FConnection' :: string
  FQueue' :: string
  FPayload' :: string
  FException' :: string
  FailedAt :: int

record failedRecord =
  FUUID :: string
  FConnection :: string
  FQueue :: string
  FPayload :: string
  FException :: string

record databaseProvider =
  ptable :: string

datatype failed_error =
    EFailedTable table_error | ELog sql_error | EFindJob sql_error | EAll sql_error | EScan sql_error
  | EForget sql_error | EFlush sql_error | ECount sql_error | ENoRows

definition NewDatabaseProvider :: "string \<Rightarrow> failed_error + databaseProvider" where
  "NewDatabaseProvider table =
     (let table = (if table = [] then ''failed_jobs'' else table)
      in case ValidateTableName table of Some e \<Rightarrow> Inl (EFailedTable e) | None \<Rightarrow> Inr \<lparr>ptable = table\<rparr>)"

definition log_sql :: "string \<Rightarrow> string" where
  "log_sql t = ''INSERT INTO '' @ t @ '' (uuid, connection, queue, payload, exception, failed_at) VALUES (?, ?, ?, ?, ?, ?)''"

definition failed_columns :: string where
  "failed_columns = ''SELECT id, uuid, connection, queue, payload, exception, failed_at FROM ''"

definition find_job_sql :: "string \<Rightarrow> string" where
  "find_job_sql t = failed_columns @ t @ '' WHERE id = ?''"

definition all_sql :: "string \<Rightarrow> string" where
  "all_sql t = failed_columns @ t @ '' ORDER BY id DESC''"

definition forget_sql :: "string \<Rightarrow> string" where
  "forget_sql t = ''DELETE FROM '' @ t @ '' WHERE id = ?''"

definition flush_sql :: "string \<Rightarrow> string" where
  "flush_sql t = ''DELETE FROM '' @ t"

definition count_sql :: "string \<Rightarrow> string" where
  "count_sql t = ''SELECT COUNT(*) FROM '' @ t"

definition Log :: "'s sqldb \<Rightarrow> databaseProvider \<Rightarrow> string \<Rightarrow> int \<Rightarrow> failedRecord \<Rightarrow> 's \<Rightarrow> failed_error option \<times> 's" where
  "Log db p uuid now r s =
     (let jobUUID = (if FUUID r = [] then uuid else FUUID r)
      in case exec_error (db_exec db (log_sql (ptable p))
           [SText jobUUID, SText (FConnection r), SText (FQueue r), SText (FPayload r), SText (FException r), STime now] s) of
           (e, s') \<Rightarrow> (map_option ELog e, s'))"

definition scan_failed :: "'s sqldb \<Rightarrow> sqlval list \<Rightarrow> failedJob option" where
  "scan_failed db cells =
     (case cells of
        [c1, c2, c3, c4, c5, c6, c7] \<Rightarrow>
          (case (col_int c1, col_string db c2, col_string db c3, col_string db c4, col_string db c5, col_string db c6, col_time c7) of
             (Some i, Some u, Some c, Some q, Some p, Some x, Some t) \<Rightarrow>
               Some \<lparr>FID = i, FUUID' = u, FConnection' = c, FQueue' = q, FPayload' = p, FException' = x, FailedAt = t\<rparr>
           | _ \<Rightarrow> None)
      | _ \<Rightarrow> None)"

definition Find :: "'s sqldb \<Rightarrow> databaseProvider \<Rightarrow> int \<Rightarrow> 's \<Rightarrow> (failed_error + failedJob) \<times> 's" where
  "Find db p i s =
     (case db_query_row db (find_job_sql (ptable p)) [SInt i] s of
        (Inl e, s') \<Rightarrow> (Inl (EFindJob e), s')
      | (Inr cells, s') \<Rightarrow> (case scan_failed db cells of None \<Rightarrow> (Inl (EFindJob ErrScan), s') | Some j \<Rightarrow> (Inr j, s')))"

text \<open>The loop over the rows stops at the first that does not scan.\<close>

fun scan_rows :: "'s sqldb \<Rightarrow> sqlval list list \<Rightarrow> failed_error + failedJob list" where
  "scan_rows db [] = Inr []"
| "scan_rows db (cells # rows) =
     (case scan_failed db cells of
        None \<Rightarrow> Inl (EScan ErrScan)
      | Some j \<Rightarrow> (case scan_rows db rows of Inl e \<Rightarrow> Inl e | Inr js \<Rightarrow> Inr (j # js)))"

definition All :: "'s sqldb \<Rightarrow> databaseProvider \<Rightarrow> 's \<Rightarrow> (failed_error + failedJob list) \<times> 's" where
  "All db p s =
     (case db_query db (all_sql (ptable p)) [] s of
        (Inl e, s') \<Rightarrow> (Inl (EAll e), s')
      | (Inr (rows, rowsErr), s') \<Rightarrow>
          (case scan_rows db rows of
             Inl e \<Rightarrow> (Inl e, s')
           | Inr js \<Rightarrow> ((case rowsErr of Some e \<Rightarrow> Inl (EAll e) | None \<Rightarrow> Inr js), s')))"

definition Forget :: "'s sqldb \<Rightarrow> databaseProvider \<Rightarrow> int \<Rightarrow> 's \<Rightarrow> failed_error option \<times> 's" where
  "Forget db p i s =
     (case exec_error (db_exec db (forget_sql (ptable p)) [SInt i] s) of (e, s') \<Rightarrow> (map_option EForget e, s'))"

definition Flush :: "'s sqldb \<Rightarrow> databaseProvider \<Rightarrow> 's \<Rightarrow> failed_error option \<times> 's" where
  "Flush db p s = (case exec_error (db_exec db (flush_sql (ptable p)) [] s) of (e, s') \<Rightarrow> (map_option EFlush e, s'))"

definition Count :: "'s sqldb \<Rightarrow> databaseProvider \<Rightarrow> 's \<Rightarrow> (failed_error + int) \<times> 's" where
  "Count db p s =
     (case db_query_row db (count_sql (ptable p)) [] s of
        (Inl e, s') \<Rightarrow> (Inl (ECount e), s')
      | (Inr [c], s') \<Rightarrow> (case col_int c of None \<Rightarrow> (Inl (ECount ErrScan), s') | Some n \<Rightarrow> (Inr n, s'))
      | (Inr _, s') \<Rightarrow> (Inl (ECount ErrScan), s'))"

text \<open>\<open>failed.NullProvider\<close>, method by method.\<close>

definition Null_Log :: "failedRecord \<Rightarrow> 's \<Rightarrow> failed_error option \<times> 's" where "Null_Log r s = (None, s)"
definition Null_Find :: "int \<Rightarrow> failed_error + failedJob" where "Null_Find i = Inl ENoRows"
definition Null_All :: "failed_error + failedJob list" where "Null_All = Inr []"
definition Null_Forget :: "int \<Rightarrow> failed_error option" where "Null_Forget i = None"
definition Null_Flush :: "failed_error option" where "Null_Flush = None"
definition Null_Count :: "failed_error + int" where "Null_Count = Inr 0"

section \<open>The table\<close>

type_synonym frow = failedJob

definition frow_cells :: "frow \<Rightarrow> sqlval list" where
  "frow_cells r =
     [SInt (FID r), SText (FUUID' r), SText (FConnection' r), SText (FQueue' r), SText (FPayload' r), SText (FException' r),
      STime (FailedAt r)]"

lemma scan_frow [simp]: "scan_failed db (frow_cells r) = Some r"
  by (simp add: scan_failed_def frow_cells_def)

lemma scan_frows [simp]: "scan_rows db (map frow_cells rs) = Inr rs"
  by (induction rs) simp_all

text \<open>The rows are listed in the order of their ids, which only grow.\<close>

locale failed_sql =
  fixes db :: "'s sqldb" and view :: "'s \<Rightarrow> frow list" and t :: string
  assumes insert_failed: "sorted_wrt (<) (map FID (view s)) \<Longrightarrow>
      \<exists>n i s'. db_exec db (log_sql t) [SText u, SText c, SText q, SText p, SText x, STime now] s = (Inr n, s') \<and>
        (\<forall>r \<in> set (view s). FID r < i) \<and>
        view s' = view s @ [\<lparr>FID = i, FUUID' = u, FConnection' = c, FQueue' = q, FPayload' = p, FException' = x, FailedAt = now\<rparr>]"
    and select_failed: "\<exists>s'. db_query_row db (find_job_sql t) [SInt i] s =
        ((case find (\<lambda>r. FID r = i) (view s) of None \<Rightarrow> Inl ErrNoRows | Some r \<Rightarrow> Inr (frow_cells r)), s') \<and> view s' = view s"
    and select_all: "\<exists>s'. db_query db (all_sql t) [] s = (Inr (map frow_cells (rev (view s)), None), s') \<and> view s' = view s"
    and delete_one: "\<exists>n s'. db_exec db (forget_sql t) [SInt i] s = (Inr n, s') \<and> view s' = filter (\<lambda>r. FID r \<noteq> i) (view s)"
    and delete_all: "\<exists>n s'. db_exec db (flush_sql t) [] s = (Inr n, s') \<and> view s' = []"
    and select_count: "\<exists>s'. db_query_row db (count_sql t) [] s = (Inr [SInt (int (length (view s)))], s') \<and> view s' = view s"
begin

definition wf_rows :: "'s \<Rightarrow> bool" where
  "wf_rows s \<longleftrightarrow> sorted_wrt (<) (map FID (view s))"

lemma Log_row:
  assumes "wf_rows s"
  shows "\<exists>i s'. Log db \<lparr>ptable = t\<rparr> uuid now r s = (None, s') \<and> wf_rows s' \<and>
    view s' = view s @ [\<lparr>FID = i, FUUID' = (if FUUID r = [] then uuid else FUUID r), FConnection' = FConnection r,
      FQueue' = FQueue r, FPayload' = FPayload r, FException' = FException r, FailedAt = now\<rparr>]"
proof -
  let ?u = "if FUUID r = [] then uuid else FUUID r"
  obtain n i s' where "db_exec db (log_sql t)
      [SText ?u, SText (FConnection r), SText (FQueue r), SText (FPayload r), SText (FException r), STime now] s = (Inr n, s')"
    "\<forall>r \<in> set (view s). FID r < i"
    "view s' = view s @ [\<lparr>FID = i, FUUID' = ?u, FConnection' = FConnection r, FQueue' = FQueue r, FPayload' = FPayload r,
       FException' = FException r, FailedAt = now\<rparr>]"
    using insert_failed [of s ?u] assms unfolding wf_rows_def by blast
  with assms show ?thesis
    by (intro exI [of _ i] exI [of _ s']) (simp add: Log_def exec_error_def wf_rows_def sorted_wrt_append)
qed

lemma All_rows: "\<exists>s'. All db \<lparr>ptable = t\<rparr> s = (Inr (rev (view s)), s') \<and> view s' = view s"
  using select_all [of s] by (auto simp: All_def rev_map)

lemma Find_row:
  "\<exists>s'. Find db \<lparr>ptable = t\<rparr> i s =
     ((case find (\<lambda>r. FID r = i) (view s) of None \<Rightarrow> Inl (EFindJob ErrNoRows) | Some r \<Rightarrow> Inr r), s') \<and> view s' = view s"
  using select_failed [of i s] by (auto simp: Find_def split: option.split)

lemma Forget_row:
  "\<exists>s'. Forget db \<lparr>ptable = t\<rparr> i s = (None, s') \<and> view s' = filter (\<lambda>r. FID r \<noteq> i) (view s) \<and> (wf_rows s \<longrightarrow> wf_rows s')"
  using delete_one [of i s] by (auto simp: Forget_def exec_error_def wf_rows_def sorted_wrt_map sorted_wrt_filter)

lemma Flush_rows: "\<exists>s'. Flush db \<lparr>ptable = t\<rparr> s = (None, s') \<and> view s' = [] \<and> wf_rows s'"
  using delete_all [of s] by (auto simp: Flush_def exec_error_def wf_rows_def)

lemma Count_rows: "\<exists>s'. Count db \<lparr>ptable = t\<rparr> s = (Inr (int (length (view s))), s') \<and> view s' = view s"
  using select_count [of s] by (auto simp: Count_def)

end

section \<open>A table in memory\<close>

definition mem_failed_exec :: "string \<Rightarrow> string \<Rightarrow> sqlval list \<Rightarrow> frow list \<Rightarrow> (sql_error + (sql_error + int)) \<times> frow list" where
  "mem_failed_exec t q args rs =
     (case args of
        [SText u, SText c, SText k, SText p, SText x, STime now] \<Rightarrow>
          if q = log_sql t
          then (Inr (Inr 1), rs @ [\<lparr>FID = (if rs = [] then 1 else FID (last rs) + 1), FUUID' = u, FConnection' = c, FQueue' = k,
            FPayload' = p, FException' = x, FailedAt = now\<rparr>])
          else (Inl (ErrSql ''insert''), rs)
      | [SInt i] \<Rightarrow>
          if q = forget_sql t then (Inr (Inr 1), filter (\<lambda>r. FID r \<noteq> i) rs) else (Inl (ErrSql ''delete''), rs)
      | [] \<Rightarrow> if q = flush_sql t then (Inr (Inr (int (length rs))), []) else (Inl (ErrSql ''delete''), rs)
      | _ \<Rightarrow> (Inl (ErrSql ''arguments''), rs))"

definition mem_failed_row :: "string \<Rightarrow> string \<Rightarrow> sqlval list \<Rightarrow> frow list \<Rightarrow> (sql_error + sqlval list) \<times> frow list" where
  "mem_failed_row t q args rs =
     (case args of
        [SInt i] \<Rightarrow>
          if q = find_job_sql t
          then (case find (\<lambda>r. FID r = i) rs of None \<Rightarrow> Inl ErrNoRows | Some r \<Rightarrow> Inr (frow_cells r), rs)
          else (Inl (ErrSql ''select''), rs)
      | [] \<Rightarrow> if q = count_sql t then (Inr [SInt (int (length rs))], rs) else (Inl (ErrSql ''select''), rs)
      | _ \<Rightarrow> (Inl (ErrSql ''arguments''), rs))"

definition mem_failed_db :: "string \<Rightarrow> frow list sqldb" where
  "mem_failed_db t =
     \<lparr>db_exec = mem_failed_exec t,
      db_query = (\<lambda>q args rs. if q = all_sql t then (Inr (map frow_cells (rev rs), None), rs) else (Inl (ErrSql ''select''), rs)),
      db_query_row = mem_failed_row t, time_text = (\<lambda>_. [])\<rparr>"

lemma below_last_id:
  assumes "sorted_wrt (<) (map FID rs)"
  shows "\<forall>r \<in> set rs. FID r < FID (last rs) + 1"
proof (cases rs rule: rev_cases)
  case (snoc ys y)
  with assms show ?thesis by (auto simp: sorted_wrt_append)
qed simp

interpretation failed_mem: failed_sql "mem_failed_db t" "\<lambda>rs. rs" t for t
proof
  fix s :: "frow list" and u c q p x now
  assume "sorted_wrt (<) (map FID s)"
  with below_last_id [of s]
  show "\<exists>n i s'. db_exec (mem_failed_db t) (log_sql t) [SText u, SText c, SText q, SText p, SText x, STime now] s = (Inr n, s') \<and>
      (\<forall>r \<in> set s. FID r < i) \<and>
      s' = s @ [\<lparr>FID = i, FUUID' = u, FConnection' = c, FQueue' = q, FPayload' = p, FException' = x, FailedAt = now\<rparr>]"
    by (simp add: mem_failed_db_def mem_failed_exec_def)
qed (simp_all add: mem_failed_db_def mem_failed_exec_def mem_failed_row_def)

end
