(* ===== verification/Queue_Worker.thy ===== *)
theory Queue_Worker
  imports Queue_Dispatcher Middleware Events Failed_Jobs
begin

text \<open>
  \<open>worker.go\<close> and \<open>manager.go\<close>: the worker with its handlers, pipeline, events and failed-job
  logger, the fetch step, the processing of one job with all its error paths, and the
  sequential loop. Handlers and middlewares work on the pair of the job they are given (it is
  a pointer they may write through) and the state of the world. What the worker asks of its
  environment besides the driver - a fetch context, whether it is done, cancelling it, sleeping,
  the error of the parent context - is a record of functions on the world; logging is left out.
\<close>

section \<open>The worker\<close>

record workerOptions =
  WQueue :: string
  Concurrency :: int
  MaxJobs :: int
  MaxTime :: int
  WSleep :: int
  StopOnEmpty :: bool

type_synonym 's handler = "(jobT \<times> 's) nextf"

type_synonym 's logger = "failedRecord \<Rightarrow> 's \<Rightarrow> failed_error option \<times> 's"
type_synonym 's listener = "job_error Event \<Rightarrow> 's \<Rightarrow> 's"

text \<open>A function value in the map of handlers may be nil.\<close>

record 's worker =
  options :: workerOptions
  handlers :: "'s handler option gomap"
  defaultHandler :: "'s handler option"
  pipeline :: "(jobT, jobT \<times> 's) Pipeline"
  wevents :: "'s listener Bus"
  wfailed :: "'s logger"
  connection :: string
  stopRequested :: bool
  fetchCancel :: bool

definition newWorker ::
  "workerOptions \<Rightarrow> 's handler option gomap \<Rightarrow> 's handler option \<Rightarrow> (jobT, jobT \<times> 's) middleware list \<Rightarrow>
   's listener Bus \<Rightarrow> 's logger \<Rightarrow> string \<Rightarrow> 's worker" where
  "newWorker opts hs dh mw bus fp conn =
     \<lparr>options = opts\<lparr>WQueue := (if WQueue opts = [] then DefaultQueueName else WQueue opts),
                   WSleep := (if WSleep opts = 0 then 3 * second else WSleep opts)\<rparr>,
      handlers = fold (\<lambda>(k, v). AList.update k v) hs [], defaultHandler = dh, pipeline = NewPipeline mw,
      wevents = bus, wfailed = fp, connection = conn, stopRequested = False, fetchCancel = False\<rparr>"

definition NewWorker :: "workerOptions \<Rightarrow> 's worker" where
  "NewWorker opts = newWorker opts [] None [] NewBus Null_Log DefaultConnection"

definition Register :: "'s worker \<Rightarrow> string \<Rightarrow> 's handler option \<Rightarrow> 's worker" where
  "Register w jobName handler = w\<lparr>handlers := AList.update jobName handler (handlers w)\<rparr>"

definition RegisterDefault :: "'s worker \<Rightarrow> 's handler option \<Rightarrow> 's worker" where
  "RegisterDefault w handler = w\<lparr>defaultHandler := handler\<rparr>"

definition Worker_Use :: "'s worker \<Rightarrow> (jobT, jobT \<times> 's) middleware list \<Rightarrow> 's worker" where
  "Worker_Use w m = w\<lparr>pipeline := Use (pipeline w) m\<rparr>"

definition SetFailedProvider :: "'s worker \<Rightarrow> 's logger \<Rightarrow> 's worker" where
  "SetFailedProvider w p = w\<lparr>wfailed := p\<rparr>"

definition Worker_On :: "'s worker \<Rightarrow> EventType \<Rightarrow> 's listener \<Rightarrow> 's worker" where
  "Worker_On w eventType l = w\<lparr>wevents := On (wevents w) eventType l\<rparr>"

definition resolveHandler :: "'s worker \<Rightarrow> jobT \<Rightarrow> 's handler option" where
  "resolveHandler w job =
     (case map_of (handlers w) (Job_CommandName job) of
        Some h \<Rightarrow> h
      | None \<Rightarrow>
          (case map_of (handlers w) (Job_DisplayName job) of
             Some h \<Rightarrow> h
           | None \<Rightarrow> defaultHandler w))"

section \<open>The manager\<close>

record 's manager =
  mhandlers :: "'s handler option gomap"
  mdefault :: "'s handler option"
  mmiddleware :: "(jobT, jobT \<times> 's) middleware list"
  mevents :: "'s listener Bus"
  mfailed :: "'s logger"
  mconnection :: string

definition NewManager :: "'s manager" where
  "NewManager = \<lparr>mhandlers = [], mdefault = None, mmiddleware = [], mevents = NewBus, mfailed = Null_Log,
     mconnection = DefaultConnection\<rparr>"

definition Manager_Register :: "'s manager \<Rightarrow> string \<Rightarrow> 's handler option \<Rightarrow> 's manager" where
  "Manager_Register m jobName handler = m\<lparr>mhandlers := AList.update jobName handler (mhandlers m)\<rparr>"

definition Manager_RegisterDefault :: "'s manager \<Rightarrow> 's handler option \<Rightarrow> 's manager" where
  "Manager_RegisterDefault m handler = m\<lparr>mdefault := handler\<rparr>"

definition Manager_Use :: "'s manager \<Rightarrow> (jobT, jobT \<times> 's) middleware list \<Rightarrow> 's manager" where
  "Manager_Use m mw = m\<lparr>mmiddleware := mmiddleware m @ mw\<rparr>"

definition Manager_On :: "'s manager \<Rightarrow> EventType \<Rightarrow> 's listener \<Rightarrow> 's manager" where
  "Manager_On m eventType l = m\<lparr>mevents := On (mevents m) eventType l\<rparr>"

definition Manager_SetFailedProvider :: "'s manager \<Rightarrow> 's logger \<Rightarrow> 's manager" where
  "Manager_SetFailedProvider m p = m\<lparr>mfailed := p\<rparr>"

definition SetConnection :: "'s manager \<Rightarrow> string \<Rightarrow> 's manager" where
  "SetConnection m name = m\<lparr>mconnection := name\<rparr>"

definition Manager_Worker :: "'s manager \<Rightarrow> workerOptions \<Rightarrow> 's worker" where
  "Manager_Worker m opts =
     newWorker opts (mhandlers m) (mdefault m) (mmiddleware m) (mevents m) (mfailed m) (mconnection m)"

text \<open>The dispatcher shares the manager's driver, which is an argument of its calls.\<close>

definition Manager_Dispatcher :: "'s manager \<Rightarrow> dispatcherOption list \<Rightarrow> dispatcher" where
  "Manager_Dispatcher m opts = NewDispatcher opts"

section \<open>Events of a job\<close>

definition job_event :: "EventType \<Rightarrow> jobT \<Rightarrow> job_error Event" where
  "job_event t job =
     \<lparr>Type = t, JobUUID = Job_UUID job, JobName = Job_DisplayName job, EvQueue = Job_Queue job,
      Attempt = Job_Attempts job, Duration = 0, Error = None, Connection = []\<rparr>"

definition fire :: "'s worker \<Rightarrow> job_error Event \<Rightarrow> 's \<Rightarrow> 's" where
  "fire w e s = Fire (wevents w) e s"

section \<open>Processing one job\<close>

text \<open>What processing needs besides the worker: the JSON of other types, the text of an error, the decoder's fuel.\<close>

record 's tools =
  tdriver :: "'s driver"
  tjson :: "any \<Rightarrow> json option"
  show_error :: "job_error \<Rightarrow> string"
  tfuel :: nat

definition handleFailure :: "'s tools \<Rightarrow> 's worker \<Rightarrow> jobT \<Rightarrow> job_error \<Rightarrow> int \<Rightarrow> 's \<Rightarrow> 's" where
  "handleFailure tk w job jobErr duration s =
     (let s1 = fire w (job_event JobExceptionOccurred job\<lparr>Error := Some jobErr\<rparr>) s in
      case as_release jobErr of
        Some delay \<Rightarrow> (case Job_Release (tdriver tk) (tjson tk) job delay s1 of (_, _, s2) \<Rightarrow> s2)
      | None \<Rightarrow>
          (case HasFailed (tdriver tk) job s1 of
             (False, s2) \<Rightarrow>
               (case Job_Release (tdriver tk) (tjson tk) job (BackoffDuration job) s2 of
                  (_, job', s3) \<Rightarrow>
                    fire w (job_event JobReleasedAfterError job'\<lparr>Attempt := 0, Error := Some jobErr\<rparr>) s3)
           | (True, s2) \<Rightarrow>
               (case Job_Delete (tdriver tk) job s2 of
                  (_, s3) \<Rightarrow>
                    (case wfailed w \<lparr>FUUID = UUID (jpayload job), FConnection = connection w, FQueue = Queue (jraw job),
                        FPayload = Body (jraw job), FException = show_error tk jobErr\<rparr> s3 of
                       (_, s4) \<Rightarrow>
                         fire w (job_event JobFailed job\<lparr>Error := Some jobErr, Duration := duration\<rparr>) s4))))"

text \<open>A panic of the decoder is not recovered: it ends the program.\<close>

definition process :: "'s tools \<Rightarrow> 's worker \<Rightarrow> RawJob \<Rightarrow> 's \<Rightarrow> (unit, unit) outcome \<times> 's" where
  "process tk w raw s =
     (case time_now (tdriver tk) s of
        (start, s0) \<Rightarrow>
          (case ParseJob (tfuel tk) raw of
             Err _ \<Rightarrow> (case drv_delete (tdriver tk) raw s0 of (_, s1) \<Rightarrow> (Ok (), s1))
           | Panic p \<Rightarrow> (Panic p, s0)
           | Fuel \<Rightarrow> (Fuel, s0)
           | Ok job \<Rightarrow>
               let s1 = fire w (job_event JobProcessing job) s0 in
               (case resolveHandler w job of
                  None \<Rightarrow> (case Job_Delete (tdriver tk) job s1 of (_, s2) \<Rightarrow> (Ok (), s2))
                | Some handler \<Rightarrow>
                    (case Then (pipeline w) job handler (job, s1) of
                       (err, job', s2) \<Rightarrow>
                         (case time_now (tdriver tk) s2 of
                            (now, s3) \<Rightarrow>
                              (case err of
                                 Some e \<Rightarrow> (Ok (), handleFailure tk w job' e (now - start) s3)
                               | None \<Rightarrow>
                                   (case Job_Delete (tdriver tk) job' s3 of
                                      (_, s4) \<Rightarrow>
                                        (Ok (), fire w (job_event JobProcessed job'\<lparr>Duration := now - start\<rparr>) s4))))))))"

section \<open>Fetching\<close>

record 's environment =
  new_fetch :: "'s \<Rightarrow> 's"
  fetch_done :: "'s \<Rightarrow> bool"
  cancel_fetch :: "'s \<Rightarrow> 's"
  parent_err :: "'s \<Rightarrow> bool"
  sleep :: "int \<Rightarrow> 's \<Rightarrow> bool \<times> 's"

datatype fetchResult = fetchGotJob | fetchEmpty | fetchStop | fetchError

text \<open>\<open>sleep\<close> is the \<open>select\<close> between the timer and the fetch context; false when the context won.\<close>

definition sleepOrStop :: "'s environment \<Rightarrow> int \<Rightarrow> 's \<Rightarrow> bool \<times> 's" where
  "sleepOrStop env d s = (if d \<le> 0 then (True, s) else sleep env d s)"

text \<open>\<open>errors.Is(err, context.Canceled)\<close>: every driver error wraps the one below it.\<close>

fun is_canceled :: "driver_error \<Rightarrow> bool" where
  "is_canceled (EPush q e) = (e = CtxCanceled)"
| "is_canceled (ELater q e) = (e = CtxCanceled)"
| "is_canceled (EMigrateExpired e) = is_canceled e"
| "is_canceled (EMigrateDelayed e) = (e = CtxCanceled)"
| "is_canceled (EMigrateReserved e) = (e = CtxCanceled)"
| "is_canceled (EPop e) = (e = CtxCanceled)"
| "is_canceled (ECtx e) = (e = CtxCanceled)"
| "is_canceled (EDelete e) = (e = CtxCanceled)"
| "is_canceled (ERelease e) = (e = CtxCanceled)"
| "is_canceled (ESize e) = (e = CtxCanceled)"
| "is_canceled (EClear q e) = (e = CtxCanceled)"

definition stopping_event :: "job_error Event" where
  "stopping_event = \<lparr>Type = WorkerStopping, JobUUID = [], JobName = [], EvQueue = [], Attempt = 0, Duration = 0,
     Error = None, Connection = []\<rparr>"

definition fetchJob ::
  "'s driver \<Rightarrow> 's environment \<Rightarrow> 's worker \<Rightarrow> int \<Rightarrow> int \<Rightarrow> 's \<Rightarrow> (RawJob option \<times> fetchResult) \<times> 's" where
  "fetchJob drv env w jobsProcessed startTime s =
     (if fetch_done env s then ((None, fetchStop), fire w stopping_event s)
      else if 0 < MaxJobs (options w) \<and> MaxJobs (options w) \<le> jobsProcessed then ((None, fetchStop), s)
      else
        (case (if 0 < MaxTime (options w)
               then (case time_now drv s of (now, s1) \<Rightarrow> (MaxTime (options w) \<le> whole_seconds (now - startTime), s1))
               else (False, s)) of
           (True, s1) \<Rightarrow> ((None, fetchStop), s1)
         | (False, s1) \<Rightarrow>
             (case drv_pop drv (WQueue (options w)) s1 of
                (Inl err, s2) \<Rightarrow>
                  if is_canceled err then ((None, fetchStop), s2)
                  else (case sleepOrStop env (WSleep (options w)) s2 of
                          (woke, s3) \<Rightarrow> ((None, if woke then fetchError else fetchStop), s3))
              | (Inr None, s2) \<Rightarrow>
                  if StopOnEmpty (options w) then ((None, fetchStop), s2)
                  else (case sleepOrStop env (WSleep (options w)) s2 of
                          (woke, s3) \<Rightarrow> ((None, if woke then fetchEmpty else fetchStop), s3))
              | (Inr (Some raw), s2) \<Rightarrow> ((Some raw, fetchGotJob), s2))))"

section \<open>The sequential loop\<close>

text \<open>
  One unit of fuel per iteration. The result carries \<open>ctx.Err()\<close>; a counter of an \<open>int\<close> wraps.
\<close>

fun single_loop ::
  "nat \<Rightarrow> 's tools \<Rightarrow> 's environment \<Rightarrow> 's worker \<Rightarrow> int \<Rightarrow> int \<Rightarrow> 's \<Rightarrow> (unit, bool) outcome \<times> 's" where
  "single_loop 0 tk env w n startTime s = (Fuel, s)"
| "single_loop (Suc fuel) tk env w n startTime s =
     (case fetchJob (tdriver tk) env w n startTime s of
        ((raw, fetchStop), s1) \<Rightarrow> (Ok (parent_err env s1), s1)
      | ((Some raw, fetchGotJob), s1) \<Rightarrow>
          (case process tk w raw s1 of
             (Ok _, s2) \<Rightarrow> single_loop fuel tk env w (wrap64 (n + 1)) startTime s2
           | (Err e, s2) \<Rightarrow> (Err e, s2)
           | (Panic p, s2) \<Rightarrow> (Panic p, s2)
           | (Fuel, s2) \<Rightarrow> (Fuel, s2))
      | (_, s1) \<Rightarrow> single_loop fuel tk env w n startTime s1)"

definition runSingle ::
  "nat \<Rightarrow> 's tools \<Rightarrow> 's environment \<Rightarrow> 's worker \<Rightarrow> 's \<Rightarrow> (unit, bool) outcome \<times> 's" where
  "runSingle fuel tk env w s =
     (case time_now (tdriver tk) s of (startTime, s1) \<Rightarrow> single_loop fuel tk env w 0 startTime s1)"

section \<open>Starting and stopping\<close>

definition Stop :: "'s environment \<Rightarrow> 's worker \<times> 's \<Rightarrow> 's worker \<times> 's" where
  "Stop env ws =
     (case ws of (w, s) \<Rightarrow> (w\<lparr>stopRequested := True\<rparr>, if fetchCancel w then cancel_fetch env s else s))"

text \<open>The head of \<open>Run\<close>: a new fetch context, which a stop that came before cancels at once.\<close>

definition Run_start :: "'s environment \<Rightarrow> 's worker \<times> 's \<Rightarrow> 's worker \<times> 's" where
  "Run_start env ws =
     (case ws of (w, s) \<Rightarrow>
        let s1 = new_fetch env s in (w\<lparr>fetchCancel := True\<rparr>, if stopRequested w then cancel_fetch env s1 else s1))"

text \<open>\<open>Run\<close> with at most one job at a time; the concurrent loop is a step relation of its own.\<close>

definition Run_single ::
  "nat \<Rightarrow> 's tools \<Rightarrow> 's environment \<Rightarrow> 's worker \<times> 's \<Rightarrow> ((unit, bool) outcome \<times> 's) option" where
  "Run_single fuel tk env ws =
     (case Run_start env ws of
        (w, s) \<Rightarrow> if Concurrency (options w) \<le> 1 then Some (runSingle fuel tk env w s) else None)"

section \<open>The fetch context\<close>

text \<open>What the worker relies on: a cancelled context is done, and reading the clock does not change that.\<close>

locale fetch_context =
  fixes drv :: "'s driver" and env :: "'s environment"
  assumes cancelled: "fetch_done env (cancel_fetch env s)"
    and clock_keeps: "fetch_done env (snd (time_now drv s)) = fetch_done env s"
begin

lemma stopped_loop:
  assumes "tdriver tk = drv" "fetch_done env s"
  shows "runSingle (Suc n) tk env w s =
    (let s1 = fire w stopping_event (snd (time_now drv s)) in (Ok (parent_err env s1), s1))"
  using assms clock_keeps [of s] by (simp add: runSingle_def fetchJob_def case_prod_beta Let_def)

end

text \<open>
  A world that holds, beside the driver's world, a part the driver does not touch, such as
  whether the fetch context is cancelled.
\<close>

definition beside :: "('s \<Rightarrow> 'a \<times> 's) \<Rightarrow> 'b \<times> 's \<Rightarrow> 'a \<times> 'b \<times> 's" where
  "beside f w = (case w of (b, s) \<Rightarrow> (case f s of (r, s') \<Rightarrow> (r, b, s')))"

definition flagged :: "'s driver \<Rightarrow> ('b \<times> 's) driver" where
  "flagged d =
     \<lparr>drv_push = (\<lambda>q p. beside (drv_push d q p)), drv_later = (\<lambda>q dl p. beside (drv_later d q dl p)),
      drv_pop = (\<lambda>q. beside (drv_pop d q)), drv_delete = (\<lambda>j. beside (drv_delete d j)),
      drv_release = (\<lambda>j dl. beside (drv_release d j dl)), drv_size = (\<lambda>q. beside (drv_size d q)),
      drv_clear = (\<lambda>q. beside (drv_clear d q)), drv_migrate = (\<lambda>q. beside (drv_migrate d q)),
      drv_close = beside (drv_close d), time_now = beside (time_now d)\<rparr>"

definition flag_env :: "(bool \<times> 's) environment" where
  "flag_env = \<lparr>new_fetch = (\<lambda>w. (False, snd w)), fetch_done = fst, cancel_fetch = (\<lambda>w. (True, snd w)),
     parent_err = (\<lambda>_. False), sleep = (\<lambda>d w. (\<not> fst w, w))\<rparr>"

interpretation flag_context: fetch_context "flagged d" flag_env for d
  by unfold_locales (auto simp: flag_env_def flagged_def beside_def split: prod.splits)

lemma flagged_contract:
  assumes "driver_contract (d :: 'a driver) q_at"
  shows "driver_contract (flagged d :: ('b \<times> 'a) driver) (\<lambda>q w. q_at q (snd w))"
proof -
  note laws = driver_contract.push_law [OF assms] driver_contract.later_law [OF assms] driver_contract.delete_law [OF assms]
    driver_contract.release_law [OF assms] driver_contract.clock_law [OF assms]
  show ?thesis
  proof
    fix q p dl and w :: "'b \<times> 'a" and Q and j :: RawJob
    obtain b s where w: "w = (b, s)" by fastforce
    show "\<exists>r s'. drv_push (flagged d) q p w = (Inr r, s') \<and> q_at q (snd s') = Some (q_push p Q)"
      if "q_at q (snd w) = Some Q"
      using that laws(1) [of q s Q p] by (auto simp: flagged_def beside_def w)
    show "\<exists>r s' t. drv_later (flagged d) q dl p w = (Inr r, s') \<and> q_at q (snd s') = Some (q_later t p Q)"
      if "q_at q (snd w) = Some Q"
      using that laws(2) [of q s Q dl p] by (auto simp: flagged_def beside_def w)
    show "\<exists>r s' Q1 t. drv_pop (flagged d) q w = (Inr r, s') \<and> q_at q (snd s') = Some (snd (q_pop t Q1)) \<and>
        map_option Body r = fst (q_pop t Q1) \<and> (\<forall>j. r = Some j \<longrightarrow> Queue j = q) \<and>
        (wf_queue Q \<longrightarrow> wf_queue Q1 \<and> jobs Q1 = jobs Q) \<and> (\<exists>later. ready Q1 = ready Q @ later)"
      if Q: "q_at q (snd w) = Some Q"
    proof -
      obtain r s' Q1 t where "drv_pop d q s = (Inr r, s')" "q_at q s' = Some (snd (q_pop t Q1))"
        "map_option Body r = fst (q_pop t Q1)" "\<forall>j. r = Some j \<longrightarrow> Queue j = q"
        "wf_queue Q \<longrightarrow> wf_queue Q1 \<and> jobs Q1 = jobs Q" "\<exists>later. ready Q1 = ready Q @ later"
        using driver_contract.pop_law [OF assms, of q s Q] Q w by auto
      then show ?thesis
        by (intro exI [of _ r] exI [of _ "(b, s')"] exI [of _ Q1] exI [of _ t]) (simp add: flagged_def beside_def w)
    qed
    show "\<exists>s'. drv_delete (flagged d) j w = (None, s') \<and> q_at (Queue j) (snd s') = Some (q_delete (Body j) Q)"
      if "q_at (Queue j) (snd w) = Some Q"
      using that laws(3) [of j s Q] by (auto simp: flagged_def beside_def w)
    show "\<exists>s' t. drv_release (flagged d) j dl w = (None, s') \<and> q_at (Queue j) (snd s') = Some (q_release t (Body j) Q)"
      if "q_at (Queue j) (snd w) = Some Q"
      using that laws(4) [of j s Q dl] by (auto simp: flagged_def beside_def w)
    show "q_at q (snd (snd (time_now (flagged d) w))) = q_at q (snd w)"
      using laws(5) [of q s] by (auto simp: flagged_def beside_def w split: prod.splits)
  qed
qed

end
