(* ===== verification/Queue_Pool.thy ===== *)
theory Queue_Pool
  imports Queue_Worker "HOL-Library.Multiset"
begin

text \<open>
  The concurrent loop of \<open>worker.go\<close> (\<open>runConcurrent\<close>) as a step relation: the main goroutine
  fetches, blocks on the semaphore and starts one goroutine per job; the goroutines process
  their job, count it, give the semaphore back and leave the wait group, in any
  interleaving. The effects of one \<open>process\<close> call on the world are one step. Two history
  variables record the jobs fetched and the jobs whose processing has ended.
\<close>

section \<open>States and steps\<close>

datatype phase = PLoop | PFetch int | PHave RawJob | PWait | PDone bool

text \<open>
  A goroutine before \<open>process\<close> has returned, before the count, before \<open><-sem\<close>, before \<open>wg.Done\<close>
  (the deferred calls run in this order).
\<close>

datatype goroutine = GProcess RawJob | GCount | GSem | GWait

record 's pool =
  phase :: phase
  world :: 's
  sem :: nat
  wg :: nat
  jobsProcessed :: int
  goroutines :: "goroutine multiset"
  fetched :: "RawJob list"
  finished :: "RawJob list"
  crashed :: "gopanic option"

definition pool_init :: "'s \<Rightarrow> 's pool" where
  "pool_init s = \<lparr>phase = PLoop, world = s, sem = 0, wg = 0, jobsProcessed = 0, goroutines = {#}, fetched = [], finished = [],
     crashed = None\<rparr>"

definition alive :: "'s pool \<Rightarrow> bool" where
  "alive p \<longleftrightarrow> crashed p = None"

inductive pool_step :: "'s tools \<Rightarrow> 's environment \<Rightarrow> 's worker \<Rightarrow> int \<Rightarrow> 's pool \<Rightarrow> 's pool \<Rightarrow> bool"
  for tk env w startTime where
  count: "alive p \<Longrightarrow> phase p = PLoop \<Longrightarrow> pool_step tk env w startTime p (p\<lparr>phase := PFetch (jobsProcessed p)\<rparr>)"
| got: "alive p \<Longrightarrow> phase p = PFetch c \<Longrightarrow> fetchJob (tdriver tk) env w c startTime (world p) = ((Some raw, fetchGotJob), s) \<Longrightarrow>
    pool_step tk env w startTime p (p\<lparr>phase := PHave raw, world := s, fetched := fetched p @ [raw]\<rparr>)"
| again: "alive p \<Longrightarrow> phase p = PFetch c \<Longrightarrow> fetchJob (tdriver tk) env w c startTime (world p) = ((r, res), s) \<Longrightarrow>
    res = fetchEmpty \<or> res = fetchError \<Longrightarrow> pool_step tk env w startTime p (p\<lparr>phase := PLoop, world := s\<rparr>)"
| stop: "alive p \<Longrightarrow> phase p = PFetch c \<Longrightarrow> fetchJob (tdriver tk) env w c startTime (world p) = ((r, fetchStop), s) \<Longrightarrow>
    pool_step tk env w startTime p (p\<lparr>phase := PWait, world := s\<rparr>)"
| start: "alive p \<Longrightarrow> phase p = PHave raw \<Longrightarrow> sem p < nat (Concurrency (options w)) \<Longrightarrow>
    pool_step tk env w startTime p (p\<lparr>phase := PLoop, sem := sem p + 1, wg := wg p + 1,
      goroutines := add_mset (GProcess raw) (goroutines p)\<rparr>)"
| work: "alive p \<Longrightarrow> goroutines p = add_mset (GProcess raw) G \<Longrightarrow> process tk w raw (world p) = (Ok u, s) \<Longrightarrow>
    pool_step tk env w startTime p (p\<lparr>world := s, goroutines := add_mset GCount G, finished := finished p @ [raw]\<rparr>)"
| crash: "alive p \<Longrightarrow> goroutines p = add_mset (GProcess raw) G \<Longrightarrow> process tk w raw (world p) = (Panic x, s) \<Longrightarrow>
    pool_step tk env w startTime p (p\<lparr>crashed := Some x, world := s\<rparr>)"
| processed: "alive p \<Longrightarrow> goroutines p = add_mset GCount G \<Longrightarrow>
    pool_step tk env w startTime p (p\<lparr>goroutines := add_mset GSem G, jobsProcessed := jobsProcessed p + 1\<rparr>)"
| release: "alive p \<Longrightarrow> goroutines p = add_mset GSem G \<Longrightarrow>
    pool_step tk env w startTime p (p\<lparr>goroutines := add_mset GWait G, sem := sem p - 1\<rparr>)"
| leave: "alive p \<Longrightarrow> goroutines p = add_mset GWait G \<Longrightarrow>
    pool_step tk env w startTime p (p\<lparr>goroutines := G, wg := wg p - 1\<rparr>)"
| return: "alive p \<Longrightarrow> phase p = PWait \<Longrightarrow> wg p = 0 \<Longrightarrow>
    pool_step tk env w startTime p (p\<lparr>phase := PDone (parent_err env (world p))\<rparr>)"

inductive_cases pool_stepE: "pool_step tk env w startTime p p'"

inductive pool_reach :: "'s tools \<Rightarrow> 's environment \<Rightarrow> 's worker \<Rightarrow> int \<Rightarrow> 's \<Rightarrow> 's pool \<Rightarrow> bool"
  for tk env w startTime s0 where
  init: "pool_reach tk env w startTime s0 (pool_init s0)"
| step: "pool_reach tk env w startTime s0 p \<Longrightarrow> pool_step tk env w startTime p p' \<Longrightarrow> pool_reach tk env w startTime s0 p'"

section \<open>The invariant\<close>

fun holds_sem :: "goroutine \<Rightarrow> bool" where
  "holds_sem GWait = False" | "holds_sem g = True"

fun uncounted :: "goroutine \<Rightarrow> bool" where
  "uncounted (GProcess r) = True" | "uncounted GCount = True" | "uncounted g = False"

fun pending_job :: "goroutine \<Rightarrow> RawJob multiset" where
  "pending_job (GProcess r) = {#r#}" | "pending_job g = {#}"

fun held_job :: "phase \<Rightarrow> RawJob multiset" where
  "held_job (PHave r) = {#r#}" | "held_job ph = {#}"

definition sum_jobs :: "goroutine multiset \<Rightarrow> RawJob multiset" where
  "sum_jobs G = (\<Sum>g \<in># G. pending_job g)"

lemma sum_jobs_simps [simp]: "sum_jobs {#} = {#}" "sum_jobs (add_mset g G) = pending_job g + sum_jobs G"
  by (simp_all add: sum_jobs_def)

abbreviation count_where :: "(goroutine \<Rightarrow> bool) \<Rightarrow> goroutine multiset \<Rightarrow> nat" where
  "count_where P G \<equiv> size (filter_mset P G)"

definition pool_inv :: "'s worker \<Rightarrow> 's pool \<Rightarrow> bool" where
  "pool_inv w p \<longleftrightarrow>
     sem p = count_where holds_sem (goroutines p) \<and> sem p \<le> nat (Concurrency (options w)) \<and>
     wg p = size (goroutines p) \<and>
     mset (fetched p) = mset (finished p) + sum_jobs (goroutines p) + held_job (phase p) \<and>
     int (length (fetched p)) =
       jobsProcessed p + int (count_where uncounted (goroutines p)) + int (size (held_job (phase p)))"

lemma uncounted_le_sem: "count_where uncounted G \<le> count_where holds_sem G"
proof (induction G)
  case (add g G)
  then show ?case by (cases g) auto
qed simp

lemma pool_inv_step:
  assumes "pool_inv w p" "pool_step tk env w startTime p p'"
  shows "pool_inv w p'"
  using assms(2,1) by (cases rule: pool_step.cases) (auto simp: pool_inv_def)

lemma pool_inv_reach: "pool_reach tk env w startTime s0 p \<Longrightarrow> pool_inv w p"
proof (induction rule: pool_reach.induct)
  case (step p p')
  then show ?case by (blast intro: pool_inv_step)
qed (simp add: pool_inv_def pool_init_def)

text \<open>The count a fetch is based on is at most \<open>Concurrency\<close> behind the jobs fetched before it.\<close>

definition fetch_inv :: "'s worker \<Rightarrow> 's pool \<Rightarrow> bool" where
  "fetch_inv w p \<longleftrightarrow>
     (\<forall>c. phase p = PFetch c \<longrightarrow> int (length (fetched p)) \<le> c + int (nat (Concurrency (options w)))) \<and>
     (0 < MaxJobs (options w) \<longrightarrow>
        int (length (fetched p)) \<le> MaxJobs (options w) + int (nat (Concurrency (options w))))"

lemma fetchJob_limit:
  assumes "fetchJob drv env w c startTime s = ((Some raw, fetchGotJob), s')" "0 < MaxJobs (options w)"
  shows "c < MaxJobs (options w)"
  using assms by (auto simp: fetchJob_def split: if_splits)

lemma fetch_inv_step:
  assumes "pool_inv w p" "fetch_inv w p" "pool_step tk env w startTime p p'"
  shows "fetch_inv w p'"
  using assms(3)
proof (cases rule: pool_step.cases)
  case count
  have "count_where uncounted (goroutines p) \<le> nat (Concurrency (options w))"
    using assms(1) uncounted_le_sem [of "goroutines p"] by (simp add: pool_inv_def)
  then have "int (count_where uncounted (goroutines p)) \<le> int (nat (Concurrency (options w)))" by (rule of_nat_mono)
  moreover have "int (length (fetched p)) = jobsProcessed p + int (count_where uncounted (goroutines p))"
    using assms(1) count by (simp add: pool_inv_def)
  ultimately have "int (length (fetched p)) \<le> jobsProcessed p + int (nat (Concurrency (options w)))" by linarith
  with count assms(2) show ?thesis by (simp add: fetch_inv_def)
next
  case (got c raw s)
  with assms(2) fetchJob_limit [OF got(4)] show ?thesis by (auto simp: fetch_inv_def)
qed (use assms(2) in \<open>auto simp: fetch_inv_def\<close>)

lemma fetch_inv_reach: "pool_reach tk env w startTime s0 p \<Longrightarrow> fetch_inv w p"
proof (induction rule: pool_reach.induct)
  case (step p p')
  from fetch_inv_step [OF pool_inv_reach [OF step(1)] step(3,2)] show ?case .
qed (simp add: fetch_inv_def pool_init_def)

section \<open>Progress\<close>

text \<open>While a goroutine is there, some goroutine can move, unless its job makes the fuel run out.\<close>

lemma goroutine_moves:
  assumes "alive p" "goroutines p \<noteq> {#}" "\<And>raw s. GProcess raw \<in># goroutines p \<Longrightarrow> \<exists>r s'. process tk w raw s = (r, s') \<and> (r = Ok () \<or> (\<exists>x. r = Panic x))"
  shows "\<exists>p'. pool_step tk env w startTime p p'"
proof -
  obtain g G where g: "goroutines p = add_mset g G" using assms(2) by (metis multiset_cases)
  show ?thesis
  proof (cases g)
    case (GProcess raw)
    with assms(3) [of raw "world p"] g assms(1) show ?thesis by (auto intro: pool_step.work pool_step.crash)
  qed (use g assms(1) in \<open>auto intro: pool_step.processed pool_step.release pool_step.leave\<close>)
qed

lemma fetchJob_cases:
  obtains raw s' where "fetchJob drv env w c startTime s = ((Some raw, fetchGotJob), s')"
  | s' where "fetchJob drv env w c startTime s = ((None, fetchStop), s')"
  | res s' where "fetchJob drv env w c startTime s = ((None, res), s')" "res = fetchEmpty \<or> res = fetchError"
  by (cases "fetchJob drv env w c startTime s" rule: prod.exhaust)
    (auto simp: fetchJob_def split: if_splits prod.splits sum.splits option.splits bool.splits)

end
