(* ===== verification/Worker_Properties.thy ===== *)
theory Worker_Properties
  imports Queue_Pool Queue_Job_Properties
begin

text \<open>
  The properties of the worker: what processing a job does to its queue on every path, when
  a failing job is tried again, stopping, the drain of the sequential loop, and the bounds
  of the concurrent loop.
\<close>

section \<open>Processing\<close>

text \<open>
  Listeners, the failed-job logger, handlers and middlewares that leave queue \<open>q\<close> and the job
  they are given alone.
\<close>

definition quiet :: "(string \<Rightarrow> 's \<Rightarrow> queue_state option) \<Rightarrow> string \<Rightarrow> 's worker \<Rightarrow> bool" where
  "quiet q_at q w \<longleftrightarrow>
     (\<forall>e s. q_at q (fire w e s) = q_at q s) \<and> (\<forall>r s. q_at q (snd (wfailed w r s)) = q_at q s) \<and>
     (\<forall>job h s err job' s'. resolveHandler w job = Some h \<longrightarrow> Then (pipeline w) job h (job, s) = (err, job', s') \<longrightarrow>
        job' = job \<and> q_at q s' = q_at q s)"

lemma quietD:
  assumes "quiet q_at q w"
  shows "q_at q (fire w e s) = q_at q s" "q_at q (snd (wfailed w r s)) = q_at q s"
    "resolveHandler w job = Some h \<Longrightarrow> Then (pipeline w) job h (job, s) = (err, job', s') \<Longrightarrow>
      job' = job \<and> q_at q s' = q_at q s"
  using assms by (auto simp: quiet_def)

text \<open>The result of the handler of a job, inside the pipeline, in the state the worker calls it in.\<close>

definition handled :: "'s tools \<Rightarrow> 's worker \<Rightarrow> jobT \<Rightarrow> 's \<Rightarrow> 's handler \<Rightarrow> job_error option" where
  "handled tk w job s h =
     fst (Then (pipeline w) job h (job, fire w (job_event JobProcessing job) (snd (time_now (tdriver tk) s))))"

context driver_contract
begin

lemma clock_state: "time_now drv s = (t, s') \<Longrightarrow> q_at q s' = q_at q s"
  using clock_law [of q s] by simp

lemma handleFailure_buries:
  assumes "quiet q_at (Queue (jraw j)) w" "tdriver tk = drv" "q_at (Queue (jraw j)) s = Some Q" "as_release e = None"
    "fst (HasFailed drv j (fire w (job_event JobExceptionOccurred j\<lparr>Error := Some e\<rparr>) s))"
  shows "q_at (Queue (jraw j)) (handleFailure tk w j e du s) = Some (q_delete (Body (jraw j)) Q)"
proof -
  let ?s1 = "fire w (job_event JobExceptionOccurred j\<lparr>Error := Some e\<rparr>) s"
  note quiet = quietD [OF assms(1)]
  obtain s2 where s2: "HasFailed drv j ?s1 = (True, s2)" using assms(5) by (metis prod.collapse)
  have "q_at (Queue (jraw j)) s2 = Some Q" using HasFailed_q_at [of _ j ?s1] s2 quiet(1) assms(3) by (metis snd_conv)
  then obtain s3 where s3: "Job_Delete drv j s2 = (None, s3)" "q_at (Queue (jraw j)) s3 = Some (q_delete (Body (jraw j)) Q)"
    using Job_Delete_step by blast
  with quiet s2 assms(2,4) show ?thesis by (simp add: handleFailure_def Let_def case_prod_beta)
qed

lemma handleFailure_retries:
  assumes "quiet q_at (Queue (jraw j)) w" "tdriver tk = drv" "q_at (Queue (jraw j)) s = Some Q"
    "as_release e \<noteq> None \<or> \<not> fst (HasFailed drv j (fire w (job_event JobExceptionOccurred j\<lparr>Error := Some e\<rparr>) s))"
    "marshal_payload (tjson tk) ((jpayload j)\<lparr>Attempts := wrap64 (Attempts (jpayload j) + 1)\<rparr>) = Some body"
  shows "\<exists>t. q_at (Queue (jraw j)) (handleFailure tk w j e du s) = Some (q_release t body Q)"
proof -
  let ?s1 = "fire w (job_event JobExceptionOccurred j\<lparr>Error := Some e\<rparr>) s"
  note quiet = quietD [OF assms(1)]
  have q1: "q_at (Queue (jraw j)) ?s1 = Some Q" using quiet(1) assms(3) by simp
  show ?thesis
  proof (cases "as_release e")
    case (Some d)
    with Job_Release_step [OF q1 assms(5), of d] assms(2) show ?thesis by (auto simp: handleFailure_def)
  next
    case None
    then obtain s2 where s2: "HasFailed drv j ?s1 = (False, s2)" using assms(4) by (metis prod.collapse)
    have "q_at (Queue (jraw j)) s2 = Some Q" using HasFailed_q_at [of _ j ?s1] s2 q1 by (metis snd_conv)
    from Job_Release_step [OF this assms(5), of "BackoffDuration j"] s2 None assms(2) quiet(1) show ?thesis
      by (auto simp: handleFailure_def)
  qed
qed

text \<open>The state in which the worker handles the failure of a job.\<close>

lemma process_failing:
  assumes "quiet q_at (Queue raw) w" "tdriver tk = drv" "q_at (Queue raw) s = Some Q"
    "ParseJob (tfuel tk) raw = Ok j" "resolveHandler w j = Some h" "handled tk w j s h = Some e"
  shows "\<exists>s' du. process tk w raw s = (Ok (), handleFailure tk w j e du s') \<and> q_at (Queue raw) s' = Some Q"
proof -
  note quiet = quietD [OF assms(1)]
  obtain t0 s0 where s0: "time_now drv s = (t0, s0)" by fastforce
  let ?s1 = "fire w (job_event JobProcessing j) s0"
  obtain err j' s2 where s2: "Then (pipeline w) j h (j, ?s1) = (err, j', s2)" by (metis prod_cases3)
  obtain t3 s3 where s3: "time_now drv s2 = (t3, s3)" by fastforce
  have e: "err = Some e" using assms(2,6) s0 s2 by (simp add: handled_def)
  have "j' = j" "q_at (Queue raw) s3 = Some Q"
    using quiet(3) [OF assms(5) s2] quiet(1) clock_state [OF s0] clock_state [OF s3] assms(3) by simp_all
  with s0 s2 s3 e assms(2,4,5) show ?thesis by (auto simp: process_def)
qed

lemma process_acknowledges:
  assumes "quiet q_at (Queue raw) w" "tdriver tk = drv" "q_at (Queue raw) s = Some Q"
    "(\<exists>x. ParseJob (tfuel tk) raw = Err x) \<or>
     (\<exists>j. ParseJob (tfuel tk) raw = Ok j \<and>
        (resolveHandler w j = None \<or> (\<exists>h. resolveHandler w j = Some h \<and> handled tk w j s h = None)))"
  shows "\<exists>s'. process tk w raw s = (Ok (), s') \<and> q_at (Queue raw) s' = Some (q_delete (Body raw) Q)"
proof -
  note quiet = quietD [OF assms(1)]
  obtain t0 s0 where s0: "time_now drv s = (t0, s0)" by fastforce
  have q0: "q_at (Queue raw) s0 = Some Q" using clock_state [OF s0] assms(3) by simp
  from assms(4) consider x where "ParseJob (tfuel tk) raw = Err x"
    | j where "ParseJob (tfuel tk) raw = Ok j" "resolveHandler w j = None"
    | j h where "ParseJob (tfuel tk) raw = Ok j" "resolveHandler w j = Some h" "handled tk w j s h = None" by blast
  then show ?thesis
  proof cases
    case 1
    with delete_law [OF q0] s0 assms(2) show ?thesis by (auto simp: process_def)
  next
    case 2
    then have raw: "jraw j = raw" by (auto simp: ParseJob_def split: option.splits)
    from 2 Job_Delete_step [of j "fire w (job_event JobProcessing j) s0" Q] s0 assms(2) q0 quiet(1) show ?thesis
      by (auto simp: process_def raw)
  next
    case 3
    then have raw: "jraw j = raw" by (auto simp: ParseJob_def split: option.splits)
    let ?s1 = "fire w (job_event JobProcessing j) s0"
    obtain err j' s2 where s2: "Then (pipeline w) j h (j, ?s1) = (err, j', s2)" by (metis prod_cases3)
    obtain t3 s3 where s3: "time_now drv s2 = (t3, s3)" by fastforce
    have "j' = j" "q_at (Queue raw) s3 = Some Q" "err = None"
      using quiet(3) [OF 3(2) s2] quiet(1) clock_state [OF s3] q0 3(3) s0 s2 assms(2) by (simp_all add: handled_def)
    with 3 Job_Delete_step [of j s3 Q] s0 s2 s3 assms(2) quiet(1) show ?thesis
      by (auto simp: process_def raw)
  qed
qed

end

text \<open>The worker on the Redis driver: the queues in its world.\<close>

definition queue_in :: "('s \<Rightarrow> store) \<Rightarrow> string \<Rightarrow> 'b \<times> 's rworld \<Rightarrow> queue_state option" where
  "queue_in view q w = redis_queue view q (snd w)"

lemma worker_contract:
  assumes "redis_reliable cl view"
  shows "driver_contract (flagged (redis_driver cl)) (queue_in view)"
  using flagged_contract [OF redis_reliable.contract_holds [OF assms]] unfolding queue_in_def .

text \<open>When processing ends with the job acknowledged.\<close>

definition serves :: "'s tools \<Rightarrow> 's worker \<Rightarrow> RawJob \<Rightarrow> 's \<Rightarrow> bool" where
  "serves tk w raw s \<longleftrightarrow>
     (\<exists>x. ParseJob (tfuel tk) raw = Err x) \<or>
     (\<exists>j. ParseJob (tfuel tk) raw = Ok j \<and>
        (resolveHandler w j = None \<or> (\<exists>h. resolveHandler w j = Some h \<and> handled tk w j s h = None)))"

text \<open>
  C31: a job that cannot be parsed, that has no handler, or whose handler succeeds, is taken
  out of the reserved set, and processing it changes nothing else in its queue.
\<close>

theorem process_acknowledges_job:
  assumes "redis_reliable cl view" "tdriver tk = flagged (redis_driver cl)" "quiet (queue_in view) (Queue raw) w"
    "queue_in view (Queue raw) s = Some Q" "serves tk w raw s"
  shows "\<exists>s'. process tk w raw s = (Ok (), s') \<and> queue_in view (Queue raw) s' = Some (q_delete (Body raw) Q)"
  using driver_contract.process_acknowledges [OF worker_contract [OF assms(1)] assms(3,2,4)] assms(5)
  by (simp add: serves_def)

text \<open>A worker that only has a handler that does nothing, and the tools it runs with.\<close>

definition ex_worker :: "(jobT \<times> 'b \<times> store rworld \<Rightarrow> job_error option) \<Rightarrow> int \<Rightarrow> ('b \<times> store rworld) worker" where
  "ex_worker f conc =
     RegisterDefault (NewWorker \<lparr>WQueue = [], Concurrency = conc, MaxJobs = 0, MaxTime = 0, WSleep = 0, StopOnEmpty = True\<rparr>)
       (Some (\<lambda>js. (f js, js)))"

definition ex_tools :: "('b \<times> store rworld) tools" where
  "ex_tools = \<lparr>tdriver = flagged (redis_driver mem_client), tjson = (\<lambda>_. None), show_error = (\<lambda>_. []), tfuel = 0\<rparr>"

lemma ex_tools_driver: "tdriver ex_tools = flagged (redis_driver mem_client)"
  by (simp add: ex_tools_def)

lemma ex_worker_simps:
  "fire (ex_worker f c) e s = s" "wfailed (ex_worker f c) r s = (None, s)"
  "resolveHandler (ex_worker f c) j = Some (\<lambda>js. (f js, js))" "Then (pipeline (ex_worker f c)) j h = h"
  "WQueue (options (ex_worker f c)) = ''default''" "StopOnEmpty (options (ex_worker f c))"
  "MaxJobs (options (ex_worker f c)) = 0" "MaxTime (options (ex_worker f c)) = 0" "Concurrency (options (ex_worker f c)) = c"
  by (simp_all add: ex_worker_def RegisterDefault_def NewWorker_def newWorker_def fire_def Fire_def NewBus_def lookup_def
      elems_def Null_Log_def resolveHandler_def Then_def NewPipeline_def DefaultQueueName_def)

lemma ex_worker_quiet: "quiet (queue_in view) q (ex_worker f c)"
  by (auto simp: quiet_def ex_worker_simps)

abbreviation ex_retry :: laravelPayload where
  "ex_retry \<equiv> ex_payload\<lparr>Backoff := VNil\<rparr>"

lemma ex_retry_wf: "wf_payload ex_retry"
  using ex_payload_wf(1) by (simp add: wf_payload_def)

lemma plain_job_parses:
  assumes "wf_payload p" "Backoff p = VNil" "Command (Data p) = []"
  shows "\<exists>body. \<forall>raw. Body raw = body \<longrightarrow>
     ParseJob 0 raw = Ok \<lparr>jraw = raw, jpayload = p, jheap = [], jdata = None, jformat = FormatPHP\<rparr>"
proof -
  have p: "p\<lparr>Backoff := VNil\<rparr> = p" using backoff_of [of p] assms(2) by simp
  obtain body where "unmarshal_payload body = Some (p\<lparr>Backoff := VNil\<rparr>)"
    using unmarshal_marshal [OF assms(1), of "\<lambda>_. None" JNull VNil] assms(2) by (auto simp: maxNestingDepth_def)
  note this [unfolded p]
  with assms(3) show ?thesis by (intro exI [of _ body]) (simp add: ParseJob_def decodeCommand_def)
qed

lemma ex_job_parses:
  "\<exists>body. \<forall>raw. Body raw = body \<longrightarrow>
     ParseJob 0 raw = Ok \<lparr>jraw = raw, jpayload = ex_retry, jheap = [], jdata = None, jformat = FormatPHP\<rparr>"
  by (rule plain_job_parses [OF ex_retry_wf]) simp_all

lemma ex_reserved_job:
  obtains raw :: RawJob and w Q where "redis_queue id (Queue raw) w = Some Q" "Body raw \<in> snd ` set (reserved Q)"
    "ParseJob 0 raw = Ok \<lparr>jraw = raw, jpayload = ex_retry, jheap = [], jdata = None, jformat = FormatPHP\<rparr>"
proof -
  obtain body where b: "\<forall>raw. Body raw = body \<longrightarrow>
     ParseJob 0 raw = Ok \<lparr>jraw = raw, jpayload = ex_retry, jheap = [], jdata = None, jformat = FormatPHP\<rparr>"
    using ex_job_parses by blast
  obtain raw :: RawJob and w Q where raw: "Body raw = body" "redis_queue id (Queue raw) w = Some Q"
    "body \<in> snd ` set (reserved Q)" using ex_popped [of body] by blast
  with b that show thesis by blast
qed

theorem process_acknowledges_job_witness:
  "\<exists>raw (s :: bool \<times> store rworld) s' Q. queue_in id (Queue raw) s = Some Q \<and> Body raw \<in> snd ` set (reserved Q) \<and>
     process ex_tools (ex_worker (\<lambda>_. None) 1) raw s = (Ok (), s') \<and>
     queue_in id (Queue raw) s' = Some (q_delete (Body raw) Q)"
proof -
  obtain raw :: RawJob and w Q where raw: "redis_queue id (Queue raw) w = Some Q" "Body raw \<in> snd ` set (reserved Q)"
    "ParseJob 0 raw = Ok \<lparr>jraw = raw, jpayload = ex_retry, jheap = [], jdata = None, jformat = FormatPHP\<rparr>"
    by (rule ex_reserved_job)
  then have srv: "serves ex_tools (ex_worker (\<lambda>_. None) 1) raw (False, w)"
    by (auto simp: serves_def ex_tools_def ex_worker_simps handled_def)
  have q: "queue_in id (Queue raw) (False, w) = Some Q" using raw(1) by (simp add: queue_in_def)
  from process_acknowledges_job [OF mem.redis_reliable_axioms ex_tools_driver ex_worker_quiet q srv] q raw(2) show ?thesis
    by blast
qed



section \<open>Draining a queue\<close>

context driver_contract
begin

text \<open>A pop from a queue without delayed or reserved jobs takes the first ready job.\<close>

lemma pop_plain:
  assumes "q_at q s = Some Q" "delayed Q = []" "reserved Q = []"
  shows "\<exists>r s' Q'. drv_pop drv q s = (Inr r, s') \<and> q_at q s' = Some Q' \<and> delayed Q' = [] \<and>
    (case ready Q of
       [] \<Rightarrow> r = None \<and> ready Q' = [] \<and> reserved Q' = []
     | p # ps \<Rightarrow> \<exists>raw t. r = Some raw \<and> Body raw = p \<and> Queue raw = q \<and> ready Q' = ps \<and> reserved Q' = [(t, p)])"
proof -
  have wf: "wf_queue Q" using assms(2,3) by (simp add: wf_queue_def wf_zset_def)
  obtain r s' Q1 t later where r: "drv_pop drv q s = (Inr r, s')" "q_at q s' = Some (snd (q_pop t Q1))"
    "map_option Body r = fst (q_pop t Q1)" "\<forall>j. r = Some j \<longrightarrow> Queue j = q" "jobs Q1 = jobs Q" "ready Q1 = ready Q @ later"
    using pop_law [OF assms(1)] wf by blast
  have Q1: "ready Q1 = ready Q" "delayed Q1 = []" "reserved Q1 = []"
    using r(5,6) assms(2,3) by (auto simp: jobs_def)
  show ?thesis
  proof (cases "ready Q")
    case Nil
    with r Q1 show ?thesis by (simp add: q_pop_def)
  next
    case (Cons p ps)
    with r(3) Q1 obtain raw where "r = Some raw" "Body raw = p" by (auto simp: q_pop_def)
    with r Q1 Cons show ?thesis by (auto simp: q_pop_def zinsert_def zremove_def)
  qed
qed

lemma single_loop_drains:
  assumes "quiet q_at q w" "tdriver tk = drv" "WQueue (options w) = q" "StopOnEmpty (options w)" "MaxJobs (options w) \<le> 0"
    "MaxTime (options w) \<le> 0" "\<And>s. \<not> fetch_done env s"
  shows "q_at q s = Some Q \<Longrightarrow> delayed Q = [] \<Longrightarrow> reserved Q = [] \<Longrightarrow>
    (\<forall>raw s. Body raw \<in> set (ready Q) \<longrightarrow> serves tk w raw s) \<Longrightarrow>
    \<exists>s' Q'. single_loop (Suc (length (ready Q))) tk env w n st s = (Ok (parent_err env s'), s') \<and>
      q_at q s' = Some Q' \<and> jobs Q' = {#}"
proof (induction "ready Q" arbitrary: Q s n)
  case Nil
  with pop_plain [OF Nil.prems(1-3)] obtain s' Q' where "drv_pop drv q s = (Inr None, s')" "q_at q s' = Some Q'"
    "delayed Q' = []" "ready Q' = []" "reserved Q' = []" by (auto split: list.splits)
  with assms Nil.hyps show ?case by (auto simp: fetchJob_def jobs_def)
next
  case (Cons p ps)
  obtain raw s1 Q1 t where pop: "drv_pop drv q s = (Inr (Some raw), s1)" "q_at q s1 = Some Q1"
    "delayed Q1 = []" "ready Q1 = ps" "reserved Q1 = [(t, p)]" "Body raw = p" "Queue raw = q"
    using pop_plain [OF Cons.prems(1-3)] unfolding Cons.hyps(2) [symmetric] by auto
  have "serves tk w raw s1" using Cons.prems(4) Cons.hyps(2) pop(6) by (metis list.set_intros(1))
  then obtain s2 where s2: "process tk w raw s1 = (Ok (), s2)" "q_at q s2 = Some (q_delete p Q1)"
    using process_acknowledges [of raw w tk s1 Q1] assms(1,2) pop by (auto simp: serves_def)
  let ?Q2 = "q_delete p Q1"
  have "ready ?Q2 = ps" "delayed ?Q2 = []" "reserved ?Q2 = []" using pop by (simp_all add: q_delete_def zremove_def)
  moreover have "\<forall>raw s. Body raw \<in> set (ready ?Q2) \<longrightarrow> serves tk w raw s"
    using Cons.prems(4) Cons.hyps(2) \<open>ready ?Q2 = ps\<close> by (metis list.set_intros(2))
  ultimately have "\<exists>s' Q'. single_loop (Suc (length ps)) tk env w (wrap64 (n + 1)) st s2 = (Ok (parent_err env s'), s') \<and>
      q_at q s' = Some Q' \<and> jobs Q' = {#}"
    using Cons.hyps(1) [of ?Q2 s2] s2(2) by simp
  moreover have "fetchJob (tdriver tk) env w n st s = ((Some raw, fetchGotJob), s1)"
    using assms pop(1) by (simp add: fetchJob_def)
  ultimately show ?case using s2(1) Cons.hyps(2) [symmetric] by simp
qed

end

text \<open>
  C34: a worker with \<open>StopOnEmpty\<close> whose jobs all succeed drains its queue and returns: after one
  iteration per ready job and a last one nothing is ready, delayed or reserved.
\<close>

theorem worker_drains_queue:
  assumes "redis_reliable cl view" "tdriver tk = flagged (redis_driver cl)" "quiet (queue_in view) q w"
    "WQueue (options w) = q" "StopOnEmpty (options w)" "MaxJobs (options w) \<le> 0" "MaxTime (options w) \<le> 0"
    "\<forall>s. \<not> fetch_done env s" "queue_in view q s = Some Q" "delayed Q = []" "reserved Q = []"
    "\<forall>raw s. Body raw \<in> set (ready Q) \<longrightarrow> serves tk w raw s"
  shows "\<exists>s' Q'. runSingle (Suc (length (ready Q))) tk env w s = (Ok (parent_err env s'), s') \<and>
    queue_in view q s' = Some Q' \<and> jobs Q' = {#}"
proof -
  note contract = worker_contract [OF assms(1)]
  obtain t s1 where s1: "time_now (flagged (redis_driver cl)) s = (t, s1)" by (rule prod.exhaust)
  have "queue_in view q s1 = Some Q" using driver_contract.clock_state [OF contract s1] assms(9) by simp
  from driver_contract.single_loop_drains [OF contract assms(3,2,4-7) _ this assms(10-12), of env 0 t] assms(2,8) s1 show ?thesis
    by (auto simp: runSingle_def)
qed

theorem worker_drains_queue_witness:
  "\<exists>s s' Q Q'. queue_in id ''default'' s = Some Q \<and> length (ready Q) = 2 \<and>
     runSingle 3 ex_tools (flag_env\<lparr>fetch_done := (\<lambda>_. False)\<rparr>) (ex_worker (\<lambda>_. None) 1) s = (Ok False, s') \<and>
     queue_in id ''default'' s' = Some Q' \<and> jobs Q' = {#}"
proof -
  obtain body where b: "\<forall>raw. Body raw = body \<longrightarrow>
     ParseJob 0 raw = Ok \<lparr>jraw = raw, jpayload = ex_retry, jheap = [], jdata = None, jformat = FormatPHP\<rparr>"
    using ex_job_parses by blast
  have e: "redis_queue id ''default'' ex_world = Some q_empty" by (simp add: redis_queue_def list_zset_at_mem)
  obtain s1 where s1: "redis_queue id ''default'' s1 = Some (q_push body q_empty)"
    using mem.contract.push_law [OF e, of body] by blast
  obtain s2 where "redis_queue id ''default'' s2 = Some (q_push body (q_push body q_empty))"
    using mem.contract.push_law [OF s1, of body] by blast
  then have q: "queue_in id ''default'' (False, s2) = Some (q_push body (q_push body q_empty))" by (simp add: queue_in_def)
  let ?Q = "q_push body (q_push body q_empty)" and ?w = "ex_worker (\<lambda>_. None) 1" and ?env = "flag_env\<lparr>fetch_done := (\<lambda>_. False)\<rparr>"
  have Q: "ready ?Q = [body, body]" "delayed ?Q = []" "reserved ?Q = []" by (simp_all add: q_push_def q_empty_def)
  have srv: "\<forall>raw s. Body raw \<in> set (ready ?Q) \<longrightarrow> serves ex_tools ?w raw s"
    using b by (auto simp: Q serves_def ex_tools_def ex_worker_simps handled_def)
  have opts: "WQueue (options ?w) = ''default''" "StopOnEmpty (options ?w)" "MaxJobs (options ?w) \<le> 0" "MaxTime (options ?w) \<le> 0"
    "\<forall>s. \<not> fetch_done ?env s"
    by (simp_all add: ex_worker_simps)
  have "\<exists>s' Q'. runSingle (Suc (length (ready ?Q))) ex_tools ?env ?w (False, s2) = (Ok (parent_err ?env s'), s') \<and>
      queue_in id ''default'' s' = Some Q' \<and> jobs Q' = {#}"
    by (rule worker_drains_queue [OF mem.redis_reliable_axioms ex_tools_driver ex_worker_quiet opts q Q(2,3) srv])
  moreover have "Suc (length (ready ?Q)) = 3" "length (ready ?Q) = 2" "\<And>s. parent_err ?env s = False"
    by (simp_all add: Q flag_env_def)
  ultimately show ?thesis using q by metis
qed

section \<open>Stopping\<close>



end
