(* ===== verification/Pool_Properties.thy ===== *)
theory Pool_Properties
  imports Queue_Pool
begin

text \<open>
  The properties of the concurrent worker loop, for every interleaving of its goroutines:
  bounds, the drain before it returns, and progress.
\<close>

section \<open>The concurrent loop\<close>

text \<open>
  C35: at most \<open>Concurrency\<close> jobs are processed at a time, and a worker with \<open>MaxJobs\<close> takes at most
  \<open>MaxJobs + Concurrency\<close> jobs off its queue. The second bound is reached: the limit is compared
  with the jobs already processed, not with those taken.
\<close>

theorem pool_bounds:
  assumes "pool_reach tk env w startTime s0 p"
  shows "size (filter_mset (\<lambda>g. \<exists>r. g = GProcess r) (goroutines p)) \<le> nat (Concurrency (options w)) \<and>
    (0 < MaxJobs (options w) \<longrightarrow> int (length (fetched p)) \<le> MaxJobs (options w) + int (nat (Concurrency (options w))))"
proof -
  have "count_where (\<lambda>g. \<exists>r. g = GProcess r) G \<le> count_where holds_sem G" for G
  proof (induction G)
    case (add g G)
    then show ?case by (cases g) auto
  qed simp
  from this [of "goroutines p"] pool_inv_reach [OF assms] fetch_inv_reach [OF assms] show ?thesis
    by (auto simp: pool_inv_def fetch_inv_def)
qed

text \<open>A queue that never runs dry, of jobs that are not JSON, and a worker for one job, two at a time.\<close>

definition ex_flood :: "unit tools" where
  "ex_flood = \<lparr>tdriver = \<lparr>drv_push = (\<lambda>q p s. (Inr [], s)), drv_later = (\<lambda>q d p s. (Inr [], s)),
       drv_pop = (\<lambda>q s. (Inr (Some \<lparr>Body = [], Queue = q, ReservedUntil = 0\<rparr>), s)), drv_delete = (\<lambda>j s. (None, s)),
       drv_release = (\<lambda>j d s. (None, s)), drv_size = (\<lambda>q s. (Inr 0, s)), drv_clear = (\<lambda>q s. (Inr 0, s)),
       drv_migrate = (\<lambda>q s. (None, s)), drv_close = (\<lambda>s. (None, s)), time_now = (\<lambda>s. (0, s))\<rparr>,
     tjson = (\<lambda>_. None), show_error = (\<lambda>_. []), tfuel = 0\<rparr>"

definition ex_calm :: "unit environment" where
  "ex_calm = \<lparr>new_fetch = id, fetch_done = (\<lambda>_. False), cancel_fetch = id, parent_err = (\<lambda>_. False), sleep = (\<lambda>d s. (True, s))\<rparr>"

definition ex_limited :: "unit worker" where
  "ex_limited = NewWorker \<lparr>WQueue = [], Concurrency = 2, MaxJobs = 1, MaxTime = 0, WSleep = 0, StopOnEmpty = False\<rparr>"

abbreviation ex_junk :: RawJob where
  "ex_junk \<equiv> \<lparr>Body = [], Queue = ''default'', ReservedUntil = 0\<rparr>"

lemma ex_limited_simps:
  "Concurrency (options ex_limited) = 2" "MaxJobs (options ex_limited) = 1"
  "fetchJob (tdriver ex_flood) ex_calm ex_limited 0 t () = ((Some ex_junk, fetchGotJob), ())"
  by (simp_all add: ex_limited_def NewWorker_def newWorker_def fetchJob_def ex_calm_def ex_flood_def DefaultQueueName_def)

lemma ex_take:
  assumes "pool_reach ex_flood ex_calm ex_limited 0 () p" "phase p = PLoop" "jobsProcessed p = 0" "alive p"
  shows "pool_reach ex_flood ex_calm ex_limited 0 () (p\<lparr>phase := PHave ex_junk, fetched := fetched p @ [ex_junk]\<rparr>)"
proof -
  let ?p1 = "p\<lparr>phase := PFetch 0\<rparr>"
  have "pool_reach ex_flood ex_calm ex_limited 0 () ?p1"
    using pool_reach.step [OF assms(1) pool_step.count [OF assms(4,2)]] assms(3) by simp
  moreover have "pool_step ex_flood ex_calm ex_limited 0 ?p1 (?p1\<lparr>phase := PHave ex_junk, world := (), fetched := fetched ?p1 @ [ex_junk]\<rparr>)"
    using assms(4) ex_limited_simps(3) by (intro pool_step.got) (simp_all add: alive_def)
  ultimately have "pool_reach ex_flood ex_calm ex_limited 0 () (?p1\<lparr>phase := PHave ex_junk, world := (), fetched := fetched ?p1 @ [ex_junk]\<rparr>)"
    by (rule pool_reach.step)
  then show ?thesis by (cases p) simp
qed

lemma ex_begin:
  assumes "pool_reach ex_flood ex_calm ex_limited 0 () p" "phase p = PHave ex_junk" "sem p < 2" "alive p"
  shows "pool_reach ex_flood ex_calm ex_limited 0 ()
    (p\<lparr>phase := PLoop, sem := sem p + 1, wg := wg p + 1, goroutines := add_mset (GProcess ex_junk) (goroutines p)\<rparr>)"
  using assms by (intro pool_reach.step [OF assms(1)] pool_step.start) (simp_all add: ex_limited_simps)

theorem pool_bounds_witness:
  "\<exists>p. pool_reach ex_flood ex_calm ex_limited 0 () p \<and> length (fetched p) = 3 \<and>
     size (filter_mset (\<lambda>g. \<exists>r. g = GProcess r) (goroutines p)) \<le> 2"
proof -
  define p1 where "p1 = (pool_init ())\<lparr>phase := PHave ex_junk, fetched := [ex_junk]\<rparr>"
  define p2 where "p2 = p1\<lparr>phase := PLoop, sem := 1, wg := 1, goroutines := {#GProcess ex_junk#}\<rparr>"
  define p3 where "p3 = p2\<lparr>phase := PHave ex_junk, fetched := [ex_junk, ex_junk]\<rparr>"
  define p4 where "p4 = p3\<lparr>phase := PLoop, sem := 2, wg := 2, goroutines := {#GProcess ex_junk, GProcess ex_junk#}\<rparr>"
  define p5 where "p5 = p4\<lparr>phase := PHave ex_junk, fetched := [ex_junk, ex_junk, ex_junk]\<rparr>"
  note defs = p1_def p2_def p3_def p4_def p5_def pool_init_def alive_def
  have r1: "pool_reach ex_flood ex_calm ex_limited 0 () p1"
    using ex_take [OF pool_reach.init] by (simp add: defs)
  have r2: "pool_reach ex_flood ex_calm ex_limited 0 () p2" using ex_begin [OF r1] by (simp add: defs)
  have r3: "pool_reach ex_flood ex_calm ex_limited 0 () p3" using ex_take [OF r2] by (simp add: defs)
  have r4: "pool_reach ex_flood ex_calm ex_limited 0 () p4" using ex_begin [OF r3] by (simp add: defs numeral_2_eq_2)
  have r5: "pool_reach ex_flood ex_calm ex_limited 0 () p5" using ex_take [OF r4] by (simp add: defs)
  moreover have "length (fetched p5) = 3" by (simp add: defs)
  ultimately show ?thesis using pool_bounds [OF r5] by (auto simp: ex_limited_simps)
qed

text \<open>
  C36: the concurrent loop drains before it returns. When it has returned no goroutine is left,
  every job it took off the queue has been processed exactly once, and the counter agrees.
\<close>

theorem pool_drains:
  assumes "pool_reach tk env w startTime s0 p" "phase p = PDone e"
  shows "goroutines p = {#} \<and> mset (finished p) = mset (fetched p) \<and> jobsProcessed p = int (length (fetched p))"
proof -
  have "wg p = 0"
    using assms
  proof (induction arbitrary: e rule: pool_reach.induct)
    case (step p p')
    have "pool_inv w p" using step.hyps(1) by (rule pool_inv_reach)
    with step.hyps(2) step.IH step.prems show ?case
      by (cases rule: pool_step.cases) (auto simp: pool_inv_def)
  qed (simp add: pool_init_def)
  with pool_inv_reach [OF assms(1)] assms(2) show ?thesis by (auto simp: pool_inv_def)
qed

theorem pool_drains_witness:
  "\<exists>p. pool_reach ex_flood (ex_calm\<lparr>fetch_done := (\<lambda>_. True)\<rparr>) ex_limited 0 () p \<and> phase p = PDone False \<and>
     mset (finished p) = mset (fetched p)"
proof -
  let ?env = "ex_calm\<lparr>fetch_done := (\<lambda>_. True)\<rparr>"
  let ?p1 = "(pool_init ())\<lparr>phase := PFetch 0\<rparr>" and ?p2 = "(pool_init ())\<lparr>phase := PWait\<rparr>"
    and ?p3 = "(pool_init ())\<lparr>phase := PDone False\<rparr>"
  have a: "alive (pool_init ())" "alive ?p1" "alive ?p2" by (simp_all add: alive_def pool_init_def)
  have "pool_reach ex_flood ?env ex_limited 0 () ?p1"
    using pool_reach.step [OF pool_reach.init pool_step.count [OF a(1)]] by (simp add: pool_init_def)
  moreover have "pool_step ex_flood ?env ex_limited 0 ?p1 (?p1\<lparr>phase := PWait, world := ()\<rparr>)"
    using a(2) by (intro pool_step.stop [where c = 0 and r = None]) (simp_all add: fetchJob_def)
  ultimately have "pool_reach ex_flood ?env ex_limited 0 () (?p1\<lparr>phase := PWait, world := ()\<rparr>)" by (rule pool_reach.step)
  then have r2: "pool_reach ex_flood ?env ex_limited 0 () ?p2" by (simp add: pool_init_def)
  have "pool_step ex_flood ?env ex_limited 0 ?p2 (?p2\<lparr>phase := PDone (parent_err ?env (world ?p2))\<rparr>)"
    using a(3) by (intro pool_step.return) (simp_all add: pool_init_def)
  from pool_reach.step [OF r2 this] have r3: "pool_reach ex_flood ?env ex_limited 0 () ?p3"
    by (simp add: ex_calm_def pool_init_def)
  from pool_drains [OF r3, of False] r3 show ?thesis by (intro exI [of _ ?p3]) simp
qed

text \<open>
  C37: the concurrent loop never gets stuck. As long as it has not returned or crashed, and no job
  keeps the decoder busy for ever, some goroutine can make a step: a full semaphore is given
  back, and the wait group empties.
\<close>

theorem pool_not_stuck:
  assumes "pool_reach tk env w startTime s0 p" "1 \<le> Concurrency (options w)" "alive p" "\<forall>e. phase p \<noteq> PDone e"
    "\<forall>raw s. GProcess raw \<in># goroutines p \<longrightarrow>
       (\<exists>r s'. process tk w raw s = (r, s') \<and> (r = Ok () \<or> (\<exists>x. r = Panic x)))"
  shows "\<exists>p'. pool_step tk env w startTime p p'"
proof -
  have moves: ?thesis if "goroutines p \<noteq> {#}" using goroutine_moves [OF assms(3) that] assms(5) by blast
  have inv: "pool_inv w p" by (rule pool_inv_reach [OF assms(1)])
  show ?thesis
  proof (cases "phase p")
    case PLoop
    with assms(3) show ?thesis by (blast intro: pool_step.count)
  next
    case (PFetch c)
    show ?thesis
      by (rule fetchJob_cases [of "tdriver tk" env w c startTime "world p"])
        (use PFetch assms(3) in \<open>blast intro: pool_step.got pool_step.stop pool_step.again\<close>)+
  next
    case (PHave raw)
    show ?thesis
    proof (cases "sem p < nat (Concurrency (options w))")
      case True
      with PHave assms(3) show ?thesis by (blast intro: pool_step.start)
    next
      case False
      with inv assms(2) have "0 < sem p" by simp
      with inv have "goroutines p \<noteq> {#}" by (auto simp: pool_inv_def)
      then show ?thesis by (rule moves)
    qed
  next
    case PWait
    with inv moves assms(3) show ?thesis by (cases "wg p = 0") (auto simp: pool_inv_def intro: pool_step.return)
  qed (use assms(4) in blast)
qed

theorem pool_not_stuck_witness: "\<exists>p'. pool_step ex_flood ex_calm ex_limited 0 (pool_init ()) p'"
  using pool_not_stuck [OF pool_reach.init, of ex_limited "()" ex_flood ex_calm 0]
  by (simp add: ex_limited_simps pool_init_def alive_def)

end
