(* ===== verification/Failed_Properties.thy ===== *)
theory Failed_Properties
  imports Worker_Properties
begin

text \<open>
  The worker with the failed-job provider of the database: the world is the pair of the
  database and the driver's world, and the provider logs into the first.
\<close>

section \<open>Logging into the database\<close>

definition db_logger :: "'d sqldb \<Rightarrow> databaseProvider \<Rightarrow> string \<Rightarrow> int \<Rightarrow> ('d \<times> 's) logger" where
  "db_logger db p uuid now r w = (case w of (d, s) \<Rightarrow> (case Log db p uuid now r d of (e, d') \<Rightarrow> (e, d', s)))"

text \<open>Listeners, handlers and middlewares that leave the database and their job alone.\<close>

definition spares_db :: "('d \<times> 's) worker \<Rightarrow> bool" where
  "spares_db w \<longleftrightarrow>
     (\<forall>e s. fst (fire w e s) = fst s) \<and>
     (\<forall>job h s err job' s'. resolveHandler w job = Some h \<longrightarrow> Then (pipeline w) job h (job, s) = (err, job', s') \<longrightarrow>
        job' = job \<and> fst s' = fst s)"

lemma spares_dbD:
  assumes "spares_db w"
  shows "fst (fire w e s) = fst s"
    "resolveHandler w job = Some h \<Longrightarrow> Then (pipeline w) job h (job, s) = (err, job', s') \<Longrightarrow> job' = job \<and> fst s' = fst s"
  using assms unfolding spares_db_def by blast+

lemma flagged_spares:
  "fst (snd (time_now (flagged d) s)) = fst s" "fst (snd (drv_delete (flagged d) j s)) = fst s"
  by (auto simp: flagged_def beside_def split: prod.splits)

lemma Job_Delete_spares: "Job_Delete (flagged d) j s = (e, s') \<Longrightarrow> fst s' = fst s"
  using flagged_spares(2) [of d "jraw j" s] by (auto simp: Job_Delete_def split: prod.splits)

lemma clock_spares: "time_now (flagged d) s = (t, s') \<Longrightarrow> fst s' = fst s"
  using flagged_spares(1) [of d s] by simp

text \<open>What the logger writes for a failed job.\<close>

definition failure_record :: "'s tools \<Rightarrow> 's worker \<Rightarrow> jobT \<Rightarrow> job_error \<Rightarrow> failedRecord" where
  "failure_record tk w j e =
     \<lparr>FUUID = UUID (jpayload j), FConnection = connection w, FQueue = Queue (jraw j), FPayload = Body (jraw j),
      FException = show_error tk e\<rparr>"

lemma handleFailure_logs:
  assumes "tdriver tk = flagged d" "spares_db w" "wfailed w = db_logger db p uuid now" "as_release e = None"
    "MaxTries (jpayload j) = Some n" "n \<le> Attempts (jpayload j)"
  shows "fst (handleFailure tk w j e du s) = snd (Log db p uuid now (failure_record tk w j e) (fst s))"
proof -
  let ?s1 = "fire w (job_event JobExceptionOccurred j\<lparr>Error := Some e\<rparr>) s"
  note fire = spares_dbD(1) [OF assms(2)]
  have hf: "HasFailed (flagged d) j ?s1 = (True, ?s1)" using assms(5,6) by (simp add: HasFailed_def)
  obtain x s3 where s3: "Job_Delete (flagged d) j ?s1 = (x, s3)" by (rule prod.exhaust)
  have "fst s3 = fst s" using Job_Delete_spares [OF s3] fire by simp
  then show ?thesis
    using s3 hf assms(1,3,4) fire
    by (simp add: handleFailure_def db_logger_def failure_record_def case_prod_beta split: option.split)
qed

lemma process_logs:
  assumes "tdriver tk = flagged d" "spares_db w" "wfailed w = db_logger db p uuid now"
    "ParseJob (tfuel tk) raw = Ok j" "resolveHandler w j = Some h" "handled tk w j s h = Some e" "as_release e = None"
    "MaxTries (jpayload j) = Some n" "n \<le> Attempts (jpayload j)" "process tk w raw s = (Ok (), s')"
  shows "fst s' = snd (Log db p uuid now (failure_record tk w j e) (fst s))"
proof -
  obtain t0 s0 where s0: "time_now (flagged d) s = (t0, s0)" by (rule prod.exhaust)
  let ?s1 = "fire w (job_event JobProcessing j) s0"
  obtain err j' s2 where s2: "Then (pipeline w) j h (j, ?s1) = (err, j', s2)" by (metis prod_cases3)
  obtain t3 s3 where s3: "time_now (flagged d) s2 = (t3, s3)" by (rule prod.exhaust)
  have "err = Some e" using assms(1,6) s0 s2 by (simp add: handled_def)
  moreover have "j' = j" "fst s2 = fst ?s1" "fst ?s1 = fst s0"
    using spares_dbD(2) [OF assms(2,5) s2] spares_dbD(1) [OF assms(2)] by simp_all
  moreover have "fst s3 = fst s" using calculation(3,4) clock_spares [OF s0] clock_spares [OF s3] by simp
  moreover have "s' = handleFailure tk w j e (t3 - t0) s3"
    using assms(1,4,5,10) s0 s2 s3 calculation(1,2) by (simp add: process_def)
  ultimately show ?thesis using handleFailure_logs [OF assms(1-3,7-9), of "t3 - t0" s3] by simp
qed


text \<open>The example worker with the database provider, and a job without a try left.\<close>

definition ex_undertaker :: "(frow list \<times> store rworld) worker" where
  "ex_undertaker = SetFailedProvider (ex_worker (\<lambda>_. Some (HandlerError ''boom'')) 1)
     (db_logger (mem_failed_db ''failed_jobs'') \<lparr>ptable = ''failed_jobs''\<rparr> ''fresh'' 9)"

lemma ex_undertaker_simps:
  "fire ex_undertaker ev x = x" "resolveHandler ex_undertaker j = Some (\<lambda>js. (Some (HandlerError ''boom''), js))"
  "Then (pipeline ex_undertaker) j h = h" "connection ex_undertaker = ''redis''"
  "wfailed ex_undertaker = db_logger (mem_failed_db ''failed_jobs'') \<lparr>ptable = ''failed_jobs''\<rparr> ''fresh'' 9"
  by (simp_all add: ex_undertaker_def SetFailedProvider_def ex_worker_def RegisterDefault_def NewWorker_def newWorker_def fire_def
      Fire_def NewBus_def lookup_def elems_def resolveHandler_def Then_def NewPipeline_def DefaultConnection_def)


end
