(* ===== verification/Batches.thy ===== *)
theory Batches
  imports Sql_Service Go_Json_Values "HOL-Library.Signed_Division"
begin

text \<open>
  Package \<open>batch\<close>: the record of a batch and the repository over a database that is a
  parameter. The clock readings and the UUID of a new batch are arguments.
\<close>

section \<open>Batches\<close>

text \<open>A nil \<open>FailedJobIDs\<close> and an empty one are both the empty list: the code never tells them apart.\<close>

record batch =
  BID :: string
  BName :: string
  TotalJobs :: int
  PendingJobs :: int
  FailedJobs :: int
  FailedJobIDs :: "string list"
  BOptions :: string
  CancelledAt :: "int option"
  CreatedAt :: int
  FinishedAt :: "int option"

definition Cancelled :: "batch \<Rightarrow> bool" where "Cancelled b \<longleftrightarrow> CancelledAt b \<noteq> None"
definition Finished :: "batch \<Rightarrow> bool" where "Finished b \<longleftrightarrow> FinishedAt b \<noteq> None"
definition HasFailures :: "batch \<Rightarrow> bool" where "HasFailures b \<longleftrightarrow> 0 < FailedJobs b"

text \<open>Go's division truncates; every intermediate value is an \<open>int\<close>.\<close>

definition Progress :: "batch \<Rightarrow> int" where
  "Progress b =
     (if TotalJobs b = 0 then 0
      else wrap64 (wrap64 (wrap64 (TotalJobs b - PendingJobs b) * 100) sdiv TotalJobs b))"

section \<open>The repository\<close>

record repository =
  rtable :: string

datatype batch_error =
    EBatchTable table_error | EFind sql_error | EIsCancelled sql_error | ECreate sql_error
  | EDecrement sql_error | EIncrementFind batch_error | EIncrement sql_error | ECancel sql_error | EPrune sql_error
  | ERowsAffected sql_error

definition NewRepository :: "string \<Rightarrow> batch_error + repository" where
  "NewRepository table =
     (let table = (if table = [] then ''job_batches'' else table)
      in case ValidateTableName table of Some e \<Rightarrow> Inl (EBatchTable e) | None \<Rightarrow> Inr \<lparr>rtable = table\<rparr>)"

definition batch_columns :: string where
  "batch_columns =
     ''id, name, total_jobs, pending_jobs, failed_jobs, failed_job_ids, options, cancelled_at, created_at, finished_at''"

definition find_sql :: "string \<Rightarrow> string" where
  "find_sql t = ''SELECT '' @ batch_columns @ '' FROM '' @ t @ '' WHERE id = ?''"

definition cancelled_sql :: "string \<Rightarrow> string" where
  "cancelled_sql t = ''SELECT cancelled_at FROM '' @ t @ '' WHERE id = ?''"

definition create_sql :: "string \<Rightarrow> string" where
  "create_sql t = ''INSERT INTO '' @ t @ '' ('' @ batch_columns @ '') VALUES (?, ?, ?, ?, 0, '' @ [CHR 0x27] @ ''[]'' @
     [CHR 0x27] @ '', ?, NULL, ?, NULL)''"

definition decrement_sql :: "string \<Rightarrow> string" where
  "decrement_sql t = ''UPDATE '' @ t @
     '' SET pending_jobs = pending_jobs - 1, finished_at = CASE WHEN pending_jobs = 1 THEN ? ELSE finished_at END WHERE id = ?''"

definition increment_sql :: "string \<Rightarrow> string" where
  "increment_sql t = ''UPDATE '' @ t @ '' SET failed_jobs = failed_jobs + 1, failed_job_ids = ? WHERE id = ?''"

definition cancel_sql :: "string \<Rightarrow> string" where
  "cancel_sql t = ''UPDATE '' @ t @ '' SET cancelled_at = ? WHERE id = ?''"

definition prune_sql :: "string \<Rightarrow> string" where
  "prune_sql t = ''DELETE FROM '' @ t @ '' WHERE finished_at IS NOT NULL AND finished_at < ?''"

text \<open>
  \<open>json.Unmarshal\<close> into a \<open>[]string\<close> whose error is dropped: text that is no JSON, and values that
  are no array, leave it nil; an element of another type leaves an empty string.
\<close>

definition failed_ids :: "string \<Rightarrow> string list" where
  "failed_ids s =
     (case (if s = [] then None else parse_json s) of
        Some (JArr vs) \<Rightarrow> map (\<lambda>v. case v of JStr t \<Rightarrow> t | _ \<Rightarrow> []) vs
      | _ \<Rightarrow> [])"

definition scan_batch :: "'s sqldb \<Rightarrow> sqlval list \<Rightarrow> batch option" where
  "scan_batch db cells =
     (case cells of
        [c1, c2, c3, c4, c5, c6, c7, c8, c9, c10] \<Rightarrow>
          (case ((col_string db c1, col_string db c2, col_int c3, col_int c4, col_int c5),
                 col_string db c6, col_string db c7, col_null_time c8, col_time c9, col_null_time c10) of
             ((Some bid, Some nm, Some tot, Some pend, Some fld), Some ids, Some opts, Some canc, Some crt, Some fin) \<Rightarrow>
               Some \<lparr>BID = bid, BName = nm, TotalJobs = tot, PendingJobs = pend, FailedJobs = fld,
                 FailedJobIDs = failed_ids ids, BOptions = opts, CancelledAt = canc, CreatedAt = crt, FinishedAt = fin\<rparr>
           | _ \<Rightarrow> None)
      | _ \<Rightarrow> None)"

definition Batch_Find :: "'s sqldb \<Rightarrow> repository \<Rightarrow> string \<Rightarrow> 's \<Rightarrow> (batch_error + batch) \<times> 's" where
  "Batch_Find db r bid s =
     (case db_query_row db (find_sql (rtable r)) [SText bid] s of
        (Inl e, s') \<Rightarrow> (Inl (EFind e), s')
      | (Inr cells, s') \<Rightarrow> (case scan_batch db cells of None \<Rightarrow> (Inl (EFind ErrScan), s') | Some b \<Rightarrow> (Inr b, s')))"

definition IsCancelled :: "'s sqldb \<Rightarrow> repository \<Rightarrow> string \<Rightarrow> 's \<Rightarrow> (batch_error + bool) \<times> 's" where
  "IsCancelled db r bid s =
     (case db_query_row db (cancelled_sql (rtable r)) [SText bid] s of
        (Inl e, s') \<Rightarrow> (Inl (EIsCancelled e), s')
      | (Inr [c], s') \<Rightarrow>
          (case col_null_time c of None \<Rightarrow> (Inl (EIsCancelled ErrScan), s') | Some t \<Rightarrow> (Inr (t \<noteq> None), s'))
      | (Inr _, s') \<Rightarrow> (Inl (EIsCancelled ErrScan), s'))"

record createOptions =
  OName :: string
  OTotalJobs :: int
  AllowFailures :: bool
  OnFinish :: string
  OnSuccess :: string
  OnError :: string

text \<open>\<open>json.Marshal\<close> of the map of options; a map of strings and a bool always has a JSON form.\<close>

definition options_json :: "createOptions \<Rightarrow> string" where
  "options_json opts =
     (case json_of_any (\<lambda>_. None)
        (VMap [(''allowFailures'', VBool (AllowFailures opts)), (''onFinish'', VString (OnFinish opts)),
               (''onSuccess'', VString (OnSuccess opts)), (''onError'', VString (OnError opts))]) of
        Some j \<Rightarrow> print_json j | None \<Rightarrow> [])"

definition Batch_Create ::
  "'s sqldb \<Rightarrow> repository \<Rightarrow> string \<Rightarrow> int \<Rightarrow> createOptions \<Rightarrow> 's \<Rightarrow> (batch_error + batch) \<times> 's" where
  "Batch_Create db r bid now opts s =
     (let options = options_json opts
      in case db_exec db (create_sql (rtable r))
           [SText bid, SText (OName opts), SInt (OTotalJobs opts), SInt (OTotalJobs opts), SText options, STime now] s of
           (Inl e, s') \<Rightarrow> (Inl (ECreate e), s')
         | (Inr _, s') \<Rightarrow>
             (Inr \<lparr>BID = bid, BName = OName opts, TotalJobs = OTotalJobs opts, PendingJobs = OTotalJobs opts, FailedJobs = 0,
                FailedJobIDs = [], BOptions = options, CancelledAt = None, CreatedAt = now, FinishedAt = None\<rparr>, s'))"

definition DecrementPendingJobs :: "'s sqldb \<Rightarrow> repository \<Rightarrow> int \<Rightarrow> string \<Rightarrow> 's \<Rightarrow> (batch_error + batch) \<times> 's" where
  "DecrementPendingJobs db r now bid s =
     (case db_exec db (decrement_sql (rtable r)) [STime now, SText bid] s of
        (Inl e, s') \<Rightarrow> (Inl (EDecrement e), s')
      | (Inr _, s') \<Rightarrow> Batch_Find db r bid s')"

definition ids_json :: "string list \<Rightarrow> string" where
  "ids_json ids = print_json (JArr (map JStr ids))"

definition IncrementFailedJobs :: "'s sqldb \<Rightarrow> repository \<Rightarrow> string \<Rightarrow> string \<Rightarrow> 's \<Rightarrow> batch_error option \<times> 's" where
  "IncrementFailedJobs db r bid jobID s =
     (case Batch_Find db r bid s of
        (Inl e, s1) \<Rightarrow> (Some (EIncrementFind e), s1)
      | (Inr b, s1) \<Rightarrow>
          (case exec_error (db_exec db (increment_sql (rtable r)) [SText (ids_json (FailedJobIDs b @ [jobID])), SText bid] s1) of
             (e, s2) \<Rightarrow> (map_option EIncrement e, s2)))"

definition Batch_Cancel :: "'s sqldb \<Rightarrow> repository \<Rightarrow> int \<Rightarrow> string \<Rightarrow> 's \<Rightarrow> batch_error option \<times> 's" where
  "Batch_Cancel db r now bid s =
     (case exec_error (db_exec db (cancel_sql (rtable r)) [STime now, SText bid] s) of
        (e, s') \<Rightarrow> (map_option ECancel e, s'))"

definition Prune :: "'s sqldb \<Rightarrow> repository \<Rightarrow> int \<Rightarrow> int \<Rightarrow> 's \<Rightarrow> (batch_error + int) \<times> 's" where
  "Prune db r now olderThan s =
     (case db_exec db (prune_sql (rtable r)) [STime (now - olderThan)] s of
        (Inl e, s') \<Rightarrow> (Inl (EPrune e), s')
      | (Inr (Inl e), s') \<Rightarrow> (Inl (ERowsAffected e), s')
      | (Inr (Inr n), s') \<Rightarrow> (Inr n, s'))"

end
