(* ===== verification/Batch_Properties.thy ===== *)
theory Batch_Properties
  imports Batches
begin

text \<open>
  What the repository of batches relies on: the meaning of its seven statements on a table with
  a unique \<open>id\<close>, as a locale over a view of the database. The standard evaluates every right-hand
  side of an \<open>UPDATE\<close> on the old row; MySQL evaluates the assignments from left to right and lets a
  later one see an earlier one. The flag \<open>in_order\<close> says which. An in-memory table satisfies the laws.
\<close>

section \<open>The table\<close>

record brow =
  br_id :: string
  br_name :: string
  br_total :: int
  br_pending :: int
  br_failed :: int
  br_ids :: string
  br_options :: string
  br_cancelled :: "int option"
  br_created :: int
  br_finished :: "int option"

definition brow_cells :: "brow \<Rightarrow> sqlval list" where
  "brow_cells r =
     [SText (br_id r), SText (br_name r), SInt (br_total r), SInt (br_pending r), SInt (br_failed r), SText (br_ids r),
      SText (br_options r), null_time (br_cancelled r), STime (br_created r), null_time (br_finished r)]"

definition row_of :: "string \<Rightarrow> brow list \<Rightarrow> brow option" where
  "row_of bid rs = find (\<lambda>r. br_id r = bid) rs"

definition at_row :: "string \<Rightarrow> (brow \<Rightarrow> brow) \<Rightarrow> brow list \<Rightarrow> brow list" where
  "at_row bid f rs = map (\<lambda>r. if br_id r = bid then f r else r) rs"

definition row_decrement :: "bool \<Rightarrow> int \<Rightarrow> brow \<Rightarrow> brow" where
  "row_decrement in_order now r =
     (let pending = br_pending r - 1; seen = (if in_order then pending else br_pending r)
      in r\<lparr>br_pending := pending, br_finished := (if seen = 1 then Some now else br_finished r)\<rparr>)"

definition row_increment :: "string \<Rightarrow> brow \<Rightarrow> brow" where
  "row_increment ids r = r\<lparr>br_failed := br_failed r + 1, br_ids := ids\<rparr>"

definition row_prunable :: "int \<Rightarrow> brow \<Rightarrow> bool" where
  "row_prunable cutoff r \<longleftrightarrow> (case br_finished r of None \<Rightarrow> False | Some t \<Rightarrow> t < cutoff)"

definition new_brow :: "string \<Rightarrow> string \<Rightarrow> int \<Rightarrow> int \<Rightarrow> string \<Rightarrow> int \<Rightarrow> brow" where
  "new_brow bid nm tot pend opts now =
     \<lparr>br_id = bid, br_name = nm, br_total = tot, br_pending = pend, br_failed = 0, br_ids = ''[]'', br_options = opts,
      br_cancelled = None, br_created = now, br_finished = None\<rparr>"

definition row_reply :: "('r \<Rightarrow> sqlval list) \<Rightarrow> 'r option \<Rightarrow> sql_error + sqlval list" where
  "row_reply f r = (case r of None \<Rightarrow> Inl ErrNoRows | Some x \<Rightarrow> Inr (f x))"

locale batch_sql =
  fixes db :: "'s sqldb" and view :: "'s \<Rightarrow> brow list" and t :: string and in_order :: bool
  assumes insert_row: "row_of bid (view s) = None \<Longrightarrow>
      \<exists>n s'. db_exec db (create_sql t) [SText bid, SText nm, SInt tot, SInt pend, SText opts, STime now] s = (Inr n, s') \<and>
        view s' = view s @ [new_brow bid nm tot pend opts now]"
    and select_row: "\<exists>s'. db_query_row db (find_sql t) [SText bid] s = (row_reply brow_cells (row_of bid (view s)), s') \<and>
        view s' = view s"
    and select_cancelled: "\<exists>s'. db_query_row db (cancelled_sql t) [SText bid] s =
        (row_reply (\<lambda>r. [null_time (br_cancelled r)]) (row_of bid (view s)), s') \<and> view s' = view s"
    and update_pending: "\<exists>n s'. db_exec db (decrement_sql t) [STime now, SText bid] s = (Inr n, s') \<and>
        view s' = at_row bid (row_decrement in_order now) (view s)"
    and update_failed: "\<exists>n s'. db_exec db (increment_sql t) [SText ids, SText bid] s = (Inr n, s') \<and>
        view s' = at_row bid (row_increment ids) (view s)"
    and update_cancelled: "\<exists>n s'. db_exec db (cancel_sql t) [STime now, SText bid] s = (Inr n, s') \<and>
        view s' = at_row bid (\<lambda>r. r\<lparr>br_cancelled := Some now\<rparr>) (view s)"
    and delete_finished: "\<exists>s'. db_exec db (prune_sql t) [STime cutoff] s =
        (Inr (Inr (int (length (filter (row_prunable cutoff) (view s))))), s') \<and>
        view s' = filter (\<lambda>r. \<not> row_prunable cutoff r) (view s)"

section \<open>Rows\<close>

lemma row_of_at_row:
  assumes "\<And>r. br_id (f r) = br_id r"
  shows "row_of c (at_row bid f rs) = (if c = bid then map_option f (row_of c rs) else row_of c rs)"
  by (induction rs) (auto simp: row_of_def at_row_def assms)

lemma row_of_snoc: "row_of c (rs @ [r]) = (case row_of c rs of Some x \<Rightarrow> Some x | None \<Rightarrow> if br_id r = c then Some r else None)"
  by (induction rs) (auto simp: row_of_def)

lemma row_ids [simp]: "br_id (row_decrement o1 now r) = br_id r" "br_id (row_increment ids r) = br_id r"
  by (simp_all add: row_decrement_def row_increment_def Let_def)

text \<open>The batch a row is read as.\<close>

definition batch_of :: "brow \<Rightarrow> batch" where
  "batch_of r =
     \<lparr>BID = br_id r, BName = br_name r, TotalJobs = br_total r, PendingJobs = br_pending r, FailedJobs = br_failed r,
      FailedJobIDs = failed_ids (br_ids r), BOptions = br_options r, CancelledAt = br_cancelled r,
      CreatedAt = br_created r, FinishedAt = br_finished r\<rparr>"

lemma scan_brow [simp]: "scan_batch db (brow_cells r) = Some (batch_of r)"
  by (simp add: scan_batch_def brow_cells_def batch_of_def)

section \<open>The operations on rows\<close>

context batch_sql
begin

abbreviation repo :: repository where "repo \<equiv> \<lparr>rtable = t\<rparr>"

lemma Find_row:
  "\<exists>s'. Batch_Find db repo bid s =
     ((case row_of bid (view s) of None \<Rightarrow> Inl (EFind ErrNoRows) | Some r \<Rightarrow> Inr (batch_of r)), s') \<and> view s' = view s"
  using select_row [of bid s] by (auto simp: Batch_Find_def row_reply_def split: option.split)

lemma IsCancelled_row:
  "\<exists>s'. IsCancelled db repo bid s =
     ((case row_of bid (view s) of None \<Rightarrow> Inl (EIsCancelled ErrNoRows) | Some r \<Rightarrow> Inr (Cancelled (batch_of r))), s') \<and>
     view s' = view s"
  using select_cancelled [of bid s]
  by (auto simp: IsCancelled_def row_reply_def Cancelled_def batch_of_def split: option.split)

lemma Create_row:
  assumes "row_of bid (view s) = None"
  shows "\<exists>s'. Batch_Create db repo bid now opts s = (Inr (batch_of (new_brow bid (OName opts) (OTotalJobs opts) (OTotalJobs opts)
      (options_json opts) now)), s') \<and>
    view s' = view s @ [new_brow bid (OName opts) (OTotalJobs opts) (OTotalJobs opts) (options_json opts) now]"
proof -
  have "failed_ids ''[]'' = []" by code_simp
  then show ?thesis
    using insert_row [OF assms, of "OName opts" "OTotalJobs opts" "OTotalJobs opts" "options_json opts" now]
    by (auto simp: Batch_Create_def Let_def batch_of_def new_brow_def)
qed

lemma Decrement_row:
  assumes "row_of bid (view s) = Some r"
  shows "\<exists>s'. DecrementPendingJobs db repo now bid s = (Inr (batch_of (row_decrement in_order now r)), s') \<and>
    row_of bid (view s') = Some (row_decrement in_order now r)"
proof -
  obtain n s1 where s1: "db_exec db (decrement_sql t) [STime now, SText bid] s = (Inr n, s1)"
    "view s1 = at_row bid (row_decrement in_order now) (view s)" using update_pending by blast
  then have "row_of bid (view s1) = Some (row_decrement in_order now r)" using assms by (simp add: row_of_at_row)
  with Find_row [of bid s1] s1(1) show ?thesis by (auto simp: DecrementPendingJobs_def)
qed

lemma Increment_row:
  assumes "row_of bid (view s) = Some r"
  shows "\<exists>s'. IncrementFailedJobs db repo bid jobID s = (None, s') \<and>
    row_of bid (view s') = Some (row_increment (ids_json (failed_ids (br_ids r) @ [jobID])) r)"
proof -
  obtain s1 where s1: "Batch_Find db repo bid s = (Inr (batch_of r), s1)" "view s1 = view s"
    using Find_row [of bid s] assms by auto
  let ?ids = "ids_json (failed_ids (br_ids r) @ [jobID])"
  obtain n s2 where "db_exec db (increment_sql t) [SText ?ids, SText bid] s1 = (Inr n, s2)"
    "view s2 = at_row bid (row_increment ?ids) (view s1)" using update_failed by blast
  with s1 assms show ?thesis
    by (auto simp: IncrementFailedJobs_def exec_error_def batch_of_def row_of_at_row)
qed

lemma Cancel_row:
  "\<exists>s'. Batch_Cancel db repo now bid s = (None, s') \<and> view s' = at_row bid (\<lambda>r. r\<lparr>br_cancelled := Some now\<rparr>) (view s)"
  using update_cancelled [of now bid s] by (auto simp: Batch_Cancel_def exec_error_def)

lemma Prune_rows:
  "\<exists>s'. Prune db repo now olderThan s = (Inr (int (length (filter (row_prunable (now - olderThan)) (view s)))), s') \<and>
     view s' = filter (\<lambda>r. \<not> row_prunable (now - olderThan) r) (view s)"
  using delete_finished [of "now - olderThan" s] by (auto simp: Prune_def)

end

section \<open>A table in memory\<close>

definition mem_batch_exec :: "bool \<Rightarrow> string \<Rightarrow> string \<Rightarrow> sqlval list \<Rightarrow> brow list \<Rightarrow> (sql_error + (sql_error + int)) \<times> brow list" where
  "mem_batch_exec in_order t q args rs =
     (case args of
        [SText bid, SText nm, SInt tot, SInt pend, SText opts, STime now] \<Rightarrow>
          if q = create_sql t \<and> row_of bid rs = None then (Inr (Inr 1), rs @ [new_brow bid nm tot pend opts now])
          else (Inl (ErrSql ''insert''), rs)
      | [STime now, SText bid] \<Rightarrow>
          if q = decrement_sql t then (Inr (Inr 1), at_row bid (row_decrement in_order now) rs)
          else if q = cancel_sql t then (Inr (Inr 1), at_row bid (\<lambda>r. r\<lparr>br_cancelled := Some now\<rparr>) rs)
          else (Inl (ErrSql ''update''), rs)
      | [SText ids, SText bid] \<Rightarrow>
          if q = increment_sql t then (Inr (Inr 1), at_row bid (row_increment ids) rs) else (Inl (ErrSql ''update''), rs)
      | [STime cutoff] \<Rightarrow>
          if q = prune_sql t
          then (Inr (Inr (int (length (filter (row_prunable cutoff) rs)))), filter (\<lambda>r. \<not> row_prunable cutoff r) rs)
          else (Inl (ErrSql ''delete''), rs)
      | _ \<Rightarrow> (Inl (ErrSql ''arguments''), rs))"

definition mem_batch_row :: "string \<Rightarrow> string \<Rightarrow> sqlval list \<Rightarrow> brow list \<Rightarrow> (sql_error + sqlval list) \<times> brow list" where
  "mem_batch_row t q args rs =
     (case args of
        [SText bid] \<Rightarrow>
          if q = find_sql t then (row_reply brow_cells (row_of bid rs), rs)
          else if q = cancelled_sql t then (row_reply (\<lambda>r. [null_time (br_cancelled r)]) (row_of bid rs), rs)
          else (Inl (ErrSql ''select''), rs)
      | _ \<Rightarrow> (Inl (ErrSql ''arguments''), rs))"

definition mem_batch_db :: "bool \<Rightarrow> string \<Rightarrow> brow list sqldb" where
  "mem_batch_db in_order t =
     \<lparr>db_exec = mem_batch_exec in_order t, db_query = (\<lambda>q args rs. (Inl (ErrSql ''query''), rs)),
      db_query_row = mem_batch_row t, time_text = (\<lambda>_. [])\<rparr>"

lemma sql_distinct: "cancel_sql t \<noteq> decrement_sql t" "cancelled_sql t \<noteq> find_sql t"
  by (simp_all add: cancel_sql_def decrement_sql_def cancelled_sql_def find_sql_def batch_columns_def)

interpretation batch_mem: batch_sql "mem_batch_db in_order t" "\<lambda>rs. rs" t in_order for in_order t
  by unfold_locales (simp_all add: mem_batch_db_def mem_batch_exec_def mem_batch_row_def sql_distinct)

section \<open>Counting down\<close>

text \<open>One \<open>DecrementPendingJobs\<close> per time, and the batches they return.\<close>

fun decrements :: "'s sqldb \<Rightarrow> repository \<Rightarrow> string \<Rightarrow> int list \<Rightarrow> 's \<Rightarrow> (batch_error + batch) list \<times> 's" where
  "decrements db r bid [] s = ([], s)"
| "decrements db r bid (now # ts) s =
     (case DecrementPendingJobs db r now bid s of
        (b, s1) \<Rightarrow> (case decrements db r bid ts s1 of (bs, s2) \<Rightarrow> (b # bs, s2)))"

fun row_history :: "bool \<Rightarrow> int list \<Rightarrow> brow \<Rightarrow> brow list" where
  "row_history in_order [] r = []"
| "row_history in_order (now # ts) r =
     row_decrement in_order now r # row_history in_order ts (row_decrement in_order now r)"

lemma length_row_history [simp]: "length (row_history o1 ts r) = length ts"
  by (induction ts arbitrary: r) simp_all

lemma row_history_nth:
  assumes "k < length ts"
  shows "br_total (row_history o1 ts r ! k) = br_total r"
    "br_pending (row_history o1 ts r ! k) = br_pending r - int k - 1"
    "br_finished (row_history o1 ts r ! k) \<noteq> None \<longleftrightarrow>
       br_finished r \<noteq> None \<or> (\<exists>j \<le> k. br_pending r - int j = (if o1 then 2 else 1))"
  using assms
proof (induction ts arbitrary: r k)
  case (Cons now ts)
  {
    case 1
    then show ?case using Cons.IH(1) by (cases k) (simp_all add: row_decrement_def Let_def)
  next
    case 2
    then show ?case using Cons.IH(2) by (cases k) (simp_all add: row_decrement_def Let_def)
  next
    case 3
    have split: "(\<exists>j \<le> Suc i. P j) \<longleftrightarrow> P 0 \<or> (\<exists>j \<le> i. P (Suc j))" for P i
      by (metis Suc_le_mono le0 not0_implies_Suc)
    from 3 show ?case
    proof (cases k)
      case (Suc i)
      with 3 Cons.IH(3) [of i "row_decrement o1 now r"] show ?thesis
        by (simp add: split row_decrement_def Let_def algebra_simps)
    qed (simp add: row_decrement_def Let_def)
  }
qed simp_all

text \<open>Without overflow, progress is the percentage rounded down.\<close>

lemma progress_of:
  assumes "0 < n" "n * 100 < 2 ^ 63" "0 \<le> k" "k \<le> n" "TotalJobs b = n" "PendingJobs b = n - k"
  shows "Progress b = k * 100 div n"
proof -
  have "k * 100 \<le> n * 100" using assms(4) by simp
  then have k: "wrap64 k = k" "wrap64 (k * 100) = k * 100" using assms(2,3) by (simp_all add: wrap64_id)
  have "k * 100 sdiv n = k * 100 div n" using assms(1,3) by (simp add: signed_divide_int_def sgn_if)
  moreover have "0 \<le> k * 100 div n" "k * 100 div n \<le> k * 100"
    using assms(1,3) zdiv_mono2 [of "k * 100" 1 n] by (simp_all add: pos_imp_zdiv_nonneg_iff)
  ultimately show ?thesis using k assms \<open>k * 100 \<le> n * 100\<close> by (simp add: Progress_def wrap64_id)
qed

context batch_sql
begin

lemma decrements_rows:
  "row_of bid (view s) = Some r \<Longrightarrow>
    \<exists>s'. decrements db repo bid ts s = (map (\<lambda>r. Inr (batch_of r)) (row_history in_order ts r), s')"
proof (induction ts arbitrary: s r)
  case (Cons now ts)
  obtain s1 where "DecrementPendingJobs db repo now bid s = (Inr (batch_of (row_decrement in_order now r)), s1)"
    "row_of bid (view s1) = Some (row_decrement in_order now r)" using Decrement_row [OF Cons.prems] by blast
  with Cons.IH [of s1] show ?case by auto
qed simp

end



section \<open>Failed jobs of a batch\<close>

fun increments :: "'s sqldb \<Rightarrow> repository \<Rightarrow> string \<Rightarrow> string list \<Rightarrow> 's \<Rightarrow> batch_error option list \<times> 's" where
  "increments db r bid [] s = ([], s)"
| "increments db r bid (jobID # jobIDs) s =
     (case IncrementFailedJobs db r bid jobID s of
        (e, s1) \<Rightarrow> (case increments db r bid jobIDs s1 of (es, s2) \<Rightarrow> (e # es, s2)))"

lemma failed_ids_json:
  assumes "list_all valid_utf8 ids"
  shows "failed_ids (ids_json ids) = ids"
proof -
  have "jdepth (JArr (map JStr ids)) = 1" by (simp add: comp_def) (induction ids, auto)
  then have "parse_json (ids_json ids) = Some (JArr (map JStr ids))"
    using parse_print [of "JArr (map JStr ids)"] assms
    by (auto simp: ids_json_def maxNestingDepth_def valid_utf8_def list_all_iff intro: map_idI)
  moreover have "ids_json ids \<noteq> []" by (simp add: ids_json_def)
  ultimately show ?thesis by (simp add: failed_ids_def comp_def)
qed

context batch_sql
begin

lemma increments_row:
  "row_of bid (view s) = Some r \<Longrightarrow> failed_ids (br_ids r) = ids \<Longrightarrow> list_all valid_utf8 (ids @ jobIDs) \<Longrightarrow>
    \<exists>s' r'. increments db repo bid jobIDs s = (map (\<lambda>_. None) jobIDs, s') \<and> row_of bid (view s') = Some r' \<and>
      br_failed r' = br_failed r + int (length jobIDs) \<and> failed_ids (br_ids r') = ids @ jobIDs"
proof (induction jobIDs arbitrary: s r ids)
  case (Cons jobID jobIDs)
  let ?r = "row_increment (ids_json (ids @ [jobID])) r"
  obtain s1 where s1: "IncrementFailedJobs db repo bid jobID s = (None, s1)" "row_of bid (view s1) = Some ?r"
    using Increment_row [OF Cons.prems(1)] Cons.prems(2) by blast
  have "failed_ids (br_ids ?r) = ids @ [jobID]"
    using Cons.prems(3) by (simp add: row_increment_def failed_ids_json)
  from Cons.IH [OF s1(2) this] Cons.prems(3) s1(1) show ?case by (auto simp: row_increment_def)
qed auto

end

text \<open>
  C40: the failures of a batch are all recorded. After \<open>IncrementFailedJobs\<close> for a list of job
  ids, one after the other, the batch that \<open>Find\<close> reads back from the table has as many failed
  jobs and lists their ids in order: the JSON column gives back what was written.
\<close>

theorem failures_are_recorded:
  assumes "batch_sql db view t in_order" "row_of bid (view s) = None" "list_all valid_utf8 jobIDs"
  shows "\<exists>b0 s0 s1 b s2. Batch_Create db \<lparr>rtable = t\<rparr> bid now opts s = (Inr b0, s0) \<and>
    increments db \<lparr>rtable = t\<rparr> bid jobIDs s0 = (map (\<lambda>_. None) jobIDs, s1) \<and>
    Batch_Find db \<lparr>rtable = t\<rparr> bid s1 = (Inr b, s2) \<and> view s2 = view s1 \<and>
    FailedJobs b = int (length jobIDs) \<and> FailedJobIDs b = jobIDs \<and> HasFailures b = (jobIDs \<noteq> [])"
proof -
  let ?r = "new_brow bid (OName opts) (OTotalJobs opts) (OTotalJobs opts) (options_json opts) now"
  obtain s0 where s0: "Batch_Create db \<lparr>rtable = t\<rparr> bid now opts s = (Inr (batch_of ?r), s0)" "view s0 = view s @ [?r]"
    using batch_sql.Create_row [OF assms(1,2), of now opts] by auto
  have r: "row_of bid (view s0) = Some ?r" using assms(2) s0(2) by (simp add: row_of_snoc new_brow_def)
  have "failed_ids (br_ids ?r) = []" unfolding new_brow_def brow.simps by code_simp
  with batch_sql.increments_row [OF assms(1) r this, of jobIDs] assms(3) obtain s1 r' where
    s1: "increments db \<lparr>rtable = t\<rparr> bid jobIDs s0 = (map (\<lambda>_. None) jobIDs, s1)" "row_of bid (view s1) = Some r'"
      "br_failed r' = br_failed ?r + int (length jobIDs)" "failed_ids (br_ids r') = jobIDs"
    by (metis append_Nil)
  moreover obtain s2 where "Batch_Find db \<lparr>rtable = t\<rparr> bid s1 = (Inr (batch_of r'), s2)" "view s2 = view s1"
    using batch_sql.Find_row [OF assms(1), of bid s1] s1(2) by auto
  moreover have "br_failed ?r = 0" by (simp add: new_brow_def)
  ultimately show ?thesis using s0(1) by (auto simp: batch_of_def HasFailures_def)
qed

theorem failures_are_recorded_witness:
  "\<exists>b0 s0 s1 b s2. Batch_Create (mem_batch_db False ''b'') \<lparr>rtable = ''b''\<rparr> ''x'' 0
       \<lparr>OName = ''import'', OTotalJobs = 3, AllowFailures = False, OnFinish = [], OnSuccess = [], OnError = []\<rparr> [] = (Inr b0, s0) \<and>
     increments (mem_batch_db False ''b'') \<lparr>rtable = ''b''\<rparr> ''x'' [''j1'', ''j2''] s0 = ([None, None], s1) \<and>
     Batch_Find (mem_batch_db False ''b'') \<lparr>rtable = ''b''\<rparr> ''x'' s1 = (Inr b, s2) \<and> FailedJobIDs b = [''j1'', ''j2'']"
proof -
  have "list_all valid_utf8 [''j1'', ''j2'']" by (simp add: valid_utf8_def) code_simp
  from failures_are_recorded [OF batch_mem.batch_sql_axioms _ this, where bid = "''x''" and s = "[]" and now = 0 and t = "''b''"
      and in_order = False
      and opts = "\<lparr>OName = ''import'', OTotalJobs = 3, AllowFailures = False, OnFinish = [], OnSuccess = [], OnError = []\<rparr>"]
  show ?thesis by (auto simp: row_of_def)
qed

end
