(* ===== verification/Go_Duration.thy ===== *)
theory Go_Duration
  imports Go_Float
begin

text \<open>
  \<open>time.ParseDuration\<close>: a signed sequence of decimal numbers with units, in nanoseconds, with
  its overflow checks in \<open>uint64\<close>; fractions go through \<open>float64\<close>.
\<close>

section \<open>Float products\<close>

definition float_mul :: "float64 \<Rightarrow> float64 \<Rightarrow> float64" where
  "float_mul a b =
     (case round_f64 (fsign a \<noteq> fsign b) (funits a * funits b) (2 ^ unit_exp * 2 ^ unit_exp) of
        Some f \<Rightarrow> f | None \<Rightarrow> Inf (if fsign a \<noteq> fsign b then -1 else 1))"

definition float_of_nat :: "nat \<Rightarrow> float64" where
  "float_of_nat n = (case round_f64 False n 1 of Some f \<Rightarrow> f | None \<Rightarrow> Inf 1)"

text \<open>\<open>uint64(float64(f) * (float64(unit) / scale))\<close>, with \<open>scale = 10 ^ k\<close> exact.\<close>

definition fraction_part :: "nat \<Rightarrow> nat \<Rightarrow> nat \<Rightarrow> nat" where
  "fraction_part f unit k =
     (case round_f64 False unit (10 ^ k) of
        Some q \<Rightarrow> funits (float_mul (float_of_nat f) q) div 2 ^ unit_exp
      | None \<Rightarrow> 0)"

section \<open>The parser\<close>

fun leadingInt :: "nat \<Rightarrow> string \<Rightarrow> (nat \<times> string) option" where
  "leadingInt x [] = Some (x, [])"
| "leadingInt x (c # cs) =
     (if \<not> is_digit c then Some (x, c # cs)
      else if 2 ^ 63 div 10 < x then None
      else if 2 ^ 63 < x * 10 + digit_val c then None
      else leadingInt (x * 10 + digit_val c) cs)"

text \<open>The digits read, how many of them count, and the rest; further digits are skipped.\<close>

fun leadingFraction :: "nat \<Rightarrow> nat \<Rightarrow> bool \<Rightarrow> string \<Rightarrow> nat \<times> nat \<times> string" where
  "leadingFraction x k overflow [] = (x, k, [])"
| "leadingFraction x k overflow (c # cs) =
     (if \<not> is_digit c then (x, k, c # cs)
      else if overflow then leadingFraction x k True cs
      else if (2 ^ 63 - 1) div 10 < x then leadingFraction x k True cs
      else if 2 ^ 63 < x * 10 + digit_val c then leadingFraction x k True cs
      else leadingFraction (x * 10 + digit_val c) (Suc k) False cs)"

definition unit_of :: "string \<Rightarrow> nat option" where
  "unit_of u =
     (if u = ''ns'' then Some 1
      else if u \<in> {''us'', [CHR 0xC2, CHR 0xB5, CHR ''s''], [CHR 0xCE, CHR 0xBC, CHR ''s'']} then Some 1000
      else if u = ''ms'' then Some 1000000
      else if u = ''s'' then Some 1000000000
      else if u = ''m'' then Some (60 * 1000000000)
      else if u = ''h'' then Some (3600 * 1000000000)
      else None)"

definition in_number :: "char \<Rightarrow> bool" where
  "in_number c \<longleftrightarrow> c = CHR ''.'' \<or> is_digit c"

text \<open>One number with its unit: its nanoseconds and the rest.\<close>

definition read_component :: "string \<Rightarrow> (nat \<times> string) option" where
  "read_component s =
     (if \<not> in_number (hd s) then None
      else case leadingInt 0 s of
             None \<Rightarrow> None
           | Some (v, s1) \<Rightarrow>
               (case (if s1 \<noteq> [] \<and> hd s1 = CHR ''.'' then leadingFraction 0 0 False (tl s1) else (0, 0, s1)) of
                  (f, k, s2) \<Rightarrow>
                    let pre = length s \<noteq> length s1;
                        post = s1 \<noteq> [] \<and> hd s1 = CHR ''.'' \<and> length (tl s1) \<noteq> length s2;
                        u = takeWhile (\<lambda>c. \<not> in_number c) s2;
                        s3 = dropWhile (\<lambda>c. \<not> in_number c) s2
                    in if \<not> pre \<and> \<not> post then None
                       else if u = [] then None
                       else (case unit_of u of
                               None \<Rightarrow> None
                             | Some unit \<Rightarrow>
                                 if 2 ^ 63 div unit < v then None
                                 else if 0 < f
                                 then (let w = v * unit + fraction_part f unit k in if 2 ^ 63 < w then None else Some (w, s3))
                                 else Some (v * unit, s3))))"

text \<open>Every component consumes input; the fuel is its length. The sum is a \<open>uint64\<close>.\<close>

fun components :: "nat \<Rightarrow> nat \<Rightarrow> string \<Rightarrow> nat option" where
  "components n d [] = Some d"
| "components 0 d (c # cs) = None"
| "components (Suc n) d (c # cs) =
     (case read_component (c # cs) of
        None \<Rightarrow> None
      | Some (v, s) \<Rightarrow>
          (let d' = (d + v) mod 2 ^ 64 in if 2 ^ 63 < d' then None else components n d' s))"

definition ParseDuration :: "string \<Rightarrow> int option" where
  "ParseDuration orig =
     (let neg = (orig \<noteq> [] \<and> hd orig = CHR ''-'');
          s = (if orig \<noteq> [] \<and> (hd orig = CHR ''-'' \<or> hd orig = CHR ''+'') then tl orig else orig)
      in if s = ''0'' then Some 0
         else if s = [] then None
         else (case components (length s) 0 s of
                 None \<Rightarrow> None
               | Some d \<Rightarrow>
                   if neg then Some (- int d)
                   else if 2 ^ 63 - 1 < d then None
                   else Some (int d)))"

section \<open>Whole numbers of a unit\<close>

lemma leadingInt_digits:
  "all_digits ds \<Longrightarrow> dec_val x ds < 2 ^ 63 \<Longrightarrow> \<not> is_digit c \<Longrightarrow> leadingInt x (ds @ c # cs) = Some (dec_val x ds, c # cs)"
proof (induction ds arbitrary: x)
  case (Cons a ds)
  have grow: "y \<le> dec_val y zs" for y zs
  proof (induction zs arbitrary: y)
    case (Cons z zs)
    have "y \<le> y * 10 + digit_val z" by simp
    also have "\<dots> \<le> dec_val (y * 10 + digit_val z) zs" by (rule Cons.IH)
    finally show ?case by simp
  qed simp
  have "x * 10 + digit_val a \<le> dec_val (x * 10 + digit_val a) ds" by (rule grow)
  with Cons.prems have "x * 10 + digit_val a < 2 ^ 63" by simp
  moreover then have "\<not> 2 ^ 63 div 10 < x" by simp
  ultimately show ?case using Cons by simp
qed simp

lemma ParseDuration_seconds:
  assumes "n * 1000000000 < 2 ^ 63"
  shows "ParseDuration (FormatUint n @ ''s'') = Some (int n * 1000000000)"
proof -
  have hd: "is_digit (hd (FormatUint n))" "FormatUint n \<noteq> []" by (simp_all add: hd_FormatUint)
  obtain c cs where ds: "FormatUint n = c # cs" "is_digit c" using hd by (cases "FormatUint n") auto
  have sep: "c \<noteq> CHR ''-''" "c \<noteq> CHR ''+''" using ds(2) by auto
  have "n < 2 ^ 63" using assms by simp
  then have "leadingInt 0 (FormatUint n @ ''s'') = Some (n, ''s'')"
    using leadingInt_digits [of "FormatUint n" 0 "CHR ''s''" "[]"] by (simp add: is_digit_def)
  moreover have "length (FormatUint n @ ''s'') \<noteq> length ''s''" using hd(2) by simp
  ultimately have rc: "read_component (FormatUint n @ ''s'') = Some (n * 1000000000, [])"
    using assms hd by (simp add: read_component_def in_number_def unit_of_def is_digit_def)
  have "FormatUint n @ ''s'' = c # cs @ ''s''" by (simp add: ds)
  moreover have "components (length (FormatUint n @ ''s'')) 0 (FormatUint n @ ''s'') = Some (n * 1000000000)"
    using rc assms by (cases "FormatUint n @ ''s''") auto
  ultimately show ?thesis
    using assms sep by (auto simp: ParseDuration_def Let_def)
qed

end
