(* ===== verification/App_Config.thy ===== *)
theory App_Config
  imports Go_Duration Queue_Worker
begin

text \<open>
  \<open>config.go\<close> and \<open>cmd/lqworker/main.go\<close>, from the parsed flags and the environment over the driver
  configuration and the worker to the status the program exits with. What \<open>flag.Parse\<close> makes of the
  command line, whether Redis answers the ping, and the signals that end the context are
  arguments; the log lines are left out. The environment is a function from names to values, empty when a
  variable is not set.
\<close>

section \<open>Configuration\<close>

record config =
  RedisAddr :: string
  RedisPassword :: string
  RedisDB :: int
  RedisPrefix :: string
  DefaultQueue :: string
  CRetryAfter :: int
  CBlockFor :: int
  CConcurrency :: int
  CMaxJobs :: int
  CMaxTime :: int
  CSleep :: int
  MigrationBatchSize :: int
  FailedJobsTable :: string
  FailedJobsDriver :: string
  DatabaseDSN :: string

definition DefaultConfig :: config where
  "DefaultConfig =
     \<lparr>RedisAddr = ''127.0.0.1:6379'', RedisPassword = [], RedisDB = 0, RedisPrefix = ''laravel-database-'',
      DefaultQueue = ''default'', CRetryAfter = 90 * second, CBlockFor = 5 * second, CConcurrency = 1, CMaxJobs = 0,
      CMaxTime = 0, CSleep = 3 * second, MigrationBatchSize = 100, FailedJobsTable = ''failed_jobs'',
      FailedJobsDriver = ''database'', DatabaseDSN = []\<rparr>"

text \<open>The three shapes of an override: a string, an \<open>int\<close>, a duration; what does not parse is ignored.\<close>

definition env_string :: "string \<Rightarrow> (string \<Rightarrow> config \<Rightarrow> config) \<Rightarrow> config \<Rightarrow> config" where
  "env_string v upd c = (if v \<noteq> [] then upd v c else c)"

definition env_int :: "string \<Rightarrow> (int \<Rightarrow> config \<Rightarrow> config) \<Rightarrow> config \<Rightarrow> config" where
  "env_int v upd c = (if v \<noteq> [] then (case Atoi v of Inr n \<Rightarrow> upd n c | Inl _ \<Rightarrow> c) else c)"

definition env_duration :: "string \<Rightarrow> (int \<Rightarrow> config \<Rightarrow> config) \<Rightarrow> config \<Rightarrow> config" where
  "env_duration v upd c = (if v \<noteq> [] then (case ParseDuration v of Some d \<Rightarrow> upd d c | None \<Rightarrow> c) else c)"

definition FromEnv :: "(string \<Rightarrow> string) \<Rightarrow> config" where
  "FromEnv getenv =
     (let c = DefaultConfig;
          c = env_string (getenv ''REDIS_HOST'') (\<lambda>v c. c\<lparr>RedisAddr := v\<rparr>) c;
          c = env_string (getenv ''REDIS_PASSWORD'') (\<lambda>v c. c\<lparr>RedisPassword := v\<rparr>) c;
          c = env_int (getenv ''REDIS_DB'') (\<lambda>n c. c\<lparr>RedisDB := n\<rparr>) c;
          c = env_string (getenv ''REDIS_PREFIX'') (\<lambda>v c. c\<lparr>RedisPrefix := v\<rparr>) c;
          c = env_string (getenv ''QUEUE_NAME'') (\<lambda>v c. c\<lparr>DefaultQueue := v\<rparr>) c;
          c = env_duration (getenv ''QUEUE_RETRY_AFTER'') (\<lambda>d c. c\<lparr>CRetryAfter := d\<rparr>) c;
          c = env_duration (getenv ''QUEUE_BLOCK_FOR'') (\<lambda>d c. c\<lparr>CBlockFor := d\<rparr>) c;
          c = env_int (getenv ''QUEUE_CONCURRENCY'') (\<lambda>n c. c\<lparr>CConcurrency := n\<rparr>) c;
          c = env_int (getenv ''QUEUE_MAX_JOBS'') (\<lambda>n c. c\<lparr>CMaxJobs := n\<rparr>) c;
          c = env_int (getenv ''QUEUE_MAX_TIME'') (\<lambda>n c. c\<lparr>CMaxTime := n\<rparr>) c;
          c = env_duration (getenv ''QUEUE_SLEEP'') (\<lambda>d c. c\<lparr>CSleep := d\<rparr>) c;
          c = env_int (getenv ''QUEUE_MIGRATION_BATCH_SIZE'') (\<lambda>n c. c\<lparr>MigrationBatchSize := n\<rparr>) c;
          c = env_string (getenv ''QUEUE_FAILED_TABLE'') (\<lambda>v c. c\<lparr>FailedJobsTable := v\<rparr>) c;
          c = env_string (getenv ''QUEUE_FAILED_DRIVER'') (\<lambda>v c. c\<lparr>FailedJobsDriver := v\<rparr>) c;
          c = env_string (getenv ''DATABASE_URL'') (\<lambda>v c. c\<lparr>DatabaseDSN := v\<rparr>) c
      in c)"

section \<open>The command line worker\<close>

record flags =
  queueName :: string
  fconnection :: string
  fsleep :: int
  fretryAfter :: int
  fblockFor :: int
  maxJobs :: int
  maxTime :: int
  concurrency :: int
  redisAddr :: string
  redisPass :: string
  redisDB :: int
  fprefix :: string
  showVersion :: bool

definition default_flags :: flags where
  "default_flags =
     \<lparr>queueName = [], fconnection = ''redis'', fsleep = 0, fretryAfter = 0, fblockFor = 0, maxJobs = 0, maxTime = 0,
      concurrency = 0, redisAddr = [], redisPass = [], redisDB = -1, fprefix = [], showVersion = False\<rparr>"

definition override :: "flags \<Rightarrow> config \<Rightarrow> config" where
  "override fl cfg =
     (let c = cfg;
          c = (if queueName fl \<noteq> [] then c\<lparr>DefaultQueue := queueName fl\<rparr> else c);
          c = (if 0 < fsleep fl then c\<lparr>CSleep := fsleep fl\<rparr> else c);
          c = (if 0 < fretryAfter fl then c\<lparr>CRetryAfter := fretryAfter fl\<rparr> else c);
          c = (if 0 < fblockFor fl then c\<lparr>CBlockFor := fblockFor fl\<rparr> else c);
          c = (if 0 < maxJobs fl then c\<lparr>CMaxJobs := maxJobs fl\<rparr> else c);
          c = (if 0 < maxTime fl then c\<lparr>CMaxTime := maxTime fl\<rparr> else c);
          c = (if 0 < concurrency fl then c\<lparr>CConcurrency := concurrency fl\<rparr> else c);
          c = (if redisAddr fl \<noteq> [] then c\<lparr>RedisAddr := redisAddr fl\<rparr> else c);
          c = (if redisPass fl \<noteq> [] then c\<lparr>RedisPassword := redisPass fl\<rparr> else c);
          c = (if 0 \<le> redisDB fl then c\<lparr>RedisDB := redisDB fl\<rparr> else c);
          c = (if fprefix fl \<noteq> [] then c\<lparr>RedisPrefix := fprefix fl\<rparr> else c)
      in c)"

text \<open>\<open>strings.Split(s, ",")\<close>; the worker takes the first part.\<close>

fun split_commas :: "string \<Rightarrow> string list" where
  "split_commas [] = [[]]"
| "split_commas (c # cs) =
     (if c = CHR '','' then [] # split_commas cs
      else case split_commas cs of [] \<Rightarrow> [[c]] | p # ps \<Rightarrow> (c # p) # ps)"

definition driver_config :: "config \<Rightarrow> RedisDriverConfig" where
  "driver_config cfg = \<lparr>CfgPrefix = RedisPrefix cfg, NoPrefix = False, RetryAfter = CRetryAfter cfg, BlockFor = CBlockFor cfg,
     BatchSize = MigrationBatchSize cfg\<rparr>"

definition worker_options :: "config \<Rightarrow> workerOptions" where
  "worker_options cfg =
     \<lparr>WQueue = hd (split_commas (DefaultQueue cfg)), Concurrency = CConcurrency cfg, MaxJobs = CMaxJobs cfg,
      MaxTime = CMaxTime cfg, WSleep = CSleep cfg, StopOnEmpty = False\<rparr>"

text \<open>The handler that every job reaches: it only logs, so every job is acknowledged.\<close>

definition log_only :: "'s handler" where
  "log_only js = (None, js)"

definition lqworker :: "(string \<Rightarrow> string) \<Rightarrow> flags \<Rightarrow> RedisDriver \<times> 's worker" where
  "lqworker getenv fl =
     (let cfg = override fl (FromEnv getenv);
          mgr = Manager_RegisterDefault (SetConnection NewManager (fconnection fl)) (Some log_only)
      in (NewRedisDriver (driver_config cfg), Manager_Worker mgr (worker_options cfg)))"

text \<open>
  The end of \<open>main\<close>: \<open>Run\<close> gives the error of the context that \<open>signal.NotifyContext\<close> made, which is nil
  or \<open>context.Canceled\<close>, so the branch for another error is not reached. \<open>None\<close>: \<open>Run\<close> has not returned.
\<close>

datatype exit_status = Exit int | Crash gopanic

fun main_end :: "(unit, bool) outcome \<Rightarrow> exit_status option" where
  "main_end (Ok cancelled) = Some (Exit 0)"
| "main_end (Err e) = Some (Exit 1)"
| "main_end (Panic p) = Some (Crash p)"
| "main_end Fuel = None"

text \<open>
  \<open>main\<close> with the sequential loop; with a concurrency of more than one, \<open>Run\<close> is the step relation of
  the concurrent loop. \<open>ping\<close> tells whether the server at an address refuses the connection.
\<close>

definition lqworker_main ::
  "nat \<Rightarrow> 's client \<Rightarrow> (any \<Rightarrow> json option) \<Rightarrow> (job_error \<Rightarrow> string) \<Rightarrow> nat \<Rightarrow> ('b \<times> 's rworld) environment \<Rightarrow>
   (string \<Rightarrow> string \<Rightarrow> int \<Rightarrow> bool) \<Rightarrow> (string \<Rightarrow> string) \<Rightarrow> flags \<Rightarrow> 'b \<times> 's rworld \<Rightarrow>
   exit_status option \<times> 'b \<times> 's rworld" where
  "lqworker_main fuel cl oth show_err dfuel env ping getenv fl s =
     (if showVersion fl then (Some (Exit 0), s)
      else let cfg = override fl (FromEnv getenv) in
        if ping (RedisAddr cfg) (RedisPassword cfg) (RedisDB cfg) then (Some (Exit 1), s)
        else case lqworker getenv fl of
               (drv, w) \<Rightarrow>
                 let s1 = (fst s, (snd s)\<lparr>rdriver := drv\<rparr>);
                     tk = \<lparr>tdriver = flagged (redis_driver cl), tjson = oth, show_error = show_err, tfuel = dfuel\<rparr>
                 in (case Run_single fuel tk env (w, s1) of
                       None \<Rightarrow> (None, s1)
                     | Some (r, s2) \<Rightarrow> (main_end r, s2)))"

section \<open>Lemmas\<close>

lemma split_commas_ne [simp]: "split_commas s \<noteq> []"
  by (induction s) (auto split: list.split)

lemma split_commas_hd: "hd (split_commas s) = takeWhile (\<lambda>c. c \<noteq> CHR '','') s"
proof (induction s)
  case (Cons c cs)
  obtain p ps where "split_commas cs = p # ps" by (cases "split_commas cs") auto
  with Cons show ?case by simp
qed simp

text \<open>Reading a field out of a chain of overrides.\<close>

lemma env_field:
  "f (env_string v upd c) = (if v \<noteq> [] then f (upd v c) else f c)"
  "f (env_int v iupd c) = (if v \<noteq> [] then (case Atoi v of Inr n \<Rightarrow> f (iupd n c) | Inl _ \<Rightarrow> f c) else f c)"
  "f (env_duration v iupd c) = (if v \<noteq> [] then (case ParseDuration v of Some d \<Rightarrow> f (iupd d c) | None \<Rightarrow> f c) else f c)"
  by (auto simp: env_string_def env_int_def env_duration_def split: sum.splits option.splits)

text \<open>An override leaves the fields alone that its update leaves alone.\<close>

lemma env_other:
  "(\<And>x c. f (supd x c) = f c) \<Longrightarrow> f (env_string v supd c) = f c"
  "(\<And>x c. f (iupd x c) = f c) \<Longrightarrow> f (env_int v iupd c) = f c"
  "(\<And>x c. f (iupd x c) = f c) \<Longrightarrow> f (env_duration v iupd c) = f c"
  by (simp_all add: env_field split: option.split sum.split)

lemma FromEnv_fields:
  "CRetryAfter (FromEnv getenv) =
     (if getenv ''QUEUE_RETRY_AFTER'' = [] then 90 * second
      else case ParseDuration (getenv ''QUEUE_RETRY_AFTER'') of Some d \<Rightarrow> d | None \<Rightarrow> 90 * second)"
  "DefaultQueue (FromEnv getenv) = (if getenv ''QUEUE_NAME'' = [] then ''default'' else getenv ''QUEUE_NAME'')"
  unfolding FromEnv_def Let_def
  by (simp_all add: env_other [where f = CRetryAfter] env_field(3) [where f = CRetryAfter]
      env_other [where f = DefaultQueue] env_field(1) [where f = DefaultQueue] DefaultConfig_def split: option.split)

lemma override_fields:
  "CRetryAfter (override fl c) = (if 0 < fretryAfter fl then fretryAfter fl else CRetryAfter c)"
  "DefaultQueue (override fl c) = (if queueName fl \<noteq> [] then queueName fl else DefaultQueue c)"
  by (simp_all add: override_def Let_def)

text \<open>
  A flag beats the environment, which beats the default: the reservation time of the driver, and
  the queue of the worker, which is the first of a list separated by commas.
\<close>

lemma lqworker_retryAfter:
  "retryAfter (fst (lqworker getenv fl)) =
     (let r = (if 0 < fretryAfter fl then fretryAfter fl
               else if getenv ''QUEUE_RETRY_AFTER'' = [] then 90 * second
               else case ParseDuration (getenv ''QUEUE_RETRY_AFTER'') of Some d \<Rightarrow> d | None \<Rightarrow> 90 * second)
      in if r = 0 then 90 * second else r)"
  by (simp add: lqworker_def Let_def driver_config_def NewRedisDriver_def override_fields FromEnv_fields)

lemma lqworker_queue:
  "WQueue (options (snd (lqworker getenv fl))) =
     (let q = takeWhile (\<lambda>c. c \<noteq> CHR '','')
        (if queueName fl \<noteq> [] then queueName fl
         else if getenv ''QUEUE_NAME'' = [] then ''default'' else getenv ''QUEUE_NAME'')
      in if q = [] then ''default'' else q)"
  by (simp add: lqworker_def Let_def Manager_Worker_def newWorker_def worker_options_def split_commas_hd override_fields
      FromEnv_fields DefaultQueueName_def)

text \<open>The program exits with an error only if Redis does not answer.\<close>

lemma process_no_error: "fst (process tk w raw s) \<noteq> Err e"
  by (auto simp: process_def Let_def split: prod.splits option.splits outcome.splits)

lemma process_not_Err [simp]: "process tk w raw s \<noteq> (Err e, s')"
  using process_no_error [of tk w raw s e] by auto

lemma single_loop_no_error: "fst (single_loop fuel tk env w n t s) \<noteq> Err e"
  by (induction fuel tk env w n t s rule: single_loop.induct)
    (auto split: prod.splits option.splits outcome.splits fetchResult.splits)

lemma runSingle_no_error: "fst (runSingle fuel tk env w s) \<noteq> Err e"
  by (simp add: runSingle_def single_loop_no_error split: prod.split)

lemma lqworker_exit:
  assumes "lqworker_main fuel cl oth show_err dfuel env ping getenv fl s = (Some (Exit n), s')" "n \<noteq> 0"
  shows "n = 1 \<and> s' = s \<and> \<not> showVersion fl \<and>
    ping (RedisAddr (override fl (FromEnv getenv))) (RedisPassword (override fl (FromEnv getenv)))
      (RedisDB (override fl (FromEnv getenv)))"
proof -
  have "main_end (fst (runSingle fuel tk env w s)) \<noteq> Some (Exit n)" for tk w s
    using runSingle_no_error [of fuel tk env w s] assms(2) by (cases "fst (runSingle fuel tk env w s)") auto
  then show ?thesis
    using assms by (auto simp: lqworker_main_def Let_def Run_single_def split: if_splits prod.splits option.splits) (metis fst_conv)+
qed

end
