(* ===== verification/End_To_End.thy ===== *)
theory End_To_End
  imports Worker_Properties
begin

text \<open>
  From the arguments that are dispatched to the job a handler is given: the composition of the
  dispatcher, the codecs of the command, the payload's JSON, the Redis driver and the parser.
\<close>

section \<open>From the dispatcher to the handler\<close>

text \<open>What a handler gets when it asks its job for argument \<open>k\<close> by the accessor of the argument's type.\<close>

fun sees :: "jobT \<Rightarrow> string \<Rightarrow> any \<Rightarrow> bool" where
  "sees j k (VString s) = (Job_GetString j k = (Ok s :: (unit, string) outcome))"
| "sees j k (VInt n) = (Job_GetInt j k = n)"
| "sees j k (VBool b) = (Job_GetBool j k = b)"
| "sees j k (VFloat64 f) = (Job_GetFloat j k = f)"
| "sees j k v = (job_prop j k = Some v)"

lemmas accessor_defs = Job_GetString_def Job_GetInt_def Job_GetFloat_def Job_GetBool_def GetString_def GetInt_def GetFloat_def
  GetBool_def deref_def get_prop_def job_value_def job_prop_def

lemma sees_php:
  assumes "get_obj h a = Some ob" "map_of (Properties ob) k = Some (php_read v)" "scalar v"
  shows "sees \<lparr>jraw = r, jpayload = p, jheap = h, jdata = Some a, jformat = FormatPHP\<rparr> k v"
  using assms by (cases v rule: scalar.cases) (simp_all add: accessor_defs)

lemma sees_json:
  assumes "get_obj h a = Some ob" "map_of (Properties ob) k = Some (json_read v)" "scalar v"
  shows "sees \<lparr>jraw = r, jpayload = p, jheap = h, jdata = Some a, jformat = FormatJSON\<rparr> k v"
proof -
  have "int64_of_float (float_of_int64 (sint n)) = sint n" if "exact_int n" for n
    using int_through_float [of "sint n"] that by (auto simp: exact_int_def)
  with assms show ?thesis by (cases v rule: scalar.cases) (simp_all add: accessor_defs)
qed

lemma command_seen:
  assumes "good_args args" "valid_utf8 jobName" "2 \<le> php_fuel cd" "marshalCommand cd d jobName args = Ok command"
    "go_len command"
  shows "\<exists>h obj. decodeCommand (php_fuel cd) command = Ok ((h, obj), dformat d) \<and>
    (\<forall>(k, v) \<in> set args. \<forall>r p. sees \<lparr>jraw = r, jpayload = p, jheap = h, jdata = obj, jformat = dformat d\<rparr> k v)"
proof -
  have arg: "map_of args k = Some v" "scalar v" "k \<noteq> ''commandName''" if "(k, v) \<in> set args" for k v
    using assms(1) that by (auto simp: good_args_def wf_map_def)
  note fmts = good_args_formats [OF assms(1)]
  show ?thesis
  proof (cases "dformat d")
    case FormatPHP
    then have "MarshalObject (php_fuel cd) (args_heap cd) jobName args = Ok command"
      using assms(4) by (cases "MarshalObject (php_fuel cd) (args_heap cd) jobName args") (simp_all add: marshalCommand_def)
    from php_command [OF fmts [THEN conjunct2] assms(3) this assms(5)] obtain h a ob where
      "decodeCommand (php_fuel cd) command = Ok ((h, Some a), FormatPHP)" "get_obj h a = Some ob"
      "\<And>k. map_of (Properties ob) k = map_option php_read (map_of args k)" by metis
    with arg sees_php FormatPHP show ?thesis by (intro exI [of _ h] exI [of _ "Some a"]) auto
  next
    case FormatJSON
    obtain m where m: "decodeCommand (php_fuel cd) command =
        Ok (([CObj \<lparr>ObjClassName = jobName, Properties = m\<rparr>], Some 0), FormatJSON)"
      "\<And>k. k \<noteq> ''commandName'' \<Longrightarrow> map_of m k = map_option json_read (map_of args k)"
      using json_command [OF fmts [THEN conjunct1] assms(2), of cd "php_fuel cd"] assms(4) FormatJSON
      by (auto simp: marshalCommand_def)
    let ?h = "[CObj \<lparr>ObjClassName = jobName, Properties = m\<rparr>]"
    have "get_obj ?h 0 = Some \<lparr>ObjClassName = jobName, Properties = m\<rparr>" by (simp add: get_obj_def)
    with m arg sees_json [of ?h 0] FormatJSON show ?thesis
      by (intro exI [of _ ?h] exI [of _ "Some 0"]) auto
  qed
qed

text \<open>A body that is sent without delay to an empty queue is the next that is popped.\<close>

lemma sent_popped:
  assumes "redis_reliable cl view" "redis_queue view q w = Some Q" "ready Q = []" "delayed Q = []" "reserved Q = []"
    "delay \<le> 0"
  obtains w1 raw w2 where "send (redis_driver cl) q delay body w = (Ok (), w1)"
    "drv_pop (redis_driver cl) q w1 = (Inr (Some raw), w2)" "Body raw = body"
    "Queue raw = q" "\<exists>Q2 t. redis_queue view q w2 = Some Q2 \<and> ready Q2 = [] \<and> delayed Q2 = [] \<and> reserved Q2 = [(t, body)]"
proof -
  note contract = redis_reliable.contract_holds [OF assms(1)]
  from driver_contract.push_law [OF contract assms(2), of body] assms(6) obtain w1 where
    w1: "send (redis_driver cl) q delay body w = (Ok (), w1)" "redis_queue view q w1 = Some (q_push body Q)"
    by (auto simp: send_def)
  have "ready (q_push body Q) = [body]" "delayed (q_push body Q) = []" "reserved (q_push body Q) = []"
    using assms(3-5) by (simp_all add: q_push_def)
  with driver_contract.pop_plain [OF contract w1(2)] obtain raw w2 Q2 t where
    "drv_pop (redis_driver cl) q w1 = (Inr (Some raw), w2)" "Body raw = body" "Queue raw = q"
    "redis_queue view q w2 = Some Q2" "ready Q2 = []" "delayed Q2 = []" "reserved Q2 = [(t, body)]" by auto
  with w1(1) that show thesis by blast
qed

text \<open>
  C25: what is dispatched is what the handler sees. A job dispatched without delay to an empty queue,
  in either command format, is the job that the next pop gives; it parses to a job with every field
  of the payload that was built and the same seconds of backoff for every attempt, and each argument
  is read back unchanged with the accessor of its type.
\<close>

theorem dispatched_args_arrive:
  assumes "redis_reliable cl view" "redis_queue view (dqueue d) w = Some Q" "ready Q = []" "delayed Q = []" "reserved Q = []"
    "good_args args" "valid_utf8 jobName" "2 \<le> php_fuel cd" "marshalCommand cd d jobName args = Ok command" "go_len command"
    "p = NewPayload fr jobName command opts" "wf_payload p" "plain_backoff (Backoff p)" "Command (Data p) = command"
  shows "\<exists>w1 raw w2 j b. dispatch (redis_driver cl) cd d fr jobName args 0 opts w = (Ok (), w1) \<and>
    drv_pop (redis_driver cl) (dqueue d) w1 = (Inr (Some raw), w2) \<and> ParseJob (php_fuel cd) raw = Ok j \<and>
    jpayload j = p\<lparr>Backoff := b\<rparr> \<and> (\<forall>a. BackoffSeconds (jpayload j) a = BackoffSeconds p a) \<and>
    (\<forall>(k, v) \<in> set args. sees j k v)"
proof -
  obtain body b where body: "marshal_payload (other_json cd) p = Some body" "unmarshal_payload body = Some (p\<lparr>Backoff := b\<rparr>)"
    "\<And>a. BackoffSeconds (p\<lparr>Backoff := b\<rparr>) a = BackoffSeconds p a"
    using marshal_plain [OF assms(12,13)] by metis
  have "dispatch (redis_driver cl) cd d fr jobName args 0 opts w = send (redis_driver cl) (dqueue d) 0 body w"
    using body(1) assms(9,11) by (simp add: dispatch_def before_def marshal_or_def)
  moreover obtain w1 raw w2 where pop: "send (redis_driver cl) (dqueue d) 0 body w = (Ok (), w1)"
    "drv_pop (redis_driver cl) (dqueue d) w1 = (Inr (Some raw), w2)" "Body raw = body"
    using sent_popped [OF assms(1-5) order.refl] by blast
  ultimately have w1: "dispatch (redis_driver cl) cd d fr jobName args 0 opts w = (Ok (), w1)" by simp
  obtain h obj where c: "decodeCommand (php_fuel cd) command = Ok ((h, obj), dformat d)"
    "\<forall>(k, v) \<in> set args. \<forall>r p. sees \<lparr>jraw = r, jpayload = p, jheap = h, jdata = obj, jformat = dformat d\<rparr> k v"
    using command_seen [OF assms(6-10)] by blast
  define j where "j = \<lparr>jraw = raw, jpayload = p\<lparr>Backoff := b\<rparr>, jheap = h, jdata = obj, jformat = dformat d\<rparr>"
  have "ParseJob (php_fuel cd) raw = Ok j" using pop(3) body(2) c(1) assms(14) by (simp add: ParseJob_def j_def)
  moreover have "\<forall>(k, v) \<in> set args. sees j k v" using c(2) by (auto simp: j_def)
  moreover have "jpayload j = p\<lparr>Backoff := b\<rparr>" by (simp add: j_def)
  ultimately show ?thesis using w1 pop(2) body(3) by metis
qed

theorem dispatched_args_arrive_witness:
  "\<exists>w1 raw w2 j. dispatch (redis_driver mem_client) ex_codec ex_dispatcher ex_fresh ''Mail'' ex_args 0 [WithMaxTries 3] ex_world =
       (Ok (), w1) \<and> drv_pop (redis_driver mem_client) ''default'' w1 = (Inr (Some raw), w2) \<and> ParseJob 2 raw = Ok j \<and>
     Job_GetString j ''to'' = (Ok ''a@b'' :: (unit, string) outcome) \<and> Job_GetInt j ''n'' = 7"
proof -
  let ?p = "NewPayload ex_fresh ''Mail'' ex_php [WithMaxTries 3]"
  have q: "redis_queue id (dqueue ex_dispatcher) ex_world = Some q_empty" by (simp add: redis_queue_def list_zset_at_mem)
  have e: "ready q_empty = []" "delayed q_empty = []" "reserved q_empty = []" by (simp_all add: q_empty_def)
  have f: "2 \<le> php_fuel ex_codec" "go_len ex_php" by (simp_all add: go_len_def maxAlloc_def)
  have c: "Command (Data ?p) = ex_php" unfolding ex_new_payload by simp
  from dispatched_args_arrive [OF mem.redis_reliable_axioms q e ex_args_good ex_utf8(2) f(1) ex_commands(1) f(2) HOL.refl
      ex_new_payload_wf c] show ?thesis by auto
qed

end
