(* ===== verification/Go_Json_Text.thy ===== *)
theory Go_Json_Text
  imports Go_Json
begin

text \<open>JSON text is always valid UTF-8, whatever bytes the strings in it hold.\<close>

lemma utf8_len_replacement: "utf8_len (replacement @ s) = 3"
  by (simp add: utf8_len_def utf8_need_def replacement_def second_ok_def is_cont_def)

lemma utf8_len_append: "utf8_len a \<noteq> 0 \<Longrightarrow> utf8_len (a @ b) = utf8_len a"
  by (metis append.assoc append_take_drop_id utf8_len_prefix)

lemma valid_utf8_front:
  assumes "valid_utf8 a" "a \<noteq> []"
  shows "utf8_len a \<noteq> 0" "valid_utf8 (drop (utf8_len a) a)"
proof -
  show n: "utf8_len a \<noteq> 0"
  proof
    assume 0: "utf8_len a = 0"
    then have "a = replacement @ to_valid (tl a)"
      using assms to_valid.simps [of a] by (simp add: valid_utf8_def)
    with 0 utf8_len_replacement [of "to_valid (tl a)"] show False by simp
  qed
  then have "take (utf8_len a) a @ to_valid (drop (utf8_len a) a) = a"
    using assms to_valid.simps [of a] by (simp add: valid_utf8_def)
  then have "to_valid (drop (utf8_len a) a) = drop (utf8_len a) a"
    by (metis append_take_drop_id same_append_eq)
  then show "valid_utf8 (drop (utf8_len a) a)" by (simp add: valid_utf8_def)
qed

lemma to_valid_append: "valid_utf8 a \<Longrightarrow> to_valid (a @ b) = a @ to_valid b"
proof (induction a rule: length_induct)
  case (1 a)
  show ?case
  proof (cases "a = []")
    case False
    let ?n = "utf8_len a"
    note front = valid_utf8_front [OF "1.prems" False]
    have len: "?n \<le> length a" by (rule utf8_len_le)
    have "to_valid (drop ?n a @ b) = drop ?n a @ to_valid b"
      using 1 front False by (auto simp: len)
    with front(1) len False show ?thesis
      by (subst to_valid.simps) (simp add: utf8_len_append append.assoc [symmetric] del: append.assoc)
  qed simp
qed

lemma valid_utf8_Nil [simp]: "valid_utf8 []"
  by (simp add: valid_utf8_def to_valid.simps)

lemma valid_utf8_append: "valid_utf8 a \<Longrightarrow> valid_utf8 b \<Longrightarrow> valid_utf8 (a @ b)"
  by (simp add: valid_utf8_def to_valid_append [unfolded valid_utf8_def])

lemma valid_utf8_ascii: "list_all (\<lambda>c. byte c < 0x80) s \<Longrightarrow> valid_utf8 s"
proof (induction s)
  case (Cons c s)
  then show ?case by (simp add: valid_utf8_def to_valid.simps [of "c # s"] utf8_len_ascii)
qed simp

lemma valid_utf8_take: "utf8_len s \<noteq> 0 \<Longrightarrow> valid_utf8 (take (utf8_len s) s)"
  using utf8_len_prefix [of s "[]"] utf8_len_le [of s]
  by (cases "s = []") (simp_all add: valid_utf8_def to_valid.simps [of "take (utf8_len s) s"] to_valid.simps [of "[]"])

lemma hex_digit_ascii: "n < 16 \<Longrightarrow> byte (hex_digit n) < 0x80"
  by (auto simp: hex_digit_def of_char_mod_256)

lemma escape_ascii_ascii:
  assumes "byte c < 0x80"
  shows "list_all (\<lambda>c. byte c < 0x80) (escape_ascii c)"
proof -
  have "byte c div 16 < 16" "byte c mod 16 < 16" using ascii_byte_bound [of c] by (simp_all add: less_mult_imp_div_less)
  with assms show ?thesis by (simp add: escape_ascii_def hex_digit_ascii)
qed

lemma valid_escape: "valid_utf8 (escape s)"
proof (induction s rule: escape.induct)
  case (1 s)
  have ascii: "valid_utf8 (backslash # ''ufffd'')" "valid_utf8 (backslash # ''u202'' @ [hex_digit (byte (s ! 2) mod 16)])"
    by (intro valid_utf8_ascii; simp add: hex_digit_ascii)+
  consider "s = []" | "s \<noteq> []" "byte (hd s) < 0x80" | "s \<noteq> []" "\<not> byte (hd s) < 0x80" "utf8_len s = 0"
    | "s \<noteq> []" "\<not> byte (hd s) < 0x80" "utf8_len s \<noteq> 0" "line_sep s"
    | "s \<noteq> []" "\<not> byte (hd s) < 0x80" "utf8_len s \<noteq> 0" "\<not> line_sep s" by blast
  then show ?case
  proof cases
    case 2
    with 1 show ?thesis
      using valid_utf8_append [OF valid_utf8_ascii [OF escape_ascii_ascii [of "hd s"]]] by (simp add: escape.simps [of s])
  next
    case 3
    with 1 show ?thesis using valid_utf8_append [OF ascii(1)] by (simp add: escape.simps [of s])
  next
    case 4
    with 1 show ?thesis using valid_utf8_append [OF ascii(2)] by (simp add: escape.simps [of s])
  next
    case 5
    with 1 show ?thesis using valid_utf8_append [OF valid_utf8_take] by (simp add: escape.simps [of s])
  qed (simp add: escape.simps)
qed

lemma valid_quoted: "valid_utf8 (json_quote s)"
proof -
  have q: "valid_utf8 [quote]" by (rule valid_utf8_ascii) simp
  show ?thesis using valid_utf8_append [OF q valid_utf8_append [OF valid_escape q]] by (simp add: json_quote_def)
qed

lemma num_char_ascii: "num_char c \<Longrightarrow> byte c < 0x80"
  by (auto simp: num_char_def is_digit_def)

lemma valid_commas: "(\<And>x. x \<in> set xs \<Longrightarrow> valid_utf8 x) \<Longrightarrow> valid_utf8 (commas xs)"
proof (induction xs rule: commas.induct)
  case (3 t u ts)
  then show ?case
    using valid_utf8_append [OF valid_utf8_ascii [of "'',''"]] by (simp add: valid_utf8_append)
qed simp_all

lemma valid_print_json: "wf_json v \<Longrightarrow> valid_utf8 (print_json v)"
proof (induction v rule: print_json.induct)
  case (3 n)
  then show ?case
    by (auto simp: valid_number_def list_all_iff intro!: valid_utf8_ascii num_char_ascii)
next
  case (5 vs)
  then have "valid_utf8 (commas (map print_json vs))" by (intro valid_commas) auto
  then have "valid_utf8 (''['' @ commas (map print_json vs) @ '']'')"
    by (intro valid_utf8_append) (auto intro: valid_utf8_ascii)
  then show ?case by simp
next
  case (6 es)
  have "valid_utf8 (json_quote k @ '':'' @ print_json v)" if "(k, v) \<in> set es" for k v
    using 6 that by (intro valid_utf8_append valid_quoted) (auto intro: valid_utf8_ascii)
  then have "valid_utf8 (commas (map (\<lambda>(k, v). json_quote k @ '':'' @ print_json v) es))" by (intro valid_commas) auto
  then have "valid_utf8 (''{'' @ commas (map (\<lambda>(k, v). json_quote k @ '':'' @ print_json v) es) @ ''}'')"
    by (intro valid_utf8_append) (auto intro: valid_utf8_ascii)
  then show ?case by simp
qed (auto simp: valid_quoted intro: valid_utf8_ascii)

end
