(* ===== verification/Queue_Chains.thy ===== *)
theory Queue_Chains
  imports End_To_End Go_Json_Text
begin

text \<open>
  Chains of jobs: what \<open>injectChain\<close> makes of a command in either format, and the way of a chain
  from \<open>DispatchWithOptions\<close> to \<open>ChainedJobs\<close>.
\<close>

section \<open>Lists of strings in PHP's format\<close>

lemma carries_strings:
  assumes "16 * int (length ss) \<le> maxAlloc"
  shows "carries (Suc (Suc n)) (PArr (index_keys (map PString ss))) (VSlice (map VString ss))"
proof -
  have "those (map (absv h (Suc n)) (map VString ss)) = Some (map PString ss)" for h
    unfolding map_map by (subst those_map_Some) auto
  then have "absv h (Suc (Suc n)) (VSlice (map VString ss)) = Some (PArr (index_keys (map PString ss)))" for h
    by (subst absv.simps(2)) (simp add: abs_list_def del: absv.simps)
  moreover have "wf_php t \<and> stable t" if "(k, t) \<in> set (index_keys (map PString ss))" for k t
    using index_keys_snd [OF that] by auto
  moreover have "length (index_keys (map PString ss)) = length ss" by (simp add: index_keys_def)
  ultimately show ?thesis using assms by (auto simp: carries_def simp del: absv.simps)
qed

lemma read_strings:
  assumes "typed_heap h" "typed h w" "absv h (Suc n) w = Some (PArr (index_keys (map PString ss)))"
  obtains x ar where "w = VArray (Some x)" "get_arr h x = Some ar" "Values ar = map VString ss"
proof -
  obtain x ar where x: "w = VArray (Some x)" "get_arr h x = Some ar" "abs_arr (absv h n) ar = Some (PArr (index_keys (map PString ss)))"
    using assms(2,3)
    by (cases w) (auto simp: absv.simps(2) [of h n] abs_obj_def abs_list_def abs_map_def
      simp del: absv.simps split: option.splits)
  have ty: "typed_arr h ar" using assms(1) get_cells(1) [OF x(2)] nth_mem [of x h] by (fastforce simp: typed_heap_def)
  have len: "length (Keys ar) = length (Values ar)" using ty by (simp add: typed_arr_def)
  have "list_all2 (\<lambda>kv e. abs_pair (absv h n) kv = Some e) (zip (Keys ar) (Values ar)) (index_keys (map PString ss))"
    using x(3) by (simp add: abs_arr_def those_map_Some_iff split: if_splits)
  then have "list_all2 (\<lambda>kv e. absv h n (snd kv) = Some (snd e)) (zip (Keys ar) (Values ar)) (index_keys (map PString ss))"
    by (rule list.rel_mono_strong) (auto simp: abs_pair_def split: option.splits)
  then have "list_all2 (\<lambda>v t. absv h n v = Some t) (map snd (zip (Keys ar) (Values ar))) (map snd (index_keys (map PString ss)))"
    by (simp add: list_all2_map1 list_all2_map2)
  then have "list_all2 (\<lambda>v s. absv h n v = Some (PString s)) (Values ar) ss"
    using len by (simp add: index_keys_def list_all2_map2)
  then have "list_all2 (\<lambda>v s. v = VString s) (Values ar) ss"
    by (rule list.rel_mono_strong) (use ty typed_scalar(2) in \<open>auto simp: typed_arr_def\<close>)
  then have "Values ar = map VString ss" by (simp add: list_all2_eq list_all2_map2 list.rel_eq [symmetric])
  with x(1,2) that show thesis by blast
qed

section \<open>Injecting a chain\<close>

text \<open>The tree of a value that is a scalar or a list of strings, as the decoder and \<open>injectChain\<close> leave them.\<close>

fun value_tree :: "any \<Rightarrow> php" where
  "value_tree (VInt64 n) = PInt (sint n)"
| "value_tree (VSlice vs) = PArr (index_keys (map scalar_tree vs))"
| "value_tree v = scalar_tree v"

lemma value_tree_read: "php_scalar v \<Longrightarrow> value_tree (php_read v) = scalar_tree v"
  by (cases v rule: php_scalar.cases) simp_all

lemma scalar_tree_strings [simp]: "scalar_tree \<circ> VString = PString"
  by (rule ext) simp

lemma carries_read: "php_scalar v \<Longrightarrow> carries (Suc n) (value_tree (php_read v)) (php_read v)"
  using carries_scalar [of v n] by (cases v rule: php_scalar.cases) (simp_all add: carries_def)

text \<open>The text of a tree is valid UTF-8 when the strings in it are.\<close>

fun utf8_tree :: "php \<Rightarrow> bool" where
  "utf8_tree (PFloat f) \<longleftrightarrow> wf_float f \<and> is_finite f"
| "utf8_tree (PString s) \<longleftrightarrow> valid_utf8 s"
| "utf8_tree (PArr es) \<longleftrightarrow> (\<forall>(k, t) \<in> set es. (case k of KInt _ \<Rightarrow> True | KStr s \<Rightarrow> valid_utf8 s) \<and> utf8_tree t)"
| "utf8_tree (PObj c es) \<longleftrightarrow> valid_utf8 c \<and> (\<forall>(k, t) \<in> set es. valid_utf8 k \<and> utf8_tree t)"
| "utf8_tree (PEnum c e) \<longleftrightarrow> valid_utf8 c \<and> valid_utf8 e"
| "utf8_tree t \<longleftrightarrow> True"

lemma valid_utf8_number: "valid_number s \<Longrightarrow> valid_utf8 s"
  by (auto simp: valid_number_def list_all_iff intro!: valid_utf8_ascii num_char_ascii)

lemma valid_utf8_concat: "(\<And>x. x \<in> set xs \<Longrightarrow> valid_utf8 (f x)) \<Longrightarrow> valid_utf8 (concat (map f xs))"
  by (induction xs) (simp_all add: valid_utf8_append)

lemmas valid_parts = valid_utf8_append valid_utf8_concat valid_utf8_number [OF valid_number_FormatInt]

lemma valid_ser_str: "valid_utf8 s \<Longrightarrow> valid_utf8 (ser_str s)"
  unfolding ser_str_def by (intro valid_parts) (auto intro: valid_utf8_ascii)

lemma valid_ser: "utf8_tree t \<Longrightarrow> valid_utf8 (ser t)"
proof (induction t rule: ser.induct)
  case (4 f)
  have "valid_utf8 (''d:'' @ FormatFloat f @ '';'')"
    using 4 valid_utf8_number [OF valid_number_FormatFloat] by (intro valid_parts) (auto intro: valid_utf8_ascii)
  with 4 finite_not_special [of f] show ?case by (simp add: ser_float_def)
next
  case (6 es)
  have "valid_utf8 (ser_key k @ ser v)" if "(k, v) \<in> set es" for k v
  proof (rule valid_utf8_append)
    show "valid_utf8 (ser v)" using 6 that by auto
    have "valid_utf8 (''i:'' @ FormatInt n @ '';'')" for n by (intro valid_parts) (auto intro: valid_utf8_ascii)
    then show "valid_utf8 (ser_key k)" using "6.prems" that valid_ser_str by (cases k) fastforce+
  qed
  then show ?case unfolding ser.simps by (intro valid_parts) (auto intro: valid_utf8_ascii)
next
  case (7 c ps)
  have "valid_utf8 (ser_str k @ ser v)" if "(k, v) \<in> set ps" for k v
    using 7 that by (intro valid_utf8_append valid_ser_str) auto
  then show ?case unfolding ser.simps using "7.prems" by (intro valid_parts) (auto intro: valid_utf8_ascii)
next
  case (8 c e)
  then show ?case unfolding ser.simps by (intro valid_parts) (auto intro: valid_utf8_ascii)
next
  case (3 n)
  then show ?case unfolding ser.simps by (intro valid_parts) (auto intro: valid_utf8_ascii)
qed (auto simp: valid_ser_str intro: valid_utf8_ascii)

lemma utf8_scalar_tree: "scalar v \<Longrightarrow> utf8_tree (scalar_tree v)"
  by (cases v rule: scalar.cases) simp_all

lemma inject_php:
  assumes args: "php_args args" and fuel: "3 \<le> php_fuel cd" and fmt: "dformat d = FormatPHP"
    and enc: "MarshalObject (php_fuel cd) (args_heap cd) jobName args = Ok command" and len: "go_len command"
    and chain: "16 * int (length chain) \<le> maxAlloc" and len': "\<And>c. injectChain cd d command chain = Ok c \<Longrightarrow> go_len c"
  obtains c h a ob x ar where "injectChain cd d command chain = Ok c"
    "decodeCommand (php_fuel cd) c = Ok ((h, Some a), FormatPHP)" "get_obj h a = Some ob" "ObjClassName ob = jobName"
    "\<And>k. k \<noteq> ''chained'' \<Longrightarrow> map_of (Properties ob) k = map_option php_read (map_of args k)"
    "map_of (Properties ob) ''chained'' = Some (VArray (Some x))" "get_arr h x = Some ar" "Values ar = map VString chain"
    "good_args args \<Longrightarrow> valid_utf8 jobName \<Longrightarrow> list_all valid_utf8 chain \<Longrightarrow> valid_utf8 c"
proof -
  obtain n where n: "php_fuel cd = Suc (Suc (Suc n))" using le_Suc_ex [OF fuel] by (auto simp: numeral_3_eq_3)
  have "2 \<le> php_fuel cd" using fuel by simp
  from php_command [OF args this enc len] obtain h a ob where ob: "Decode (php_fuel cd) command = Ok (VObject (Some a), h)" "typed_obj h ob"
    "get_obj h a = Some ob" "ObjClassName ob = jobName" "\<And>k. map_of (Properties ob) k = map_option php_read (map_of args k)"
    by metis
  let ?m = "AList.update ''chained'' (VSlice (map VString chain)) (Properties ob)"
  have w: "wf_map ?m" using ob(2) by (simp add: typed_obj_def wf_map_def distinct_update)
  have c: "stripVisibility k = k \<and> carries (Suc (Suc n)) (value_tree v) v" if "(k, v) \<in> set ?m" for k v
  proof -
    have mv: "map_of ?m k = Some v" using map_of_is_SomeI [OF _ that] w by (simp only: wf_map_def)
    show ?thesis
    proof (cases "k = ''chained''")
      case True
      with mv have "v = VSlice (map VString chain)" by (simp add: update_conv)
      with carries_strings [OF chain, of n] True show ?thesis
        by (simp add: stripVisibility_def NUL_def)
    next
      case False
      with mv ob(5) obtain x where x: "map_of args k = Some x" "v = php_read x" by (auto simp: update_conv)
      have "stripVisibility k = k \<and> php_scalar x" using args map_of_SomeD [OF x(1)] by (auto simp: php_args_def)
      with x(2) carries_read show ?thesis by simp
    qed
  qed
  let ?es = "map (\<lambda>(k, v). (k, value_tree v)) (sorted_entries ?m)"
  let ?t = "PObj jobName ?es"
  let ?h = "h[a := CObj (ob\<lparr>Properties := ?m\<rparr>)]"
  note t = object_tree(1-3) [where c = jobName, OF w c] object_tree(4) [OF w c]
  have ob': "ob\<lparr>Properties := ?m\<rparr> = \<lparr>ObjClassName = jobName, Properties = ?m\<rparr>" using ob(4) by (cases ob) simp
  have "get_obj ?h a = Some \<lparr>ObjClassName = jobName, Properties = ?m\<rparr>"
    using get_cells(2) [OF ob(3)] ob' by (simp add: get_obj_def)
  then have absv: "absv ?h (php_fuel cd) (VObject (Some a)) = Some ?t"
    using t(1) [of ?h] unfolding n by (subst absv.simps(2)) (simp del: absv.simps)
  then have inj: "injectChain cd d command chain = Ok (ser ?t)"
    using ob(1,3) fmt Encode_iff [of "php_fuel cd" ?h "VObject (Some a)" "ser ?t"] by (simp add: injectChain_def)
  have "depth ?t < php_fuel cd" using below_absv [of "php_fuel cd"] absv unfolding below_def by (metis option.simps(5))
  with decode_object [OF t(2,3) _ len' [OF inj]] n obtain h2 a2 ob2 where
    d: "Decode (php_fuel cd) (ser ?t) = Ok (VObject (Some a2), h2)" "get_obj h2 a2 = Some ob2" "ObjClassName ob2 = jobName"
      "typed_heap h2" "typed_obj h2 ob2" "abs_entries (absv h2 (Suc (Suc n))) (Properties ob2) = Some ?es"
    by metis
  have es: "map_of ?es k = (if k = ''chained'' then Some (value_tree (VSlice (map VString chain)))
      else map_option scalar_tree (map_of args k))" for k
  proof -
    have "map_option (value_tree \<circ> php_read) (map_of args k) = map_option scalar_tree (map_of args k)"
      using args value_tree_read map_of_SomeD by (cases "map_of args k") (fastforce simp: php_args_def)+
    then show ?thesis using t(4) [of k] ob(5) [of k] by (simp add: update_conv option.map_comp)
  qed
  have utf8: "valid_utf8 (ser ?t)" if good: "good_args args" "valid_utf8 jobName" "list_all valid_utf8 chain"
  proof (rule valid_ser)
    have "valid_utf8 k \<and> utf8_tree t" if "(k, t) \<in> set ?es" for k t
    proof -
      have "distinct (map fst ?es)" using map_of_sorted_entries(2) [OF w] by (simp add: comp_def case_prod_beta')
      from map_of_is_SomeI [OF this that] es [of k]
      consider "k = ''chained''" "t = PArr (index_keys (map PString chain))" | x where "(k, x) \<in> set args" "t = scalar_tree x"
        using map_of_SomeD [of args k] by (auto split: if_splits)
      then show ?thesis
      proof cases
        case 1
        have "\<forall>(k, t) \<in> set (index_keys (map PString chain)). (case k of KInt _ \<Rightarrow> True | KStr s \<Rightarrow> valid_utf8 s) \<and> utf8_tree t"
          using good(3) by (auto simp: index_keys_def set_zip list_all_length)
        with 1 valid_utf8_ascii [of "''chained''"] show ?thesis by simp
      next
        case 2
        with good(1) utf8_scalar_tree show ?thesis by (fastforce simp: good_args_def)
      qed
    qed
    with good(2) show "utf8_tree ?t" unfolding utf8_tree.simps by blast
  qed
  have "map_of (Properties ob2) k = map_option php_read (map_of args k)" if "k \<noteq> ''chained''" for k
  proof (cases "map_of args k")
    case (Some x)
    then have "php_scalar x" using args map_of_SomeD [OF Some] by (auto simp: php_args_def)
    with Some es that read_scalar_entry [OF d(6,5), of k x] show ?thesis by simp
  next
    case None
    with es that absent_entry [OF d(6,5), of k] show ?thesis by simp
  qed
  moreover obtain v where v: "map_of (Properties ob2) ''chained'' = Some v"
      "absv h2 (Suc (Suc n)) v = Some (PArr (index_keys (map PString chain)))"
    using abs_entries_map_of [OF d(6), of "''chained''"] d(5) es [of "''chained''"]
    by (cases "map_of (Properties ob2) ''chained''") (auto simp: typed_obj_def simp del: absv.simps)
  moreover have "typed h2 v" using d(5) map_of_SomeD [OF v(1)] by (auto simp: typed_obj_def)
  with read_strings [OF d(4) _ v(2)] obtain x ar where "v = VArray (Some x)" "get_arr h2 x = Some ar" "Values ar = map VString chain"
    by metis
  ultimately show thesis using that [OF inj decodeCommand_object [OF d(1)] d(2,3)] utf8 by blast
qed

lemma settled_read: "scalar v \<Longrightarrow> settled (json_read v) \<and> adepth (json_read v) = 0"
proof (cases v rule: scalar.cases)
  case (3 n)
  assume "scalar v"
  with 3 have n: "\<bar>sint n\<bar> < 2 ^ 53" by (simp add: exact_int_def)
  then obtain f where f: "float_of_int64 (sint n) = f" "wf_float f" "is_finite f" "funits f = nat \<bar>sint n\<bar> * 2 ^ unit_exp"
    using int_through_float by blast
  have "nat \<bar>sint n\<bar> < 10 ^ 21" using n by (simp add: nat_less_iff)
  with f positional_int 3 show ?thesis by simp
qed simp_all

lemma settled_reads_back:
  assumes "settled v" "adepth v < maxNestingDepth"
  shows "reads_back oth (\<lambda>v. v) v"
  using settled_comes_back [OF assms(1), of oth] assms(2) by (auto simp: comes_back_def reads_back_def)

lemma inject_json:
  assumes args: "good_args args" "valid_utf8 jobName" and fmt: "dformat d = FormatJSON" and chain: "list_all valid_utf8 chain"
    and enc: "marshalCommandJSON cd jobName args = Ok command"
  obtains c m where "injectChain cd d command chain = Ok c" "valid_utf8 c"
    "decodeCommand fuel c = Ok (([CObj \<lparr>ObjClassName = jobName, Properties = m\<rparr>], Some 0), FormatJSON)"
    "\<And>k. k \<noteq> ''commandName'' \<Longrightarrow> k \<noteq> ''chained'' \<Longrightarrow> map_of m k = map_option json_read (map_of args k)"
    "map_of m ''chained'' = Some (VSlice (map VString chain))"
proof -
  obtain m0 where m0: "\<And>k. k \<noteq> ''commandName'' \<Longrightarrow> map_of m0 k = map_option json_read (map_of args k)"
    "unmarshal_map command = Some (Some m0)" "wf_map m0" "map_of m0 ''commandName'' = Some (VString jobName)"
    using json_command [OF good_args_formats [THEN conjunct1, OF args(1)] args(2), of cd "0"] enc by auto
  let ?m = "AList.update ''chained'' (VSlice (map VString chain)) m0"
  have w: "wf_map ?m" using m0(3) by (simp add: wf_map_def distinct_update)
  have m: "valid_utf8 k \<and> reads_back (other_json cd) (\<lambda>v. v) v" if "(k, v) \<in> set ?m" for k v
  proof -
    have mv: "map_of ?m k = Some v" using map_of_is_SomeI [OF _ that] w by (simp only: wf_map_def)
    consider "k = ''chained''" "v = VSlice (map VString chain)" | "k = ''commandName''" "v = VString jobName"
      | x where "(k, x) \<in> set args" "v = json_read x"
    proof -
      have "map_of m0 k = Some v" "k \<noteq> ''chained''" if "\<not> (k = ''chained'' \<and> v = VSlice (map VString chain))"
        using mv that by (auto simp: update_conv split: if_splits)
      with m0(1) [of k] m0(4) that map_of_SomeD [of args k] show thesis by (cases "k = ''commandName''") auto
    qed
    then have "valid_utf8 k \<and> settled v \<and> adepth v \<le> 1"
    proof cases
      case 1
      have "foldr max (map (adepth \<circ> VString) chain) 0 = 0" by (induction chain) simp_all
      with 1 chain valid_utf8_ascii [of "''chained''"] show ?thesis by (simp add: list_all_iff)
    next
      case 2
      then show ?thesis using args(2) by (simp add: valid_utf8_def to_valid_names)
    next
      case 3
      then show ?thesis using args(1) settled_read by (fastforce simp: good_args_def)
    qed
    then show ?thesis using settled_reads_back [of v] by (simp add: maxNestingDepth_def)
  qed
  from map_reads_back [OF w m] obtain j where
    j: "json_of_any (other_json cd) (VMap ?m) = Some j" "unmarshal_map (print_json j) = Some (Some (sorted_entries ?m))"
      "hd (print_json j) = CHR ''{''" "print_json j \<noteq> []" "wf_json j"
    by (auto simp: case_prod_beta')
  have s: "map_of (sorted_entries ?m) k = (if k = ''chained'' then Some (VSlice (map VString chain)) else map_of m0 k)" for k
    using map_of_sorted_entries(1) [OF w] by (simp add: update_conv)
  then have "map_of (sorted_entries ?m) ''commandName'' = Some (VString jobName)" using m0(4) by simp
  note d = decodeCommand_map [OF j(2-4) this]
  have "injectChain cd d command chain = Ok (print_json j)"
    using j(1) m0(2) fmt by (simp add: injectChain_def del: json_of_any.simps)
  from that [OF this valid_print_json [OF j(5)] d] s m0(1) show thesis by simp
qed

text \<open>Either way the chain and the arguments are in the command, and its text can be sent.\<close>

abbreviation job_at :: "RawJob \<Rightarrow> laravelPayload \<Rightarrow> (heap \<times> addr option) \<times> CommandFormat \<Rightarrow> jobT" where
  "job_at r p c \<equiv> \<lparr>jraw = r, jpayload = p, jheap = fst (fst c), jdata = snd (fst c), jformat = snd c\<rparr>"

lemma injected_seen:
  assumes args: "good_args args" "valid_utf8 jobName" "3 \<le> php_fuel cd" "marshalCommand cd d jobName args = Ok command"
    and chain: "list_all valid_utf8 chain" and php: "dformat d = FormatPHP \<Longrightarrow> go_len command \<and>
      16 * int (length chain) \<le> maxAlloc \<and> (\<forall>c. injectChain cd d command chain = Ok c \<longrightarrow> go_len c)"
  obtains c x where "injectChain cd d command chain = Ok c" "valid_utf8 c" "decodeCommand (php_fuel cd) c = Ok x"
    "snd x = dformat d"
    "\<forall>r p. ChainedJobs (job_at r p x) = (Ok (Some chain) :: (unit, string list option) outcome)"
    "\<forall>r p. \<forall>(k, v) \<in> set args. k \<noteq> ''chained'' \<longrightarrow> sees (job_at r p x) k v"
proof -
  have arg: "map_of args k = Some v" "scalar v" "k \<noteq> ''commandName''" if "(k, v) \<in> set args" for k v
    using args(1) that by (auto simp: good_args_def wf_map_def)
  show thesis
  proof (cases "dformat d")
    case FormatPHP
    then have "MarshalObject (php_fuel cd) (args_heap cd) jobName args = Ok command"
      using args(4) by (cases "MarshalObject (php_fuel cd) (args_heap cd) jobName args") (simp_all add: marshalCommand_def)
    note inj = inject_php [OF good_args_formats [THEN conjunct2, OF args(1)] args(3) FormatPHP this, of chain]
    have len: "go_len command" "16 * int (length chain) \<le> maxAlloc" "\<And>c. injectChain cd d command chain = Ok c \<Longrightarrow> go_len c"
      using php [OF FormatPHP] by blast+
    show thesis
    proof (rule inj [OF len])
      fix c h a ob x ar
      assume c: "injectChain cd d command chain = Ok c"
        "decodeCommand (php_fuel cd) c = Ok ((h, Some a), FormatPHP)" "get_obj h a = Some ob"
        "\<And>k. k \<noteq> ''chained'' \<Longrightarrow> map_of (Properties ob) k = map_option php_read (map_of args k)"
        "map_of (Properties ob) ''chained'' = Some (VArray (Some x))" "get_arr h x = Some ar" "Values ar = map VString chain"
        "good_args args \<Longrightarrow> valid_utf8 jobName \<Longrightarrow> list_all valid_utf8 chain \<Longrightarrow> valid_utf8 c"
      show thesis
      proof (rule that [OF c(1) c(8) [OF args(1,2) chain] c(2)])
        show "\<forall>r p. ChainedJobs (job_at r p ((h, Some a), FormatPHP)) = (Ok (Some chain) :: (unit, string list option) outcome)"
          using c(3,5-7) by (simp add: ChainedJobs_def job_value_def job_prop_def deref_def)
        show "\<forall>r p. \<forall>(k, v) \<in> set args. k \<noteq> ''chained'' \<longrightarrow> sees (job_at r p ((h, Some a), FormatPHP)) k v"
          using sees_php [OF c(3)] c(4) arg by auto
      qed (simp add: FormatPHP)
    qed
  next
    case FormatJSON
    then have "marshalCommandJSON cd jobName args = Ok command" using args(4) by (simp add: marshalCommand_def)
    from inject_json [OF args(1,2) FormatJSON chain this, of "php_fuel cd"] obtain c m where
      c: "injectChain cd d command chain = Ok c" "valid_utf8 c"
      "decodeCommand (php_fuel cd) c = Ok (([CObj \<lparr>ObjClassName = jobName, Properties = m\<rparr>], Some 0), FormatJSON)"
      "\<And>k. k \<noteq> ''commandName'' \<Longrightarrow> k \<noteq> ''chained'' \<Longrightarrow> map_of m k = map_option json_read (map_of args k)"
      "map_of m ''chained'' = Some (VSlice (map VString chain))" by metis
    let ?h = "[CObj \<lparr>ObjClassName = jobName, Properties = m\<rparr>]"
    have ob: "get_obj ?h 0 = Some \<lparr>ObjClassName = jobName, Properties = m\<rparr>" by (simp add: get_obj_def)
    show thesis
    proof (rule that [OF c(1-3)])
      show "\<forall>r p. ChainedJobs (job_at r p ((?h, Some 0), FormatJSON)) = (Ok (Some chain) :: (unit, string list option) outcome)"
        using c(5) ob by (simp add: ChainedJobs_def job_value_def job_prop_def deref_def)
      show "\<forall>r p. \<forall>(k, v) \<in> set args. k \<noteq> ''chained'' \<longrightarrow> sees (job_at r p ((?h, Some 0), FormatJSON)) k v"
        using sees_json [OF ob] c(4) arg by auto
    qed (simp add: FormatJSON)
  qed
qed

section \<open>A chain from the dispatcher to the handler\<close>

text \<open>A chained job that can be written, with its fresh values.\<close>

definition good_chained :: "codec \<Rightarrow> dispatcher \<Rightarrow> chainedJob \<Rightarrow> fresh \<Rightarrow> bool" where
  "good_chained cd d cj fr \<longleftrightarrow>
     good_args (CArgs cj) \<and> valid_utf8 (CJob cj) \<and>
     (case marshalCommand cd d (CJob cj) (CArgs cj) of
        Ok command \<Rightarrow> go_len command \<and> wf_payload (NewPayload fr (CJob cj) command [])
      | _ \<Rightarrow> False)"

text \<open>The text is one that \<open>ParseJob\<close> reads as the chained job: its payload and its arguments.\<close>

definition reads_as :: "codec \<Rightarrow> dispatcher \<Rightarrow> string \<Rightarrow> chainedJob \<times> fresh \<Rightarrow> bool" where
  "reads_as cd d body cf \<longleftrightarrow>
     (\<forall>raw. Body raw = body \<longrightarrow> (\<exists>j command. ParseJob (php_fuel cd) raw = Ok j \<and>
        marshalCommand cd d (CJob (fst cf)) (CArgs (fst cf)) = Ok command \<and>
        jpayload j = NewPayload (snd cf) (CJob (fst cf)) command [] \<and> (\<forall>(k, v) \<in> set (CArgs (fst cf)). sees j k v)))"

lemma NewPayload_plain [simp]: "Backoff (NewPayload fr jobName command []) = VNil"
  "Data (NewPayload fr jobName command []) = \<lparr>CommandName = jobName, Command = command\<rparr>"
  by (simp_all add: NewPayload_def zero_payload_def)

lemma marshal_wf:
  assumes "wf_payload p" "Backoff p = VNil"
  obtains s where "marshal_payload oth p = Some s" "unmarshal_payload s = Some p" "valid_utf8 s"
proof -
  have p: "p\<lparr>Backoff := VNil\<rparr> = p" using assms(2) by simp
  obtain s where s: "marshal_payload oth p = Some s" "unmarshal_payload s = Some p"
    using unmarshal_marshal [OF assms(1), of oth JNull VNil] assms(2) p by (auto simp: maxNestingDepth_def)
  moreover have "valid_utf8 s"
    using payload_json_wf [OF assms(1), of oth JNull] s(1) assms(2) valid_print_json by (auto simp: marshal_payload_def)
  ultimately show thesis using that by blast
qed

lemma good_chained_text:
  assumes "good_chained cd d cj fr" "2 \<le> php_fuel cd"
  obtains command body where "marshalCommand cd d (CJob cj) (CArgs cj) = Ok command"
    "marshal_or cd EMarshalPayload (NewPayload fr (CJob cj) command []) = Ok body" "valid_utf8 body" "reads_as cd d body (cj, fr)"
proof -
  obtain command where c: "good_args (CArgs cj)" "valid_utf8 (CJob cj)" "marshalCommand cd d (CJob cj) (CArgs cj) = Ok command"
    "go_len command" "wf_payload (NewPayload fr (CJob cj) command [])"
    using assms(1) by (auto simp: good_chained_def split: outcome.splits)
  obtain body where t: "marshal_payload (other_json cd) (NewPayload fr (CJob cj) command []) = Some body"
    "unmarshal_payload body = Some (NewPayload fr (CJob cj) command [])" "valid_utf8 body"
    using marshal_wf [OF c(5) NewPayload_plain(1)] by blast
  obtain h obj where "decodeCommand (php_fuel cd) command = Ok ((h, obj), dformat d)"
    "\<forall>(k, v) \<in> set (CArgs cj). \<forall>r p. sees \<lparr>jraw = r, jpayload = p, jheap = h, jdata = obj, jformat = dformat d\<rparr> k v"
    using command_seen [OF c(1,2) assms(2) c(3,4)] by blast
  with t(2) c(3) have "reads_as cd d body (cj, fr)" by (auto simp: reads_as_def ParseJob_def)
  with that [OF c(3) _ t(3)] t(1) show thesis by (simp add: marshal_or_def)
qed

lemma chain_texts:
  assumes "list_all2 (good_chained cd d) chain frs" "2 \<le> php_fuel cd"
  shows "\<exists>texts. buildChainPayloads cd d frs chain = Ok texts \<and> list_all valid_utf8 texts \<and>
    list_all2 (reads_as cd d) texts (zip chain frs)"
  using assms(1)
proof (induction rule: list_all2_induct)
  case (Cons cj chain fr frs)
  then obtain texts where "buildChainPayloads cd d frs chain = Ok texts" "list_all valid_utf8 texts"
    "list_all2 (reads_as cd d) texts (zip chain frs)" by blast
  moreover obtain command body where "marshalCommand cd d (CJob cj) (CArgs cj) = Ok command"
    "marshal_or cd EMarshalPayload (NewPayload fr (CJob cj) command []) = Ok body" "valid_utf8 body" "reads_as cd d body (cj, fr)"
    using good_chained_text [OF Cons(1) assms(2)] by blast
  ultimately show ?case by (intro exI [of _ "body # texts"]) simp
qed simp

lemma payload_opts_Data [simp]:
  "Data (NewPayload fr jobName command (payload_opts dopts)) = \<lparr>CommandName = jobName, Command = command\<rparr>"
proof -
  have "Data (fold (\<lambda>opt p. opt p) opts p) = Data p" if "\<forall>opt \<in> set opts. \<forall>p. Data (opt p) = Data p"
    for opts :: "payloadOption list" and p using that by (induction opts arbitrary: p) simp_all
  moreover have "\<forall>opt \<in> set (payload_opts dopts). \<forall>p. Data (opt p) = Data p"
    by (auto simp: payload_opts_def opt_list_def WithMaxTries_def WithMaxExceptions_def WithFailOnTimeout_def WithBackoff_def
        WithTimeout_def WithRetryUntil_def WithTags_def split: option.splits)
  ultimately show ?thesis by (simp add: NewPayload_def)
qed

text \<open>
  C29: a chain arrives. A job dispatched with a chain to an empty queue, in either command format,
  is the job that the next pop gives; it parses to a job with the payload that was built around the
  command with the chain, its arguments are read back unchanged, and \<open>ChainedJobs\<close> gives one text
  for each chained job, in order, that is itself the body of a job: \<open>ParseJob\<close> reads it as the
  payload that was built for the chained job, with the chained job's arguments.
\<close>

theorem dispatched_chain_arrives:
  assumes "redis_reliable cl view" "redis_queue view q w = Some Q" "ready Q = []" "delayed Q = []" "reserved Q = []"
    "q = (if OQueue dopts = [] then dqueue d else OQueue dopts)" "ODelay dopts \<le> 0" "OChain dopts \<noteq> []"
    "good_args (OArgs dopts)" "valid_utf8 (OJob dopts)" "3 \<le> php_fuel cd"
    "marshalCommand cd d (OJob dopts) (OArgs dopts) = Ok command"
    "p = NewPayload (hd frs) (OJob dopts) command (payload_opts dopts)" "wf_payload p" "plain_backoff (Backoff p)"
    "list_all2 (good_chained cd d) (OChain dopts) (tl frs)"
    "dformat d = FormatPHP \<Longrightarrow> go_len command \<and> 16 * int (length (OChain dopts)) \<le> maxAlloc \<and>
       (\<forall>texts c. buildChainPayloads cd d (tl frs) (OChain dopts) = Ok texts \<longrightarrow>
          injectChain cd d command texts = Ok c \<longrightarrow> go_len c)"
  shows "\<exists>w1 raw w2 j b texts. DispatchWithOptions (redis_driver cl) cd d frs dopts w = (Ok (), w1) \<and>
    drv_pop (redis_driver cl) q w1 = (Inr (Some raw), w2) \<and> ParseJob (php_fuel cd) raw = Ok j \<and>
    injectChain cd d command texts = Ok (Command (Data (jpayload j))) \<and>
    jpayload j = p\<lparr>Backoff := b, Data := \<lparr>CommandName = OJob dopts, Command = Command (Data (jpayload j))\<rparr>\<rparr> \<and>
    (\<forall>a. BackoffSeconds (jpayload j) a = BackoffSeconds p a) \<and>
    (\<forall>(k, v) \<in> set (OArgs dopts). k \<noteq> ''chained'' \<longrightarrow> sees j k v) \<and>
    ChainedJobs j = (Ok (Some texts) :: (unit, string list option) outcome) \<and>
    list_all2 (reads_as cd d) texts (zip (OChain dopts) (tl frs))"
proof -
  have fuel: "2 \<le> php_fuel cd" using assms(11) by simp
  obtain texts where texts: "buildChainPayloads cd d (tl frs) (OChain dopts) = Ok texts" "list_all valid_utf8 texts"
    "list_all2 (reads_as cd d) texts (zip (OChain dopts) (tl frs))" using chain_texts [OF assms(16) fuel] by blast
  have "length texts = length (OChain dopts)"
    using list_all2_lengthD [OF texts(3)] list_all2_lengthD [OF assms(16)] by simp
  then have len: "dformat d = FormatPHP \<Longrightarrow> go_len command \<and> 16 * int (length texts) \<le> maxAlloc \<and>
      (\<forall>c. injectChain cd d command texts = Ok c \<longrightarrow> go_len c)"
    using assms(17) texts(1) by simp
  obtain c x where c: "injectChain cd d command texts = Ok c" "valid_utf8 c"
    "decodeCommand (php_fuel cd) c = Ok x" "snd x = dformat d"
    "\<forall>r p. ChainedJobs (job_at r p x) = (Ok (Some texts) :: (unit, string list option) outcome)"
    "\<forall>r p. \<forall>(k, v) \<in> set (OArgs dopts). k \<noteq> ''chained'' \<longrightarrow> sees (job_at r p x) k v"
    by (rule injected_seen [OF assms(9-12) texts(2) len])
  let ?p = "p\<lparr>Data := \<lparr>CommandName = OJob dopts, Command = c\<rparr>\<rparr>"
  have "wf_payload ?p" "plain_backoff (Backoff ?p)" using assms(10,14,15) c(2) by (simp_all add: wf_payload_def)
  then obtain body b where body: "marshal_payload (other_json cd) ?p = Some body" "unmarshal_payload body = Some (?p\<lparr>Backoff := b\<rparr>)"
    "\<And>a. BackoffSeconds (?p\<lparr>Backoff := b\<rparr>) a = BackoffSeconds ?p a"
    using marshal_plain by metis
  obtain w1 raw w2 where pop: "send (redis_driver cl) q (ODelay dopts) body w = (Ok (), w1)"
    "drv_pop (redis_driver cl) q w1 = (Inr (Some raw), w2)" "Body raw = body"
    using sent_popped [OF assms(1-5,7)] by blast
  have "DispatchWithOptions (redis_driver cl) cd d frs dopts w = (Ok (), w1)"
    using assms(6,8,12,13) texts(1) c(1) body(1) pop(1)
    by (simp add: DispatchWithOptions_def before_def marshal_or_def Let_def)
  moreover have "ParseJob (php_fuel cd) raw = Ok (job_at raw (?p\<lparr>Backoff := b\<rparr>) x)"
    using pop(3) body(2) c(3) by (cases x) (auto simp: ParseJob_def)
  moreover have "BackoffSeconds (?p\<lparr>Backoff := b\<rparr>) a = BackoffSeconds p a" for a
    using body(3) [of a] by (simp add: BackoffSeconds_def)
  ultimately show ?thesis using pop(2) c(1,5,6) texts(3)
    by (intro exI [of _ w1] exI [of _ raw] exI [of _ w2] exI [of _ "job_at raw (?p\<lparr>Backoff := b\<rparr>) x"] exI [of _ b] exI [of _ texts])
      auto
qed

abbreviation ex_codec3 :: codec where
  "ex_codec3 \<equiv> \<lparr>other_json = (\<lambda>_. None), args_heap = [], php_fuel = 3\<rparr>"

abbreviation ex_json_dispatcher :: dispatcher where
  "ex_json_dispatcher \<equiv> \<lparr>dqueue = ''default'', dformat = FormatJSON\<rparr>"

abbreviation ex_chained :: dispatchOptions where
  "ex_chained \<equiv> \<lparr>OJob = ''Mail'', OQueue = [], ODelay = 0, OMaxTries = None, OMaxExceptions = None, OFailOnTimeout = False,
     OBackoff = VNil, OTimeout = None, ORetryUntil = None, OTags = [], OUniqueFor = 0, OArgs = ex_args,
     OChain = [\<lparr>CJob = ''Mail'', CArgs = ex_args\<rparr>]\<rparr>"

lemma ex_chain_good:
  "marshalCommand ex_codec3 ex_json_dispatcher ''Mail'' ex_args = Ok ex_json"
  "wf_payload (NewPayload ex_fresh ''Mail'' ex_json [])"
  "good_chained ex_codec3 ex_json_dispatcher \<lparr>CJob = ''Mail'', CArgs = ex_args\<rparr> ex_fresh"
proof -
  show c: "marshalCommand ex_codec3 ex_json_dispatcher ''Mail'' ex_args = Ok ex_json" by code_simp
  have "valid_utf8 LaravelCallQueuedHandler" by (simp add: valid_utf8_def LaravelCallQueuedHandler_def) code_simp
  moreover have "valid_utf8 ex_json" by (simp add: valid_utf8_def) code_simp
  ultimately show w: "wf_payload (NewPayload ex_fresh ''Mail'' ex_json [])"
    by (simp add: NewPayload_def generateID_def float_of_int64_def float_div_def round_f64_zero funits_def zero_payload_def
        wf_payload_def ex_utf8 wf_zero_time int_ok_def)
  show "good_chained ex_codec3 ex_json_dispatcher \<lparr>CJob = ''Mail'', CArgs = ex_args\<rparr> ex_fresh"
    unfolding good_chained_def chainedJob.simps c outcome.case
    using w ex_args_good ex_utf8(2) by (simp add: go_len_def maxAlloc_def)
qed

theorem dispatched_chain_arrives_witness:
  "\<exists>w1 raw w2 j body. DispatchWithOptions (redis_driver mem_client) ex_codec3 ex_json_dispatcher [ex_fresh, ex_fresh] ex_chained
       ex_world = (Ok (), w1) \<and> drv_pop (redis_driver mem_client) ''default'' w1 = (Inr (Some raw), w2) \<and>
     ParseJob 3 raw = Ok j \<and> Job_GetString j ''to'' = (Ok ''a@b'' :: (unit, string) outcome) \<and>
     ChainedJobs j = (Ok (Some [body]) :: (unit, string list option) outcome) \<and>
     (\<exists>jc. ParseJob 3 \<lparr>Body = body, Queue = ''default'', ReservedUntil = 0\<rparr> = Ok jc \<and> Job_GetInt jc ''n'' = 7)"
proof -
  have q: "redis_queue id ''default'' ex_world = Some q_empty" by (simp add: redis_queue_def list_zset_at_mem)
  have e: "ready q_empty = []" "delayed q_empty = []" "reserved q_empty = []" by (simp_all add: q_empty_def)
  have o: "''default'' = (if OQueue ex_chained = [] then dqueue ex_json_dispatcher else OQueue ex_chained)"
    "ODelay ex_chained \<le> 0" "OChain ex_chained \<noteq> []" "good_args (OArgs ex_chained)" "valid_utf8 (OJob ex_chained)"
    "3 \<le> php_fuel ex_codec3"
    "marshalCommand ex_codec3 ex_json_dispatcher (OJob ex_chained) (OArgs ex_chained) = Ok ex_json"
    using ex_args_good ex_utf8(2) ex_chain_good(1) by simp_all
  have p: "NewPayload ex_fresh ''Mail'' ex_json [] =
      NewPayload (hd [ex_fresh, ex_fresh]) (OJob ex_chained) ex_json (payload_opts ex_chained)"
    "plain_backoff (Backoff (NewPayload ex_fresh ''Mail'' ex_json []))"
    by (simp_all add: payload_opts_def opt_list_def)
  have l: "list_all2 (good_chained ex_codec3 ex_json_dispatcher) (OChain ex_chained) (tl [ex_fresh, ex_fresh])"
    using ex_chain_good(3) by simp
  have f: "dformat ex_json_dispatcher = FormatPHP \<Longrightarrow> R" for R by simp
  from dispatched_chain_arrives [OF mem.redis_reliable_axioms q e o p(1) ex_chain_good(2) p(2) l f]
  obtain w1 raw w2 j texts where
    "DispatchWithOptions (redis_driver mem_client) ex_codec3 ex_json_dispatcher [ex_fresh, ex_fresh] ex_chained ex_world = (Ok (), w1)"
    "drv_pop (redis_driver mem_client) ''default'' w1 = (Inr (Some raw), w2)" "ParseJob 3 raw = Ok j"
    "sees j ''to'' (VString ''a@b'')" "ChainedJobs j = (Ok (Some texts) :: (unit, string list option) outcome)"
    "list_all2 (reads_as ex_codec3 ex_json_dispatcher) texts [(\<lparr>CJob = ''Mail'', CArgs = ex_args\<rparr>, ex_fresh)]"
    by auto
  moreover from this(6) obtain body where "texts = [body]" "reads_as ex_codec3 ex_json_dispatcher body (\<lparr>CJob = ''Mail'', CArgs = ex_args\<rparr>, ex_fresh)"
    by (auto simp: list_all2_Cons2)
  moreover obtain jc where "ParseJob 3 \<lparr>Body = body, Queue = ''default'', ReservedUntil = 0\<rparr> = Ok jc" "sees jc ''n'' (VInt 7)"
    using \<open>reads_as _ _ body _\<close> [unfolded reads_as_def, rule_format, of "\<lparr>Body = body, Queue = ''default'', ReservedUntil = 0\<rparr>"]
    by auto
  ultimately show ?thesis by (intro exI [of _ w1] exI [of _ raw] exI [of _ w2] exI [of _ j] exI [of _ body]) auto
qed

end
