(* ===== verification/Job_Accessors.thy ===== *)
theory Job_Accessors
  imports End_To_End
begin

text \<open>
  Reading a job that came from somebody else: whatever the bytes of the command were, once
  \<open>ParseJob\<close> has returned a job no accessor of it can panic.
\<close>

section \<open>Jobs that can be read\<close>

text \<open>What JSON builds has no pointers in it.\<close>

fun plain :: "any \<Rightarrow> bool" where
  "plain (VObject p) = False"
| "plain (VArray p) = False"
| "plain (VEnum p) = False"
| "plain v = True"

definition readable :: "heap \<Rightarrow> addr option \<Rightarrow> bool" where
  "readable h p \<longleftrightarrow>
     (case p of None \<Rightarrow> True
      | Some a \<Rightarrow> (\<exists>ob. get_obj h a = Some ob \<and>
          (typed_heap h \<and> typed_obj h ob \<or> (\<forall>(k, v) \<in> set (Properties ob). plain v))))"

lemma any_of_json_plain: "any_of_json j = Some v \<Longrightarrow> plain v"
  by (cases j) (auto split: sum.splits)

lemma those_pairs: "those (map f xs) = Some ys \<Longrightarrow> y \<in> set ys \<Longrightarrow> \<exists>x \<in> set xs. f x = Some y"
  by (induction xs arbitrary: ys) (auto split: option.splits)

lemma fold_update_values:
  "(k, v) \<in> set (fold (\<lambda>(k, v). AList.update k v) es m) \<Longrightarrow> v \<in> snd ` set es \<union> snd ` set m"
proof (induction es arbitrary: m)
  case (Cons e es)
  then have "v \<in> snd ` set es \<union> snd ` set (AList.update (fst e) (snd e) m)" by (cases e) simp
  then show ?case using set_update_insert [of "fst e" "snd e" m] by force
qed force

lemma unmarshal_map_plain: "unmarshal_map s = Some (Some m) \<Longrightarrow> (k, v) \<in> set m \<Longrightarrow> plain v"
proof -
  assume s: "unmarshal_map s = Some (Some m)" "(k, v) \<in> set m"
  from s(1) obtain es es' where es: "those (map (\<lambda>(k, v). map_option (Pair k) (any_of_json v)) es) = Some es'"
    "m = fold (\<lambda>(k, v). AList.update k v) es' []"
    by (auto simp: unmarshal_map_def split: option.splits json.splits any.splits)
  from fold_update_values [of k v es' "[]"] s(2) es(2) obtain k' where "(k', v) \<in> set es'" by auto
  from those_pairs [OF es(1) this] show ?thesis using any_of_json_plain by auto
qed

lemma decodeCommandJSON_readable: "decodeCommandJSON c = ((h, p), f) \<Longrightarrow> readable h p"
  using unmarshal_map_plain
  by (fastforce simp: decodeCommandJSON_def readable_def get_obj_def split: option.splits if_splits)

lemma decodeCommand_readable:
  assumes "decodeCommand n c = Ok ((h, p), f)"
  shows "readable h p"
proof -
  consider "p = None" | "decodeCommandJSON c = ((h, p), f)" | "Decode n c = Ok (VObject p, h)"
    using assms by (auto simp: decodeCommand_def split: if_splits outcome.splits any.splits)
  then show ?thesis
  proof cases
    case 3
    note ty = Decode_typed [OF 3]
    obtain a ob where a: "p = Some a" "get_obj h a = Some ob"
      using ty(1) by (auto simp: has_obj_def split: option.splits)
    have "typed_obj h ob" using ty(2) get_cells(2) [OF a(2)] nth_mem [of a h] by (fastforce simp: typed_heap_def)
    with a ty(2) show ?thesis by (simp add: readable_def)
  next
    case 2
    then show ?thesis by (rule decodeCommandJSON_readable)
  qed (simp add: readable_def)
qed

section \<open>Accessors do not panic\<close>

definition returns :: "('e, 'a) outcome \<Rightarrow> bool" where
  "returns r \<longleftrightarrow> (\<exists>a. r = Ok a)"

lemma returns_bind: "returns m \<Longrightarrow> (\<And>a. m = Ok a \<Longrightarrow> returns (f a)) \<Longrightarrow> returns (bind_ok m f)"
  by (auto simp: returns_def)

lemma typed_prop: "typed_obj h ob \<Longrightarrow> typed h (get_prop ob k)"
  using map_of_SomeD [of "Properties ob" k] by (auto simp: get_prop_def typed_obj_def split: option.splits)

lemma plain_prop: "\<forall>(k, v) \<in> set (Properties ob). plain v \<Longrightarrow> plain (get_prop ob k)"
  using map_of_SomeD [of "Properties ob" k] by (auto simp: get_prop_def split: option.splits)

lemma typed_heap_cells:
  assumes "typed_heap h"
  shows "get_obj h a = Some ob \<Longrightarrow> typed_obj h ob" "get_arr h a = Some ar \<Longrightarrow> typed_arr h ar"
  using assms nth_mem [of a h] by (fastforce simp: typed_heap_def dest!: get_cells)+

lemma GetString_returns: "readable h p \<Longrightarrow> returns (GetString h p k)"
  using typed_prop [of h _ k] plain_prop [of _ k]
  by (cases p) (fastforce simp: readable_def GetString_def deref_def returns_def split: any.splits option.splits)+

lemma arr_ok: "typed h (VArray q) \<Longrightarrow> \<exists>ar. Option.bind q (get_arr h) = Some ar"
  by (auto simp: has_arr_def split: option.splits)

lemma GetSlice_returns: "readable h p \<Longrightarrow> returns (GetSlice h p k)"
  using typed_prop [of h _ k] plain_prop [of _ k] arr_ok [of h]
  by (cases p) (fastforce simp: readable_def GetSlice_def deref_def returns_def split: any.splits option.splits)+

lemma to_map_loop_returns: "i + length ks \<le> length vs \<Longrightarrow> returns (to_map_loop i ks vs m)"
  by (induction ks arbitrary: i m) (auto simp: returns_def split: any.splits)

lemma ToMap_returns: "typed_arr h ar \<Longrightarrow> returns (ToMap ar)"
  by (simp add: ToMap_def to_map_loop_returns typed_arr_def)

lemma GetMap_returns: "readable h p \<Longrightarrow> returns (GetMap h p k)"
proof (cases p)
  case (Some a)
  assume "readable h p"
  with Some obtain ob where ob: "get_obj h a = Some ob" "typed_heap h \<and> typed h (get_prop ob k) \<or> plain (get_prop ob k)"
    using typed_prop [of h _ k] plain_prop [of _ k] by (auto simp: readable_def)
  show ?thesis
  proof (cases "get_prop ob k")
    case (VArray q)
    with ob(2) have "typed_heap h" and "typed h (VArray q)" by auto
    then obtain ar where ar: "Option.bind q (get_arr h) = Some ar" "typed_arr h ar"
      using arr_ok [of h q] typed_heap_cells(2) [of h] by (cases q) auto
    then obtain m where "ToMap ar = (Ok m :: ('a, any gomap) outcome)" using ToMap_returns [of h ar] by (auto simp: returns_def)
    with ar VArray ob Some show ?thesis by (simp add: GetMap_def deref_def returns_def)
  qed (use ob Some in \<open>auto simp: GetMap_def deref_def returns_def\<close>)
qed (simp add: GetMap_def deref_def returns_def)

lemma AsModelIdentifier_returns:
  assumes "typed_heap h \<and> typed h v \<or> plain v"
  shows "returns (AsModelIdentifier h v)"
proof (cases v)
  case (VObject p)
  with assms have ty: "typed_heap h" "typed h (VObject p)" by auto
  then obtain a ob where a: "p = Some a" "get_obj h a = Some ob" by (auto simp: has_obj_def split: option.splits)
  with ty(1) have ob: "typed_obj h ob" "readable h p" using typed_heap_cells(1) [of h a ob] by (auto simp: readable_def)
  show ?thesis
  proof (cases "IsModelIdentifier h p")
    case True
    let ?rels = "case get_prop ob ''relations'' of
        VArray q \<Rightarrow> (case Option.bind q (get_arr h) of None \<Rightarrow> Panic NilDeref | Some rels \<Rightarrow> Ok (string_values (Values rels)))
      | _ \<Rightarrow> Ok []"
    have "returns ?rels"
    proof (cases "get_prop ob ''relations''")
      case (VArray q)
      with typed_prop [OF ob(1), of "''relations''"] have "typed h (VArray q)" by simp
      from arr_ok [OF this] VArray show ?thesis by (auto simp: returns_def)
    qed (simp_all add: returns_def)
    then show ?thesis
      using True a VObject GetString_returns [OF ob(2)]
      by (auto simp: AsModelIdentifier_def deref_def intro!: returns_bind) (simp add: returns_def)
  qed (use VObject a in \<open>simp add: AsModelIdentifier_def deref_def returns_def\<close>)
qed (simp_all add: AsModelIdentifier_def returns_def)

lemma readable_job_prop:
  assumes "readable (jheap j) (jdata j)" "job_prop j k = Some v"
  shows "typed_heap (jheap j) \<and> typed (jheap j) v \<or> plain v"
  using assms map_of_SomeD
  by (fastforce simp: readable_def job_prop_def deref_def typed_obj_def split: option.splits)

lemma parsed_readable:
  assumes "ParseJob n raw = Ok j"
  shows "readable (jheap j) (jdata j)"
  using assms decodeCommand_readable by (auto simp: ParseJob_def split: option.splits)

lemma ChainedJobs_returns:
  assumes "readable (jheap j) (jdata j)"
  shows "returns (ChainedJobs j)"
proof (cases "job_prop j ''chained''")
  case (Some v)
  show ?thesis
  proof (cases v)
    case (VArray q)
    with readable_job_prop [OF assms Some] have "typed (jheap j) (VArray q)" by simp
    from arr_ok [OF this] VArray Some show ?thesis by (auto simp: ChainedJobs_def job_value_def returns_def)
  qed (use Some in \<open>auto simp: ChainedJobs_def job_value_def returns_def\<close>)
qed (simp add: ChainedJobs_def job_value_def returns_def)

text \<open>
  C24: reading a parsed job is safe. For every raw job, with any bytes as its command, that \<open>ParseJob\<close>
  accepts, every accessor that could dereference a nil pointer or index out of range returns for
  every key: strings (enums included), slices, maps, model identifiers and the chain.
\<close>

theorem accessors_return:
  assumes "ParseJob n raw = Ok j"
  shows "returns (Job_GetString j k :: (unit, string) outcome) \<and> returns (Job_GetSlice j k :: (unit, any list option) outcome) \<and>
    returns (Job_GetMap j k :: (unit, any gomap option) outcome) \<and>
    returns (GetModelID j k :: (unit, modelIdentifier option) outcome) \<and>
    returns (ChainedJobs j :: (unit, string list option) outcome)"
proof (intro conjI)
  note r = parsed_readable [OF assms]
  show "returns (Job_GetString j k :: (unit, string) outcome)"
    using GetString_returns [OF r] by (auto simp: Job_GetString_def returns_def)
  show "returns (Job_GetSlice j k :: (unit, any list option) outcome)"
    using GetSlice_returns [OF r] by (auto simp: Job_GetSlice_def returns_def)
  show "returns (Job_GetMap j k :: (unit, any gomap option) outcome)"
    using GetMap_returns [OF r] by (auto simp: Job_GetMap_def returns_def)
  show "returns (GetModelID j k :: (unit, modelIdentifier option) outcome)"
    using AsModelIdentifier_returns [OF readable_job_prop [OF r]]
    by (auto simp: GetModelID_def returns_def split: option.splits)
  show "returns (ChainedJobs j :: (unit, string list option) outcome)" by (rule ChainedJobs_returns [OF r])
qed

theorem accessors_return_witness:
  "\<exists>raw j. ParseJob 2 raw = Ok j \<and> Job_GetString j ''to'' = (Ok ''a@b'' :: (unit, string) outcome) \<and>
     returns (Job_GetMap j ''n'' :: (unit, any gomap option) outcome) \<and>
     returns (GetModelID j ''n'' :: (unit, modelIdentifier option) outcome)"
proof -
  let ?p = "NewPayload ex_fresh ''Mail'' ex_php [WithMaxTries 3]"
  obtain body b where body: "unmarshal_payload body = Some (?p\<lparr>Backoff := b\<rparr>)"
    using marshal_plain [OF ex_new_payload_wf] by metis
  have f: "2 \<le> php_fuel ex_codec" "go_len ex_php" by (simp_all add: go_len_def maxAlloc_def)
  obtain h obj where c: "decodeCommand 2 ex_php = Ok ((h, obj), FormatPHP)"
    "\<And>r p. sees \<lparr>jraw = r, jpayload = p, jheap = h, jdata = obj, jformat = FormatPHP\<rparr> ''to'' (VString ''a@b'')"
    using command_seen [OF ex_args_good ex_utf8(2) f(1) ex_commands(1) f(2)] by auto
  let ?raw = "\<lparr>Body = body, Queue = ''default'', ReservedUntil = 0\<rparr>"
  have "Command (Data (?p\<lparr>Backoff := b\<rparr>)) = ex_php" unfolding ex_new_payload by simp
  then have j: "ParseJob 2 ?raw = Ok \<lparr>jraw = ?raw, jpayload = ?p\<lparr>Backoff := b\<rparr>, jheap = h, jdata = obj, jformat = FormatPHP\<rparr>"
    using body c(1) by (simp add: ParseJob_def)
  from accessors_return [OF j, of "''n''"] j c(2) show ?thesis
    by (intro exI [of _ ?raw] exI [of _ "\<lparr>jraw = ?raw, jpayload = ?p\<lparr>Backoff := b\<rparr>, jheap = h, jdata = obj, jformat = FormatPHP\<rparr>"]) simp
qed

end
