(* ===== verification/Example_Programs.thy ===== *)
theory Example_Programs
  imports Job_Accessors Queue_Chains
begin

text \<open>
  The two example programs, \<open>examples/producer\<close> and \<open>examples/consumer\<close>, as clients of the library:
  the dispatches of the first with their messages, the handlers, middleware and listeners of the
  second, and a job of the first that the second handles. Connecting is the argument \<open>ping\<close>, true
  when Redis does not answer; signals and the consumer's start-up messages are left out.
\<close>

section \<open>The producer\<close>

definition app_job :: "string \<Rightarrow> string" where
  "app_job name = ''App'' @ [CHR 0x5C] @ ''Jobs'' @ [CHR 0x5C] @ name"

text \<open>How the program ends: normally, or by \<open>log.Fatalf\<close> with the name of the dispatch, or by a panic.\<close>

datatype fate = Done | Unreachable | Fatalf string dispatch_error | Panicked gopanic | Unfinished

type_synonym 's program = "'s \<Rightarrow> (string list \<times> fate) \<times> 's"

text \<open>One dispatch: \<open>if err != nil { log.Fatalf(...) }\<close>, the line that is printed, and the rest.\<close>

definition dispatched :: "string \<Rightarrow> string \<Rightarrow> ('s \<Rightarrow> (dispatch_error, unit) outcome \<times> 's) \<Rightarrow> 's program \<Rightarrow> 's program" where
  "dispatched name line send_job rest s =
     (case send_job s of
        (Ok _, s1) \<Rightarrow> (case rest s1 of ((out, f), s2) \<Rightarrow> ((line # out, f), s2))
      | (Err e, s1) \<Rightarrow> (([], Fatalf name e), s1)
      | (Panic p, s1) \<Rightarrow> (([], Panicked p), s1)
      | (Fuel, s1) \<Rightarrow> (([], Unfinished), s1))"

definition welcome_args :: "any gomap" where
  "welcome_args = [(''email'', VString ''user@example.com''), (''user_id'', VInt 42)]"

definition reminder_args :: "any gomap" where
  "reminder_args =
     [(''user_id'', VInt 42), (''message'', VString (''Don'' @ [CHR 0x27] @ ''t forget to complete your profile!''))]"

text \<open>The constant \<open>99.99\<close>.\<close>

definition price :: float64 where
  "price = F64 False 1029 2532571102954127"

definition order_options :: dispatchOptions where
  "order_options =
     \<lparr>OJob = app_job ''ProcessOrder'', OQueue = ''high'', ODelay = 0, OMaxTries = Some 5, OMaxExceptions = Some 3,
      OFailOnTimeout = True, OBackoff = VInts [10, 30, 60], OTimeout = Some 120, ORetryUntil = None,
      OTags = [''order'', ''payment''], OUniqueFor = 0,
      OArgs = [(''order_id'', VInt 1001), (''amount'', VFloat64 price), (''currency'', VString ''USD'')],
      OChain = [\<lparr>CJob = app_job ''SendReceipt'', CArgs = [(''order_id'', VInt 1001)]\<rparr>,
                \<lparr>CJob = app_job ''NotifyWarehouse'', CArgs = [(''order_id'', VInt 1001)]\<rparr>]\<rparr>"

text \<open>\<open>fr i\<close> are the fresh values of the \<open>i\<close>-th payload; the order has three.\<close>

definition producer ::
  "'s client \<Rightarrow> codec \<Rightarrow> (nat \<Rightarrow> fresh) \<Rightarrow> bool \<Rightarrow> 's rworld program" where
  "producer cl cd fr ping w =
     (if ping then (([], Unreachable), w)
      else
        let drv = redis_driver cl; d = NewDispatcher [WithDefaultQueue ''default''] in
        dispatched ''dispatch SendWelcomeEmail'' ''Dispatched SendWelcomeEmail''
          (Dispatch drv cd d (fr 0) (app_job ''SendWelcomeEmail'') welcome_args [WithMaxTries 3])
        (dispatched ''dispatch SendReminder'' ''Dispatched SendReminder (30s delay)''
          (Dispatcher_Later drv cd d (fr 1) (30 * second) (app_job ''SendReminder'') reminder_args [])
        (dispatched ''dispatch ProcessOrder'' ''Dispatched ProcessOrder with chain (queue=high)''
          (DispatchWithOptions drv cd d [fr 2, fr 3, fr 4] order_options)
        (dispatched ''dispatch SyncInventory'' ''Dispatched SyncInventory''
          (\<lambda>s. case time_now drv s of
             (now, s1) \<Rightarrow>
               Dispatch drv cd d (fr 5) (app_job ''SyncInventory'') [(''warehouse_id'', VInt 5)]
                 [WithRetryUntil (Unix (now + 3600 * second)), WithTags [''inventory'', ''sync''], WithBackoff (VInt 60)] s1)
        (\<lambda>s. (([''All jobs dispatched successfully.''], Done), s)))))
          (w\<lparr>rdriver := NewRedisDriver \<lparr>CfgPrefix = ''laravel-database-'', NoPrefix = False, RetryAfter = 0, BlockFor = 0,
             BatchSize = 0\<rparr>\<rparr>))"

text \<open>The program ends normally only after every dispatch, and then it has printed every line, in order.\<close>

lemma dispatched_done:
  assumes "dispatched name line send_job rest s = ((out, Done), s')"
  obtains s1 out' where "send_job s = (Ok (), s1)" "rest s1 = ((out', Done), s')" "out = line # out'"
  using assms by (auto simp: dispatched_def split: prod.splits outcome.splits)

lemma producer_done:
  assumes "producer cl cd fr ping w = ((out, Done), w')"
  shows "\<not> ping \<and> out = [''Dispatched SendWelcomeEmail'', ''Dispatched SendReminder (30s delay)'',
    ''Dispatched ProcessOrder with chain (queue=high)'', ''Dispatched SyncInventory'', ''All jobs dispatched successfully.'']"
  using assms unfolding producer_def Let_def by (auto split: if_splits elim!: dispatched_done)

section \<open>The consumer\<close>

text \<open>What the handlers print and the listeners log: \<open>Printed\<close> is one line on standard output.\<close>

datatype line = Printed string | JobCompleted string int | JobFailedPermanently string "job_error option"

definition say :: "line \<Rightarrow> line list \<times> 's \<Rightarrow> line list \<times> 's" where
  "say l w = (fst w @ [l], snd w)"

text \<open>The value of an accessor; on a parsed job it always has one (\<open>accessors_return\<close>).\<close>

definition value_or :: "'a \<Rightarrow> (unit, 'a) outcome \<Rightarrow> 'a" where
  "value_or x r = (case r of Ok a \<Rightarrow> a | _ \<Rightarrow> x)"

text \<open>\<open>%.2f\<close>: the exact value rounded to hundredths, ties to even.\<close>

definition Fixed2 :: "float64 \<Rightarrow> string" where
  "Fixed2 f =
     (if IsNaN f then ''NaN'' else if IsInf f 1 then ''+Inf'' else if IsInf f (- 1) then ''-Inf''
      else let q = round_div (funits f * 100) (2 ^ unit_exp); r = q mod 100
           in (if fsign f then ''-'' else []) @ FormatUint (q div 100) @ ''.'' @ FormatUint (r div 10) @ FormatUint (r mod 10))"

definition send_welcome_email :: "(line list \<times> 's) handler" where
  "send_welcome_email js =
     (case js of (job, w) \<Rightarrow>
        let email = value_or [] (Job_GetString job ''email''); userID = Job_GetInt job ''user_id''
        in (None, job, say (Printed (''Sending welcome email to '' @ email @ '' (user #'' @ FormatInt (sint userID) @ '')'')) w))"

text \<open>\<open>show_any\<close> is \<open>%v\<close>.\<close>

definition process_order :: "(any \<Rightarrow> string) \<Rightarrow> (line list \<times> 's) handler" where
  "process_order show_any js =
     (case js of (job, w) \<Rightarrow>
        let orderID = Job_GetInt job ''order_id''; amount = Job_GetFloat job ''amount'';
            w1 = say (Printed (''Processing order #'' @ FormatInt (sint orderID) @ '' for $'' @ Fixed2 amount)) w
        in (None, job,
            case value_or None (GetModelID job ''user'') of
              None \<Rightarrow> w1
            | Some model \<Rightarrow> say (Printed (''  User model: '' @ MClass model @ '' #'' @ show_any (MID model))) w1))"

definition unhandled_job :: "(line list \<times> 's) handler" where
  "unhandled_job js =
     (case js of (job, w) \<Rightarrow>
        (None, job, say (Printed (''Unhandled job: '' @ Job_DisplayName job @ '' (uuid='' @ Job_UUID job @ '')'')) w))"

text \<open>The getter of the timeout middleware.\<close>

definition job_timeout :: "jobT \<Rightarrow> int option" where
  "job_timeout job = map_option (\<lambda>t. wrap64 (t * second)) (Job_Timeout job)"

definition consumer_driver :: RedisDriver where
  "consumer_driver =
     NewRedisDriver \<lparr>CfgPrefix = ''laravel-database-'', NoPrefix = False, RetryAfter = 90 * second, BlockFor = 5 * second,
       BatchSize = 0\<rparr>"

definition consumer_worker ::
  "(int \<Rightarrow> (jobT \<times> line list \<times> 's) nextf \<Rightarrow> jobT \<times> line list \<times> 's \<Rightarrow> job_error option option \<times> jobT \<times> line list \<times> 's) \<Rightarrow>
   (any \<Rightarrow> string) \<Rightarrow> (line list \<times> 's) worker" where
  "consumer_worker race show_any =
     (let mgr = NewManager;
          mgr = Manager_Register mgr (app_job ''SendWelcomeEmail'') (Some send_welcome_email);
          mgr = Manager_Register mgr (app_job ''ProcessOrder'') (Some (process_order show_any));
          mgr = Manager_RegisterDefault mgr (Some unhandled_job);
          mgr = Manager_Use mgr [Timeout race job_timeout];
          mgr = Manager_On mgr JobProcessed (\<lambda>e. say (JobCompleted (JobName e) (Duration e)));
          mgr = Manager_On mgr JobFailed (\<lambda>e. say (JobFailedPermanently (JobName e) (Error e)))
      in Manager_Worker mgr
           \<lparr>WQueue = ''default'', Concurrency = 4, MaxJobs = 0, MaxTime = 0, WSleep = 3 * second, StopOnEmpty = False\<rparr>)"

section \<open>The consumer's worker\<close>


lemma round_div_scale: "0 < k \<Longrightarrow> round_div (a * k) (b * k) = round_div a b"
proof -
  assume k: "0 < k"
  have "2 * (a mod b * k) < b * k \<longleftrightarrow> 2 * (a mod b) < b" "2 * (a mod b * k) = b * k \<longleftrightarrow> 2 * (a mod b) = b"
    using k by (simp_all add: mult.assoc [symmetric])
  with k show ?thesis by (simp add: round_div_def Let_def mult_mod_left [symmetric])
qed

text \<open>\<open>price\<close> is the float nearest to 99.99, and it is printed as such.\<close>

lemma price_nearest: "round_f64 False 9999 100 = Some price"
proof -
  have p: "(2::nat) ^ unit_exp = 2 ^ 46 * 2 ^ 1028" unfolding unit_exp_def power_add [symmetric] by simp
  define K :: nat where "K = 2 ^ 1028"
  have K: "0 < K" by (simp add: K_def)
  have u: "9999 * 2 ^ unit_exp = 9999 * 2 ^ 46 * K" unfolding p K_def by (simp only: mult.assoc)
  have d: "9999 * 2 ^ 46 * K div 100 = (9999 * 2 ^ 44 * K) div 25"
    by (simp add: mult.assoc [symmetric] div_mult2_eq [symmetric])
  have "bitlen (9999 * 2 ^ 46 * K div 100) = 1080"
  proof (rule bitlen_eqI)
    have k: "(2::nat) ^ 1080 = 2 ^ 52 * K" "(2::nat) ^ Suc 1080 = 2 ^ 53 * K" unfolding K_def power_add [symmetric] by simp_all
    show "2 ^ 1080 \<le> 9999 * 2 ^ 46 * K div 100" unfolding k(1) by (subst less_eq_div_iff_mult_less_eq) simp_all
    show "9999 * 2 ^ 46 * K div 100 < 2 ^ Suc 1080" unfolding k(2) by (subst div_less_iff_less_mult) (use K in simp_all)
  qed
  then have "round_f64 False 9999 100 = (let q = round_div (9999 * 2 ^ 46 * K) (100 * K);
      e = (if q < 2 ^ 52 then 0 else if q < 2 ^ 53 then 1029 else 1030);
      m = (if q < 2 ^ 52 then q else if q < 2 ^ 53 then q - 2 ^ 52 else 0)
    in if 2047 \<le> e then None else Some (F64 False e m))"
    unfolding round_f64_def Let_def u by (simp add: K_def del: power_numeral)
  moreover have "round_div (9999 * 2 ^ 46 * K) (100 * K) = 7036170730324623"
    unfolding round_div_scale [OF K] by (simp add: round_div_def Let_def)
  ultimately show ?thesis by (simp add: price_def)
qed

lemma price_printed: "Fixed2 price = ''99.99''"
proof -
  have p: "(2::nat) ^ unit_exp = 2 ^ 46 * 2 ^ 1028" unfolding unit_exp_def power_add [symmetric] by simp
  define K :: nat where "K = 2 ^ 1028"
  have K: "0 < K" by (simp add: K_def)
  have "funits price = (2 ^ 52 + 2532571102954127) * K" by (simp add: funits_def price_def K_def del: power_numeral)
  then have "funits price * 100 = 703617073032462300 * K" by simp
  then have "round_div (funits price * 100) (2 ^ unit_exp) = 9999"
    unfolding p K_def [symmetric] by (simp only: round_div_scale [OF K]) (simp add: round_div_def Let_def)
  then have "Fixed2 price = FormatUint 99 @ ''.'' @ FormatUint 9 @ FormatUint 9"
    by (simp add: Fixed2_def IsNaN_def IsInf_def price_def)
  moreover have "FormatUint 99 = ''99''" "FormatUint 9 = ''9''" by code_simp+
  ultimately show ?thesis by simp
qed

lemma consumer_fire:
  "fire (consumer_worker race shw) e s =
     (if Type e = JobProcessed then say (JobCompleted (JobName e) (Duration e)) s
      else if Type e = JobFailed then say (JobFailedPermanently (JobName e) (Error e)) s else s)"
proof -
  let ?b = "On (On NewBus JobProcessed (\<lambda>e. say (JobCompleted (JobName e) (Duration e)))) JobFailed
     (\<lambda>e. say (JobFailedPermanently (JobName e) (Error e)))"
  have "wevents (consumer_worker race shw) = ?b"
    by (simp add: consumer_worker_def Manager_Worker_def newWorker_def Manager_On_def Manager_Use_def
        Manager_RegisterDefault_def Manager_Register_def NewManager_def Let_def)
  moreover have "JobFailed \<noteq> JobProcessed" by (simp add: JobFailed_def JobProcessed_def)
  ultimately show ?thesis
    by (simp add: fire_def Fire_def registered_def [symmetric] registered_On registered_NewBus)
qed

lemma consumer_handlers:
  "resolveHandler (consumer_worker race shw) j =
     (if Job_CommandName j = app_job ''SendWelcomeEmail'' then Some send_welcome_email
      else if Job_CommandName j = app_job ''ProcessOrder'' then Some (process_order shw)
      else if Job_DisplayName j = app_job ''SendWelcomeEmail'' then Some send_welcome_email
      else if Job_DisplayName j = app_job ''ProcessOrder'' then Some (process_order shw)
      else Some unhandled_job)"
  by (simp add: resolveHandler_def consumer_worker_def Manager_Worker_def newWorker_def Manager_On_def Manager_Use_def
        Manager_RegisterDefault_def Manager_Register_def NewManager_def Let_def app_job_def)

lemma consumer_untimed:
  assumes "Job_Timeout j = None"
  shows "Then (pipeline (consumer_worker race shw)) j h = h"
proof -
  have "pipeline (consumer_worker race shw) = NewPipeline [Timeout race job_timeout]"
    by (simp add: consumer_worker_def Manager_Worker_def newWorker_def Manager_On_def Manager_Use_def
        Manager_RegisterDefault_def Manager_Register_def NewManager_def Let_def)
  with assms show ?thesis
    by (intro ext) (simp add: Then_fold NewPipeline_def Timeout_def job_timeout_def)
qed

section \<open>From the producer to the consumer\<close>

definition welcome_tree :: php where
  "welcome_tree = PObj (app_job ''SendWelcomeEmail'') [(''email'', PString ''user@example.com''), (''user_id'', PInt 42)]"

lemma welcome_good: "good_args welcome_args"
  by (simp add: good_args_def welcome_args_def wf_map_def stripVisibility_def NUL_def exact_int_def)
    (simp add: valid_utf8_ascii)

lemma welcome_command:
  assumes "2 \<le> php_fuel cd" "dformat d = FormatPHP"
  shows "marshalCommand cd d (app_job ''SendWelcomeEmail'') welcome_args = Ok (ser welcome_tree)"
    "go_len (ser welcome_tree)" "valid_utf8 (ser welcome_tree)"
proof -
  obtain n where n: "php_fuel cd = Suc (Suc n)" using assms(1) by (metis add_2_eq_Suc le_Suc_ex)
  have "sorted_entries welcome_args = welcome_args" by (intro sorted_entries_sorted) (simp_all add: welcome_args_def)
  then have "welcome_tree = PObj (app_job ''SendWelcomeEmail'') (map (\<lambda>(k, v). (k, scalar_tree v)) (sorted_entries welcome_args))"
    by (simp add: welcome_tree_def welcome_args_def)
  with php_command_tree(1) [OF good_args_formats [THEN conjunct2, OF welcome_good], of "args_heap cd" "app_job ''SendWelcomeEmail''" n]
  have "MarshalObject (php_fuel cd) (args_heap cd) (app_job ''SendWelcomeEmail'') welcome_args = Ok (ser welcome_tree)"
    by (simp add: MarshalObject_def alloc_def n Encode_iff del: absv.simps)
  then show "marshalCommand cd d (app_job ''SendWelcomeEmail'') welcome_args = Ok (ser welcome_tree)"
    by (simp add: marshalCommand_def assms(2))
  show "go_len (ser welcome_tree)" by code_simp
  show "valid_utf8 (ser welcome_tree)" by (rule valid_ser) (simp add: welcome_tree_def app_job_def valid_utf8_ascii)
qed

text \<open>
  The consumer's worker on a job called \<open>SendWelcomeEmail\<close> without a timeout: it prints one line,
  takes the job out of its queue and logs that it was processed.
\<close>

lemma consumer_sends_email:
  assumes "redis_reliable cl view" "tdriver tk = flagged (redis_driver cl)" "redis_queue view (Queue raw) w = Some Q"
    "ParseJob (tfuel tk) raw = Ok j" "Job_CommandName j = app_job ''SendWelcomeEmail''" "Job_Timeout j = None"
    "Job_GetString j ''email'' = (Ok email :: (unit, string) outcome)" "Job_GetInt j ''user_id'' = user"
  shows "\<exists>w' du. process tk (consumer_worker race shw) raw (out, w) =
      (Ok (), out @ [Printed (''Sending welcome email to '' @ email @ '' (user #'' @ FormatInt (sint user) @ '')''),
                     JobCompleted (Job_DisplayName j) du], w') \<and>
    redis_queue view (Queue raw) w' = Some (q_delete (Body raw) Q)"
proof -
  note contract = redis_reliable.contract_holds [OF assms(1)]
  have raw: "jraw j = raw" using assms(4) by (auto simp: ParseJob_def split: option.splits)
  obtain t0 w0 where t0: "time_now (redis_driver cl) w = (t0, w0)" by fastforce
  obtain t1 w1 where t1: "time_now (redis_driver cl) w0 = (t1, w1)" by fastforce
  have "redis_queue view (Queue raw) w1 = Some Q"
    using driver_contract.clock_law [OF contract, of "Queue raw" w] driver_contract.clock_law [OF contract, of "Queue raw" w0]
      t0 t1 assms(3) by simp
  with driver_contract.delete_law [OF contract] obtain w2 where
    w2: "drv_delete (redis_driver cl) raw w1 = (None, w2)" "redis_queue view (Queue raw) w2 = Some (q_delete (Body raw) Q)"
    by blast
  let ?line = "Printed (''Sending welcome email to '' @ email @ '' (user #'' @ FormatInt (sint user) @ '')'')"
  have h: "resolveHandler (consumer_worker race shw) j = Some send_welcome_email"
    "Then (pipeline (consumer_worker race shw)) j send_welcome_email (j, out, w0) = (None, j, out @ [?line], w0)"
    using assms(5-8) by (simp_all add: consumer_handlers consumer_untimed send_welcome_email_def value_or_def say_def)
  have ev: "JobProcessing \<noteq> JobProcessed" "JobProcessing \<noteq> JobFailed" by (simp_all add: JobProcessing_def JobProcessed_def JobFailed_def)
  have "process tk (consumer_worker race shw) raw (out, w) =
      (Ok (), out @ [?line, JobCompleted (Job_DisplayName j) (t1 - t0)], w2)"
    using assms(2,4) t0 t1 w2(1) h ev raw
    by (simp add: process_def flagged_def beside_def Job_Delete_def consumer_fire job_event_def say_def Let_def)
  with w2(2) show ?thesis by blast
qed

text \<open>
  What the producer's first dispatch puts into an empty queue is what the consumer prints: the
  next job that is popped, handled by the consumer's worker, prints the address and the number
  that were dispatched, and leaves the queue empty.
\<close>

theorem welcome_email_is_sent:
  assumes "redis_reliable cl view" "redis_queue view ''default'' w = Some Q" "ready Q = []" "delayed Q = []" "reserved Q = []"
    "2 \<le> php_fuel cd" "tdriver tk = flagged (redis_driver cl)" "tfuel tk = php_fuel cd"
    "p = NewPayload fr (app_job ''SendWelcomeEmail'') (ser welcome_tree) [WithMaxTries 3]" "wf_payload p"
  shows "\<exists>w1 raw w2 w3 du Q3. Dispatch (redis_driver cl) cd (NewDispatcher [WithDefaultQueue ''default'']) fr
      (app_job ''SendWelcomeEmail'') welcome_args [WithMaxTries 3] w = (Ok (), w1) \<and>
    drv_pop (redis_driver cl) ''default'' w1 = (Inr (Some raw), w2) \<and>
    process tk (consumer_worker race shw) raw ([], w2) =
      (Ok (), [Printed ''Sending welcome email to user@example.com (user #42)'',
               JobCompleted (app_job ''SendWelcomeEmail'') du], w3) \<and>
    redis_queue view ''default'' w3 = Some Q3 \<and> ready Q3 = [] \<and> delayed Q3 = [] \<and> reserved Q3 = []"
proof -
  let ?d = "NewDispatcher [WithDefaultQueue ''default'']"
  have d: "dformat ?d = FormatPHP" "dqueue ?d = ''default''" by (simp_all add: NewDispatcher_def WithDefaultQueue_def)
  note c = welcome_command [OF assms(6) d(1)]
  have p: "Backoff p = VNil" "Data p = \<lparr>CommandName = app_job ''SendWelcomeEmail'', Command = ser welcome_tree\<rparr>"
    "DisplayName p = app_job ''SendWelcomeEmail''" "laravelPayload.Timeout p = None"
    by (simp_all add: assms(9) NewPayload_def zero_payload_def WithMaxTries_def)
  obtain body where body: "marshal_payload (other_json cd) p = Some body" "unmarshal_payload body = Some p"
    using marshal_wf [OF assms(10) p(1)] by blast
  obtain w1 raw w2 where pop: "send (redis_driver cl) ''default'' 0 body w = (Ok (), w1)"
    "drv_pop (redis_driver cl) ''default'' w1 = (Inr (Some raw), w2)" "Body raw = body" "Queue raw = ''default''"
    and Q2: "\<exists>Q2 t. redis_queue view ''default'' w2 = Some Q2 \<and> ready Q2 = [] \<and> delayed Q2 = [] \<and> reserved Q2 = [(t, body)]"
    by (rule sent_popped [OF assms(1-5) order.refl])
  then obtain Q2 t where Q2: "redis_queue view ''default'' w2 = Some Q2" "ready Q2 = []" "delayed Q2 = []" "reserved Q2 = [(t, body)]"
    by blast
  have dispatch: "Dispatch (redis_driver cl) cd ?d fr (app_job ''SendWelcomeEmail'') welcome_args [WithMaxTries 3] w = (Ok (), w1)"
    using pop(1) unfolding Dispatch_def dispatch_def c(1) before_def map_err.simps outcome.case marshal_or_def
      assms(9) [symmetric] body(1) option.case d(2) .
  have job: "valid_utf8 (app_job ''SendWelcomeEmail'')" by (simp add: app_job_def valid_utf8_ascii)
  obtain h obj where cmd: "decodeCommand (php_fuel cd) (ser welcome_tree) = Ok ((h, obj), FormatPHP)"
    "\<forall>(k, v) \<in> set welcome_args. \<forall>r p. sees \<lparr>jraw = r, jpayload = p, jheap = h, jdata = obj, jformat = FormatPHP\<rparr> k v"
    using command_seen [OF welcome_good job assms(6) c(1,2)] unfolding d(1) by blast
  let ?j = "\<lparr>jraw = raw, jpayload = p, jheap = h, jdata = obj, jformat = FormatPHP\<rparr>"
  have parse: "ParseJob (tfuel tk) raw = Ok ?j" using pop(3) body(2) cmd(1) p(2) assms(8) by (simp add: ParseJob_def)
  have args: "Job_GetString ?j ''email'' = (Ok ''user@example.com'' :: (unit, string) outcome)" "Job_GetInt ?j ''user_id'' = 42"
    using cmd(2) by (auto simp: welcome_args_def)
  have fields: "Job_CommandName ?j = app_job ''SendWelcomeEmail''" "Job_Timeout ?j = None" "Job_DisplayName ?j = app_job ''SendWelcomeEmail''"
    using p by (simp_all add: job_fields)
  have n42: "FormatInt (sint (42 :: int64)) = ''42''" by code_simp
  have "redis_queue view (Queue raw) w2 = Some Q2" using pop(4) Q2(1) by simp
  from consumer_sends_email [where race = race and shw = shw and out = "[]", OF assms(1,7) this parse fields(1,2) args] obtain w3 du where
    "process tk (consumer_worker race shw) raw ([], w2) =
      (Ok (), [Printed ''Sending welcome email to user@example.com (user #42)'', JobCompleted (app_job ''SendWelcomeEmail'') du], w3)"
    "redis_queue view ''default'' w3 = Some (q_delete body Q2)"
    unfolding pop(3,4) fields(3) n42 by auto
  with dispatch pop(2) Q2 show ?thesis
    by (intro exI [of _ w1] exI [of _ raw] exI [of _ w2] exI [of _ w3] exI [of _ du] exI [of _ "q_delete body Q2"])
      (simp add: q_delete_def zremove_def)
qed

end
