(* ===== verification/Spec2Isabelle.thy ===== *)
theory Spec2Isabelle
  imports Php_Properties Php_Helpers Queue_Properties Middleware_Properties Events
    Queue_Job_Properties Worker_Properties Pool_Properties Failed_Properties Batch_Properties App_Config
    Queue_Chains Job_Accessors Example_Programs
begin

text \<open>
  A model of laravel-queue-go, a library in Go that works on Laravel's Redis queues: it dispatches
  jobs that PHP workers can run and runs jobs that PHP has dispatched.

  The program. A dispatcher (\<open>src/pkg/queue/dispatcher.go\<close>) writes a job's arguments as PHP's
  \<open>serialize()\<close> text or as JSON, wraps it into a payload (\<open>payload.go\<close>) and hands the payload's
  JSON to a driver. The Redis driver (\<open>redis_driver.go\<close>, \<open>keys.go\<close>, \<open>lua.go\<close>) keeps a queue as a list
  of ready jobs and two sorted sets, the delayed and the reserved jobs, and moves jobs between
  them with scripts. A worker (\<open>worker.go\<close>, set up by \<open>manager.go\<close>) pops raw jobs, parses them
  (\<open>job.go\<close>, \<open>src/pkg/phpserialize\<close>), runs the handler through a pipeline of middlewares
  (\<open>src/pkg/middleware\<close>), fires events (\<open>src/pkg/events\<close>), and deletes, releases or buries the job;
  buried jobs go to a table (\<open>src/pkg/failed\<close>), batches of jobs count down in another
  (\<open>src/pkg/batch\<close>). \<open>src/cmd/lqworker\<close> and \<open>src/pkg/config\<close> make a worker from flags and
  environment.

  Values and results. A Go \<open>int\<close> and a \<open>time.Duration\<close> are \<open>int\<close> with \<open>wrap64\<close> where arithmetic can
  leave 64 bits; \<open>int64\<close> and \<open>uint64\<close> values inside an \<open>any\<close> are words; a \<open>float64\<close> is its three
  fields; a string is its bytes. A fallible function gives a sum or an \<open>outcome\<close>: a value, an error,
  a panic, or the end of the fuel. A function with effects takes and returns the state of the world.

  Standard library. \<open>Go_Prelude\<close>: 64-bit ints, slicing, outcomes, maps as association lists with the
  lemmas all components share. \<open>Go_Strconv\<close>, \<open>Go_Float\<close>: decimal texts of integers and floats both
  ways. \<open>Go_Json_String\<close>, \<open>Go_Json\<close>, \<open>Go_Json_Values\<close>: \<open>encoding/json\<close>, from UTF-8 and string literals
  to a lexer, a stack machine for the nesting, and the conversion from and to \<open>any\<close>; the
  lemmas are the round trips, and in \<open>Go_Json_Text\<close> that JSON text is valid UTF-8. \<open>Go_Duration\<close>: \<open>time.ParseDuration\<close>.

  PHP's format (\<open>phpserialize\<close>). \<open>Php_Types\<close>: dynamic values, objects and arrays in an explicit heap.
  \<open>Php_Spec\<close>: trees of PHP values and their \<open>serialize()\<close> text, the reference. \<open>Php_Encoder\<close>,
  \<open>Php_Decoder\<close>, \<open>Php_Helpers\<close>: \<open>encoder.go\<close>, \<open>decoder.go\<close>, and \<open>helpers.go\<close> with
  \<open>model_identifier.go\<close>, one definition per function. \<open>Php_Cursor\<close>, \<open>Php_Roundtrip\<close>: the decoder on
  printed trees. \<open>Php_Safety\<close>, \<open>Php_Limits\<close>: where it cannot panic and where it panics or never
  returns. \<open>Php_Typing\<close>: the types of everything it returns. \<open>Php_Properties\<close>: C1 to C10.

  The queue. \<open>Redis_Service\<close>: commands, the client as a record of effects, the laws of the commands
  as locales (\<open>redis_server\<close>, \<open>redis_counters\<close>, and a reliable or a lossy link), an in-memory server
  that satisfies them. \<open>Queue_Driver\<close>: keys, scripts and the methods of the driver.
  \<open>Queue_Refinement\<close>: an abstract queue (\<open>queue_state\<close>, \<open>q_push\<close>, \<open>q_pop\<close> and so on) and the
  refinement of every operation. \<open>Queue_Ledger\<close>: histories of calls and what they owe. \<open>Queue_Properties\<close>:
  C11 to C18. \<open>Queue_Contract\<close>: the locale \<open>driver_contract\<close>, what a worker relies on, as a sublocale
  of the reliable server.

  Jobs. \<open>Queue_Payload\<close>: \<open>payload.go\<close> and the options, the JSON of a payload both ways with Go's rules
  for field names, nulls and repeated keys. \<open>Queue_Job\<close>: \<open>job.go\<close>. \<open>Queue_Dispatcher\<close>: \<open>dispatcher.go\<close>.
  \<open>Queue_Commands\<close>: the properties of a decoded command against the arguments it was made from.
  \<open>Queue_Job_Properties\<close>: C26 to C28 and C30. \<open>End_To_End\<close>: the way of a job from the dispatcher to the
  handler; C25. \<open>Queue_Chains\<close>: the way of a chain of jobs; C29. \<open>Job_Accessors\<close>: what can be read off any parsed
  job, hostile or not, without a panic; C24.

  Around the handler. \<open>Middleware\<close> and \<open>Middleware_Properties\<close>: the pipeline, rate limiter, exception
  throttle, timeout and locks; C19 to C22. \<open>Events\<close>: the bus with its slices as arrays in a store;
  C23.

  The worker. \<open>Queue_Worker\<close>: \<open>worker.go\<close> and \<open>manager.go\<close>, up to the sequential loop, and the locale
  \<open>fetch_context\<close>. \<open>Queue_Pool\<close>: the concurrent loop as the step relation \<open>pool_step\<close> with its
  invariant. \<open>Worker_Properties\<close>: C31 to C34. \<open>Pool_Properties\<close>: C35 to C37.

  Tables. \<open>Sql_Service\<close>: names of tables (\<open>dbutil\<close>), the database as a parameter, \<open>Scan\<close>. \<open>Batches\<close> and
  \<open>Batch_Properties\<close>: package \<open>batch\<close>, the locale \<open>batch_sql\<close>; C38 and C40. \<open>Failed_Jobs\<close> and
  \<open>Failed_Properties\<close>: package \<open>failed\<close>, the locale \<open>failed_sql\<close>, the worker with its provider; C39.

  Programs. \<open>App_Config\<close>: \<open>config.go\<close> and \<open>cmd/lqworker/main.go\<close> from the parsed flags to the exit status,
  with the precedence of flags over the environment over the defaults. \<open>Example_Programs\<close>: the producer
  and the consumer under \<open>src/examples\<close>, and a job that goes from the one to the other.

  Fuel. The recursion of the encoder and the decoder carries fuel for the nesting; C4 shows that the
  length of the text plus 2 is enough for the decoder, C8 and C9 that for some inputs no fuel is.
  The sequential loop takes one unit per iteration; C34 shows that one more than the number of ready
  jobs is enough. \<open>ParseDuration\<close> takes the length of its text, and every component consumes some of it.

  Parameters. The Redis server and client, the SQL database, the clock, random bytes and UUIDs, the
  JSON of values of types the library does not name (\<open>oth\<close>, \<open>tjson\<close>), the text of an error, the
  scheduler's choice in \<open>Timeout\<close>, the answer to the first ping, and cancellation and sleeping (\<open>environment\<close>).

  Not modelled. Log output of the library and of \<open>lqworker\<close>; what \<open>flag.Parse\<close> does with the command
  line; the delivery of signals, which are the cancellation of a context; the consumer example's start-up
  messages and exit. One \<open>process\<close> call is one step of the concurrent loop, so handlers that interfere
  with each other in the middle are not seen. A panic of a handler or listener
  is not modelled (it would end the program as a panic of the decoder does). A nil and an empty slice
  inside an \<open>any\<close> are the same value.
\<close>

end
